(* ===== verification/Prelude.thy ===== *)
theory Prelude
  imports Main
    "HOL-Library.Word"
    "HOL-Library.Finite_Map"
    "HOL-Library.List_Lexorder"
    "HOL-Library.Char_ord"
begin

text \<open>
  Shared vocabulary of the development: the machine types of the Go code, the
  outcome type of a fallible call, Go maps as finite maps with their sorted key
  lists, little-endian byte strings, decimal numerals, and the generic lemmas
  about them that the component theories use.

  \<^item> \<open>int64\<close> values are integers; every arithmetic operation of the code that can
    overflow is written with \<open>wrap64\<close>.
  \<^item> A fallible call returns \<open>'e + 'a\<close>, the error on the left.
  \<^item> A Go \<open>map\<close> is a finite map; \<open>fmkeys\<close> is the list of its keys in increasing
    order, what the code gets by collecting the keys and sorting them.
\<close>

named_theorems go_defs \<open>definitions of small helpers, unfolded by proofs\<close>

type_synonym byte = "8 word"
type_synonym uint32 = "32 word"
type_synonym uint64 = "64 word"
type_synonym int64 = int
type_synonym ('e, 'a) res = "'e + 'a"

abbreviation Ok :: "'a \<Rightarrow> ('e, 'a) res" where
  "Ok \<equiv> Inr"

abbreviation Err :: "'e \<Rightarrow> ('e, 'a) res" where
  "Err \<equiv> Inl"

section \<open>Signed 64-bit arithmetic\<close>

definition wrap64 :: "int \<Rightarrow> int64" where
  "wrap64 i = (i + 2 ^ 63) mod 2 ^ 64 - 2 ^ 63"

definition min_int64 :: int64 where
  "min_int64 = - (2 ^ 63)"

definition max_int64 :: int64 where
  "max_int64 = 2 ^ 63 - 1"

definition is_int64 :: "int \<Rightarrow> bool" where
  "is_int64 i \<longleftrightarrow> min_int64 \<le> i \<and> i \<le> max_int64"

lemma wrap64_id [simp]: "is_int64 i \<Longrightarrow> wrap64 i = i"
  by (simp add: wrap64_def is_int64_def min_int64_def max_int64_def)

lemma is_int64_wrap64 [simp, intro]: "is_int64 (wrap64 i)"
  by (simp add: wrap64_def is_int64_def min_int64_def max_int64_def)

lemma wrap64_mod: "wrap64 i mod 2 ^ 64 = i mod 2 ^ 64"
proof -
  have "wrap64 i mod 2 ^ 64 = ((i + 2 ^ 63) - 2 ^ 63) mod 2 ^ 64"
    unfolding wrap64_def by (rule mod_diff_left_eq)
  then show ?thesis by simp
qed

text \<open>Division and remainder of Go truncate towards zero.\<close>

definition quot64 :: "int64 \<Rightarrow> int64 \<Rightarrow> int64" where
  "quot64 a b = wrap64 (sgn a * sgn b * (\<bar>a\<bar> div \<bar>b\<bar>))"

definition rem64 :: "int64 \<Rightarrow> int64 \<Rightarrow> int64" where
  "rem64 a b = sgn a * (\<bar>a\<bar> mod \<bar>b\<bar>)"

section \<open>Conversions between signed and unsigned 64-bit integers\<close>

definition uint64_of_int64 :: "int64 \<Rightarrow> uint64" where
  "uint64_of_int64 i = word_of_int i"

definition int64_of_uint64 :: "uint64 \<Rightarrow> int64" where
  "int64_of_uint64 w = wrap64 (uint w)"

lemma int64_of_uint64_of_int64 [simp]:
  assumes "is_int64 i"
  shows "int64_of_uint64 (uint64_of_int64 i) = i"
proof -
  have "wrap64 (i mod 2 ^ 64) = wrap64 i"
    by (simp add: wrap64_def mod_simps)
  then show ?thesis
    using assms by (simp add: int64_of_uint64_def uint64_of_int64_def uint_word_of_int)
qed

section \<open>Go maps: finite maps and their sorted keys\<close>

definition fmkeys :: "('k::linorder, 'v) fmap \<Rightarrow> 'k list" where
  "fmkeys m = sorted_list_of_fset (fmdom m)"

lemma set_fmkeys [simp]: "set (fmkeys m) = fmdom' m"
  by (simp add: fmkeys_def fmdom'_alt_def)

lemma sorted_fmkeys [simp]: "sorted (fmkeys m)"
  by (simp add: fmkeys_def sorted_list_of_fset.rep_eq)

lemma distinct_fmkeys [simp]: "distinct (fmkeys m)"
  by (simp add: fmkeys_def sorted_list_of_fset.rep_eq)

lemma fmkeys_empty [simp]: "fmkeys fmempty = []"
  by (simp add: fmkeys_def sorted_list_of_fset.rep_eq)

lemma fmkeys_eq_sorted_list: "fmkeys m = sorted_list_of_set (fmdom' m)"
  by (simp add: fmkeys_def sorted_list_of_fset.rep_eq fmdom'_alt_def)

lemma fmkeys_of_list [code]: "fmkeys (fmap_of_list ps) = sort (remdups (map fst ps))"
proof -
  have "fmdom' (fmap_of_list ps) = set (map fst ps)"
    by (simp add: fmdom'_alt_def fset_of_list.rep_eq)
  then show ?thesis
    by (simp only: fmkeys_eq_sorted_list sorted_list_of_set_sort_remdups)
qed

lemma fmdom'_lookup [simp]: "k \<in> fmdom' m \<longleftrightarrow> fmlookup m k \<noteq> None"
  by (auto simp: fmlookup_dom'_iff)

lemma fmap_of_fmkeys: "fmap_of_list (map (\<lambda>k. (k, the (fmlookup m k))) (fmkeys m)) = m"
proof (rule fmap_ext)
  fix k
  have "map_of (map (\<lambda>k. (k, the (fmlookup m k))) (fmkeys m)) k = fmlookup m k"
    by (auto simp: map_of_map_restrict restrict_map_def)
  then show "fmlookup (fmap_of_list (map (\<lambda>k. (k, the (fmlookup m k))) (fmkeys m))) k = fmlookup m k"
    by (simp add: fmlookup_of_list)
qed

section \<open>Byte strings of unsigned integers\<close>

text \<open>\<open>le_of_int n x\<close> is what \<open>binary.LittleEndian.PutUint\<close> writes into \<open>n\<close> bytes.\<close>

fun le_of_int :: "nat \<Rightarrow> int \<Rightarrow> byte list" where
  "le_of_int 0 x = []"
| "le_of_int (Suc n) x = word_of_int (x mod 256) # le_of_int n (x div 256)"

fun int_of_le :: "byte list \<Rightarrow> int" where
  "int_of_le [] = 0"
| "int_of_le (b # bs) = uint b + 256 * int_of_le bs"

lemma length_le_of_int [simp]: "length (le_of_int n x) = n"
  by (induction n arbitrary: x) auto

lemma int_of_le_of_int [simp]: "int_of_le (le_of_int n x) = x mod 256 ^ n"
proof (induction n arbitrary: x)
  case 0
  show ?case by simp
next
  case (Suc n)
  have "x mod (256 * 256 ^ n) = 256 * (x div 256 mod 256 ^ n) + x mod 256"
    by (rule zmod_zmult2_eq) simp
  with Suc show ?case by (simp add: uint_word_of_int)
qed

lemma int_of_le_nonneg [simp]: "0 \<le> int_of_le bs"
  by (induction bs) auto

lemma int_of_le_bound: "int_of_le bs < 256 ^ length bs"
proof (induction bs)
  case Nil
  show ?case by simp
next
  case (Cons b bs)
  have "uint b < 256" using unsigned_less [of b, where ?'a = int] by simp
  with Cons show ?case by simp
qed

definition le32 :: "uint32 \<Rightarrow> byte list" where
  "le32 w = le_of_int 4 (uint w)"

definition un_le32 :: "byte list \<Rightarrow> uint32" where
  "un_le32 bs = word_of_int (int_of_le bs)"

definition le64 :: "uint64 \<Rightarrow> byte list" where
  "le64 w = le_of_int 8 (uint w)"

definition un_le64 :: "byte list \<Rightarrow> uint64" where
  "un_le64 bs = word_of_int (int_of_le bs)"

lemma length_le [simp]: "length (le32 w) = 4" "length (le64 v) = 8"
  by (simp_all add: le32_def le64_def)

lemma un_le32_le32 [simp]: "un_le32 (le32 w) = w"
  using unsigned_less [of w, where ?'a = int] by (simp add: un_le32_def le32_def)

lemma un_le64_le64 [simp]: "un_le64 (le64 w) = w"
  using unsigned_less [of w, where ?'a = int] by (simp add: un_le64_def le64_def)

text \<open>Big-endian 32-bit lengths, used by the wire protocol.\<close>

definition be32 :: "uint32 \<Rightarrow> byte list" where
  "be32 w = rev (le32 w)"

definition un_be32 :: "byte list \<Rightarrow> uint32" where
  "un_be32 bs = un_le32 (rev bs)"

lemma length_be32 [simp]: "length (be32 w) = 4"
  by (simp add: be32_def)

lemma un_be32_be32 [simp]: "un_be32 (be32 w) = w"
  by (simp add: be32_def un_be32_def)

section \<open>Decimal numerals\<close>

definition digit_char :: "int \<Rightarrow> char" where
  "digit_char d = char_of (48 + d)"

definition digit_val :: "char \<Rightarrow> int" where
  "digit_val c = of_char c - 48"

definition is_digit :: "char \<Rightarrow> bool" where
  "is_digit c \<longleftrightarrow> CHR ''0'' \<le> c \<and> c \<le> CHR ''9''"

function dec_digits :: "int \<Rightarrow> string" where
  "dec_digits n = (if n < 10 then [digit_char n] else dec_digits (n div 10) @ [digit_char (n mod 10)])"
  by pat_completeness auto
termination
  by (relation "measure nat") auto

declare dec_digits.simps [simp del]

definition undec :: "string \<Rightarrow> int" where
  "undec cs = foldl (\<lambda>a c. 10 * a + digit_val c) 0 cs"

text \<open>\<open>strconv.FormatInt(i, 10)\<close>.\<close>

definition format_int :: "int \<Rightarrow> string" where
  "format_int i = (if i < 0 then CHR ''-'' # dec_digits (- i) else dec_digits i)"

lemma digit_val_char [simp]: "0 \<le> d \<Longrightarrow> d < 10 \<Longrightarrow> digit_val (digit_char d) = d"
  by (simp add: digit_val_def digit_char_def)

lemma digit_char_is_digit [simp]:
  assumes "0 \<le> d" "d < 10"
  shows "is_digit (digit_char d)"
proof -
  have "d \<in> {0, 1, 2, 3, 4, 5, 6, 7, 8, 9}" using assms by simp presburger
  then show ?thesis
    by (auto simp: is_digit_def digit_char_def char_of_def less_eq_char_def)
qed

lemma undec_dec_digits [simp]: "0 \<le> n \<Longrightarrow> undec (dec_digits n) = n"
proof (induction n rule: dec_digits.induct)
  case (1 n)
  then show ?case
    by (subst dec_digits.simps) (auto simp: undec_def)
qed

lemma dec_digits_digits: "0 \<le> n \<Longrightarrow> c \<in> set (dec_digits n) \<Longrightarrow> is_digit c"
proof (induction n rule: dec_digits.induct)
  case (1 n)
  show ?case
  proof (cases "n < 10")
    case True
    with "1.prems" show ?thesis by (simp add: dec_digits.simps [of n])
  next
    case False
    with "1.prems" have "c \<in> set (dec_digits (n div 10)) \<or> c = digit_char (n mod 10)"
      by (auto simp: dec_digits.simps [of n])
    with False "1.IH" show ?thesis by auto
  qed
qed

lemma dec_digits_inject [simp]:
  "0 \<le> m \<Longrightarrow> 0 \<le> n \<Longrightarrow> dec_digits m = dec_digits n \<longleftrightarrow> m = n"
  by (metis undec_dec_digits)

lemma minus_not_digit [simp]: "\<not> is_digit CHR ''-''"
  by (simp add: is_digit_def less_eq_char_def)

lemma dec_digits_no_minus: "0 \<le> n \<Longrightarrow> dec_digits n \<noteq> CHR ''-'' # cs"
  using dec_digits_digits [of n "CHR ''-''"] by auto

lemma format_int_inject [simp]: "format_int i = format_int j \<longleftrightarrow> i = j"
  using dec_digits_no_minus [symmetric] dec_digits_no_minus
  by (auto simp: format_int_def split: if_splits)

end
