(* ===== verification/Float64.thy ===== *)
theory Float64
  imports Prelude
begin

text \<open>
  The \<open>float64\<close> of Go: IEEE 754 binary64 with rounding to nearest, ties to even.
  A finite value is sign, integral significand and exponent, \<open>\<plusminus>m * 2^e\<close>, in the
  normalised form of \<open>f64_wf\<close>; NaN is one value, since no code of the program looks
  at its payload. Every operation computes the exact rational result with integers
  and rounds it once (\<open>round_rat\<close>), so all of them are executable.

  The theory holds the conversions from and to \<open>int64\<close>, the comparisons, the
  arithmetic of the expression evaluator, and the decimal conversions of
  \<open>strconv.ParseFloat\<close> and \<open>strconv.FormatFloat(f, 'g', -1, 64)\<close>.
  The lemmas show that the conversion of an \<open>int64\<close> is exact up to \<open>2^53\<close> and
  monotone everywhere, and that the comparison is a total preorder off NaN.
\<close>

section \<open>Representation\<close>

datatype float64 = FNaN | FInf bool | FFin bool int int

definition f64_wf :: "float64 \<Rightarrow> bool" where
  "f64_wf f = (case f of
     FFin s m e \<Rightarrow> 0 \<le> m \<and> m < 2 ^ 53 \<and> - 1074 \<le> e \<and> e \<le> 971 \<and> (2 ^ 52 \<le> m \<or> e = - 1074)
   | _ \<Rightarrow> True)"

definition f64_zero :: "bool \<Rightarrow> float64" where
  "f64_zero s = FFin s 0 (- 1074)"

text \<open>
  Every finite value is a multiple of the smallest subnormal \<open>2^-1074\<close>;
  \<open>f64_scaled\<close> is the multiplier, an integer that orders the finite values.
\<close>

fun f64_scaled :: "float64 \<Rightarrow> int" where
  "f64_scaled (FFin s m e) = (if s then - m else m) * 2 ^ nat (e + 1074)"
| "f64_scaled _ = 0"

fun f64_is_nan :: "float64 \<Rightarrow> bool" where
  "f64_is_nan FNaN = True"
| "f64_is_nan _ = False"

section \<open>Rounding\<close>

function ilog2 :: "int \<Rightarrow> int" where
  "ilog2 n = (if n < 2 then 0 else 1 + ilog2 (n div 2))"
  by pat_completeness auto
termination
  by (relation "measure nat") auto

declare ilog2.simps [simp del]

text \<open>\<open>rne n d\<close> rounds the quotient \<open>n / d\<close> to the nearest integer, ties to even.\<close>

definition rne :: "int \<Rightarrow> int \<Rightarrow> int" where
  "rne n d = (let q = n div d; r = n mod d
              in if 2 * r > d \<or> (2 * r = d \<and> odd q) then q + 1 else q)"

text \<open>The quotient \<open>p / (q * 2^e)\<close> as a pair of integers.\<close>

definition scale_exp :: "int \<Rightarrow> int \<Rightarrow> int \<Rightarrow> int \<times> int" where
  "scale_exp p q e = (if 0 \<le> e then (p, q * 2 ^ nat e) else (p * 2 ^ nat (- e), q))"

definition round_exp :: "int \<Rightarrow> int \<Rightarrow> int" where
  "round_exp p q =
     (let a = ilog2 p - ilog2 q;
          (n, d) = scale_exp p q a;
          e = (if n < d then a - 1 else a) - 52
      in max e (- 1074))"

definition pack :: "bool \<Rightarrow> int \<Rightarrow> int \<Rightarrow> float64" where
  "pack s m e =
     (let (m', e') = (if m = 2 ^ 53 then (2 ^ 52, e + 1) else (m, e))
      in if e' > 971 then FInf s else FFin s m' e')"

definition round_rat :: "bool \<Rightarrow> int \<Rightarrow> int \<Rightarrow> float64" where
  "round_rat s p q =
     (if p = 0 then f64_zero s
      else let e = round_exp p q; (n, d) = scale_exp p q e in pack s (rne n d) e)"

section \<open>Conversions\<close>

text \<open>\<open>float64(i)\<close> of an integer.\<close>

definition f64_of_int :: "int \<Rightarrow> float64" where
  "f64_of_int i = round_rat (i < 0) \<bar>i\<bar> 1"

text \<open>
  \<open>int64(f)\<close> truncates towards zero. Out of range, and on NaN, the language leaves
  the value to the implementation; the model is that of amd64, the platform the
  packages are built for, which gives the smallest \<open>int64\<close>.
\<close>

definition f64_trunc :: "float64 \<Rightarrow> int" where
  "f64_trunc f = (case f of
     FFin s m e \<Rightarrow>
       (let a = (if 0 \<le> e then m * 2 ^ nat e else m div 2 ^ nat (- e))
        in if s then - a else a)
   | _ \<Rightarrow> min_int64)"

definition f64_to_int64 :: "float64 \<Rightarrow> int64" where
  "f64_to_int64 f = (let i = f64_trunc f in if is_int64 i then i else min_int64)"

section \<open>Comparison\<close>

fun f64_lt :: "float64 \<Rightarrow> float64 \<Rightarrow> bool" where
  "f64_lt FNaN _ = False"
| "f64_lt _ FNaN = False"
| "f64_lt (FInf s) (FInf t) = (s \<and> \<not> t)"
| "f64_lt (FInf s) (FFin _ _ _) = s"
| "f64_lt (FFin _ _ _) (FInf t) = (\<not> t)"
| "f64_lt a b = (f64_scaled a < f64_scaled b)"

fun f64_eq :: "float64 \<Rightarrow> float64 \<Rightarrow> bool" where
  "f64_eq (FInf s) (FInf t) = (s = t)"
| "f64_eq (FFin s m e) (FFin t n d) = (f64_scaled (FFin s m e) = f64_scaled (FFin t n d))"
| "f64_eq _ _ = False"

section \<open>Arithmetic\<close>

definition round_signed :: "int \<Rightarrow> int \<Rightarrow> float64" where
  "round_signed p q = round_rat (p < 0) \<bar>p\<bar> q"

fun f64_neg :: "float64 \<Rightarrow> float64" where
  "f64_neg FNaN = FNaN"
| "f64_neg (FInf s) = FInf (\<not> s)"
| "f64_neg (FFin s m e) = FFin (\<not> s) m e"

fun f64_add :: "float64 \<Rightarrow> float64 \<Rightarrow> float64" where
  "f64_add FNaN _ = FNaN"
| "f64_add _ FNaN = FNaN"
| "f64_add (FInf s) (FInf t) = (if s = t then FInf s else FNaN)"
| "f64_add (FInf s) _ = FInf s"
| "f64_add _ (FInf t) = FInf t"
| "f64_add (FFin s m e) (FFin t n d) =
     (let v = f64_scaled (FFin s m e) + f64_scaled (FFin t n d)
      in if v = 0 then f64_zero (s \<and> t) else round_signed v (2 ^ 1074))"

definition f64_sub :: "float64 \<Rightarrow> float64 \<Rightarrow> float64" where
  "f64_sub a b = f64_add a (f64_neg b)"

text \<open>The value \<open>m * 2^e\<close> as a quotient of integers.\<close>

definition f64_ratio :: "int \<Rightarrow> int \<Rightarrow> int \<times> int" where
  "f64_ratio m e = (if 0 \<le> e then (m * 2 ^ nat e, 1) else (m, 2 ^ nat (- e)))"

fun f64_mul :: "float64 \<Rightarrow> float64 \<Rightarrow> float64" where
  "f64_mul FNaN _ = FNaN"
| "f64_mul _ FNaN = FNaN"
| "f64_mul (FInf s) (FInf t) = FInf (s \<noteq> t)"
| "f64_mul (FInf s) (FFin t n d) = (if n = 0 then FNaN else FInf (s \<noteq> t))"
| "f64_mul (FFin s m e) (FInf t) = (if m = 0 then FNaN else FInf (s \<noteq> t))"
| "f64_mul (FFin s m e) (FFin t n d) =
     (let (p, q) = f64_ratio (m * n) (e + d) in round_rat (s \<noteq> t) p q)"

fun f64_div :: "float64 \<Rightarrow> float64 \<Rightarrow> float64" where
  "f64_div FNaN _ = FNaN"
| "f64_div _ FNaN = FNaN"
| "f64_div (FInf s) (FInf t) = FNaN"
| "f64_div (FInf s) (FFin t n d) = FInf (s \<noteq> t)"
| "f64_div (FFin s m e) (FInf t) = f64_zero (s \<noteq> t)"
| "f64_div (FFin s m e) (FFin t n d) =
     (if n = 0 then (if m = 0 then FNaN else FInf (s \<noteq> t))
      else let (p, q) = f64_ratio m (e - d) in round_rat (s \<noteq> t) p (q * n))"

text \<open>\<open>math.Mod\<close>: the exact remainder, with the sign of the dividend.\<close>

fun f64_mod :: "float64 \<Rightarrow> float64 \<Rightarrow> float64" where
  "f64_mod FNaN _ = FNaN"
| "f64_mod _ FNaN = FNaN"
| "f64_mod (FInf s) _ = FNaN"
| "f64_mod (FFin s m e) (FInf t) = FFin s m e"
| "f64_mod (FFin s m e) (FFin t n d) =
     (if n = 0 then FNaN
      else round_rat s
             (\<bar>f64_scaled (FFin s m e)\<bar> mod \<bar>f64_scaled (FFin t n d)\<bar>) (2 ^ 1074))"

section \<open>Decimal text\<close>

text \<open>
  \<open>strconv.ParseFloat\<close> on a literal of the lexer, digits with one point in them.
  The value is rounded once; overflow to infinity is a range error.
\<close>

definition f64_parse :: "string \<Rightarrow> float64 option" where
  "f64_parse cs =
     (let ip = takeWhile (\<lambda>c. c \<noteq> CHR ''.'') cs;
          fp = drop (Suc (length ip)) cs;
          r = round_rat False (undec (ip @ fp)) (10 ^ length fp)
      in case r of FInf _ \<Rightarrow> None | _ \<Rightarrow> Some r)"

text \<open>The decimal \<open>c * 10^k\<close> rounded to the nearest \<open>float64\<close>.\<close>

definition f64_of_dec :: "bool \<Rightarrow> int \<Rightarrow> int \<Rightarrow> float64" where
  "f64_of_dec s c k =
     (if 0 \<le> k then round_rat s (c * 10 ^ nat k) 1 else round_rat s c (10 ^ nat (- k)))"

text \<open>
  Shortest decimal: \<open>dec_point p q\<close> is the \<open>k\<close> with \<open>10^(k-1) \<le> p/q < 10^k\<close>.
  With \<open>n\<close> digits the candidates are the two neighbours of \<open>p/q\<close> on the grid
  \<open>10^(k-n)\<close>, the nearer one first; the first \<open>n\<close> for which a candidate reads back
  as the same \<open>float64\<close> is taken, and 17 digits always do.
\<close>

function lead_zeros :: "int \<Rightarrow> int \<Rightarrow> int" where
  "lead_zeros p q = (if p \<le> 0 \<or> q \<le> 10 * p then 0 else 1 + lead_zeros (10 * p) q)"
  by pat_completeness auto
termination
  by (relation "measure (\<lambda>(p, q). nat (q - p))") auto

declare lead_zeros.simps [simp del]

definition dec_point :: "int \<Rightarrow> int \<Rightarrow> int" where
  "dec_point p q = (if q \<le> p then int (length (dec_digits (p div q))) else - lead_zeros p q)"

definition scale10 :: "int \<Rightarrow> int \<Rightarrow> int \<Rightarrow> int \<times> int" where
  "scale10 p q k = (if 0 \<le> k then (p * 10 ^ nat k, q) else (p, q * 10 ^ nat (- k)))"

definition dec_candidates :: "int \<Rightarrow> int \<Rightarrow> int \<Rightarrow> nat \<Rightarrow> int list" where
  "dec_candidates p q k n =
     (let (a, b) = scale10 p q (int n - k); c = rne a b; l = a div b
      in [c, (if c = l then l + 1 else l)])"

definition shortest_with :: "float64 \<Rightarrow> int \<Rightarrow> int \<Rightarrow> int \<Rightarrow> nat \<Rightarrow> (int \<times> int) option" where
  "shortest_with f p q k n =
     (case find (\<lambda>c. f64_of_dec False c (k - int n) = f) (dec_candidates p q k n) of
        Some c \<Rightarrow> Some (c, k - int n)
      | None \<Rightarrow> None)"

fun first_some :: "('a \<Rightarrow> 'b option) \<Rightarrow> 'a list \<Rightarrow> 'b option" where
  "first_some f [] = None"
| "first_some f (x # xs) = (case f x of Some y \<Rightarrow> Some y | None \<Rightarrow> first_some f xs)"

definition strip_zeros :: "string \<Rightarrow> string" where
  "strip_zeros cs = rev (dropWhile (\<lambda>c. c = CHR ''0'') (rev cs))"

text \<open>Digits and the position of the decimal point, as in \<open>decimalSlice\<close>.\<close>

definition shortest_digits :: "int \<Rightarrow> int \<Rightarrow> string \<times> int" where
  "shortest_digits m e =
     (let (p, q) = f64_ratio m e; k = dec_point p q
      in case first_some (shortest_with (FFin False m e) p q k) [1..<18] of
           Some (c, x) \<Rightarrow> (let ds = dec_digits c in (strip_zeros ds, x + int (length ds)))
         | None \<Rightarrow> ([], 0))"

definition format_exp :: "int \<Rightarrow> string" where
  "format_exp x =
     (let a = dec_digits \<bar>x\<bar>
      in (if x < 0 then ''-'' else ''+'') @ (if length a < 2 then CHR ''0'' # a else a))"

definition format_digits_e :: "string \<Rightarrow> int \<Rightarrow> string" where
  "format_digits_e ds dp =
     take 1 ds @ (if length ds > 1 then CHR ''.'' # drop 1 ds else [])
       @ ''e'' @ format_exp (dp - 1)"

definition format_digits_f :: "string \<Rightarrow> int \<Rightarrow> string" where
  "format_digits_f ds dp =
     (let n = int (length ds);
          ip = (if dp > 0 then take (nat dp) ds @ replicate (nat (dp - n)) (CHR ''0'') else ''0'');
          fp = (if n > dp then replicate (nat (- dp)) (CHR ''0'') @ drop (nat dp) ds else [])
      in ip @ (if fp = [] then [] else CHR ''.'' # fp))"

text \<open>\<open>strconv.FormatFloat(f, 'g', -1, 64)\<close>.\<close>

definition format_float :: "float64 \<Rightarrow> string" where
  "format_float f = (case f of
     FNaN \<Rightarrow> ''NaN''
   | FInf s \<Rightarrow> (if s then ''-Inf'' else ''+Inf'')
   | FFin s m e \<Rightarrow>
       (let (ds, dp) = (if m = 0 then ([], 0) else shortest_digits m e);
            x = dp - 1
        in (if s then ''-'' else [])
           @ (if x < - 4 \<or> x \<ge> 6 then format_digits_e ds dp else format_digits_f ds dp)))"

section \<open>Integers as floats: exact up to \<open>2^53\<close>, monotone everywhere\<close>

lemma ilog2_nonneg [simp]: "0 \<le> ilog2 n"
proof (induction n rule: ilog2.induct)
  case (1 n)
  then show ?case by (subst ilog2.simps) auto
qed

lemma ilog2_bounds:
  "1 \<le> n \<Longrightarrow> 2 ^ nat (ilog2 n) \<le> n \<and> n < 2 * 2 ^ nat (ilog2 n)"
proof (induction n rule: ilog2.induct)
  case (1 n)
  show ?case
  proof (cases "n < 2")
    case True
    with "1.prems" show ?thesis by (simp add: ilog2.simps [of n])
  next
    case False
    then have IH: "2 ^ nat (ilog2 (n div 2)) \<le> n div 2" "n div 2 < 2 * 2 ^ nat (ilog2 (n div 2))"
      using "1.IH" by auto
    have "nat (ilog2 n) = Suc (nat (ilog2 (n div 2)))"
      using False by (simp add: ilog2.simps [of n] nat_add_distrib)
    with IH show ?thesis by (intro conjI; simp; linarith)
  qed
qed

lemma ilog2_one [simp]: "ilog2 1 = 0"
  by (simp add: ilog2.simps)

lemma ilog2_mono: "1 \<le> m \<Longrightarrow> m \<le> n \<Longrightarrow> ilog2 m \<le> ilog2 n"
proof (rule ccontr)
  assume m: "1 \<le> m" "m \<le> n" and "\<not> ilog2 m \<le> ilog2 n"
  then have "nat (ilog2 n) < nat (ilog2 m)"
    by (simp only: nat_less_eq_zless [OF ilog2_nonneg] not_le)
  then have "(2::int) ^ Suc (nat (ilog2 n)) \<le> 2 ^ nat (ilog2 m)"
    by (intro power_increasing) auto
  moreover have "n < 2 ^ Suc (nat (ilog2 n))" "2 ^ nat (ilog2 m) \<le> m"
    using m ilog2_bounds [of n] ilog2_bounds [of m] by auto
  ultimately show False using m by linarith
qed

lemma rne_one [simp]: "rne n 1 = n"
  by (simp add: rne_def)

lemma rne_exact: "0 < d \<Longrightarrow> rne (c * d) d = c"
  by (simp add: rne_def)

lemma rne_mono:
  assumes "0 < d" "n \<le> n'"
  shows "rne n d \<le> rne n' d"
proof (cases "n div d = n' div d")
  case True
  then have "n mod d \<le> n' mod d"
    using assms by (simp add: minus_div_mult_eq_mod [symmetric])
  with True show ?thesis by (auto simp: rne_def Let_def)
next
  case False
  with assms have "n div d < n' div d"
    by (simp add: zdiv_mono1 order_less_le)
  then show ?thesis by (auto simp: rne_def Let_def)
qed

text \<open>The integer a positive integer is rounded to.\<close>

definition round_int :: "int \<Rightarrow> int" where
  "round_int p = (let x = ilog2 p - 52 in if x \<le> 0 then p else rne p (2 ^ nat x) * 2 ^ nat x)"

lemma round_int_bounds:
  assumes "1 \<le> p"
  shows "2 ^ nat (ilog2 p) \<le> round_int p \<and> round_int p \<le> 2 * 2 ^ nat (ilog2 p)"
proof (cases "ilog2 p - 52 \<le> 0")
  case True
  with ilog2_bounds [OF assms] show ?thesis by (simp add: round_int_def)
next
  case False
  define x where "x = nat (ilog2 p - 52)"
  have "nat (ilog2 p) = 52 + x" using False by (simp add: x_def)
  then have pw: "(2::int) ^ nat (ilog2 p) = 2 ^ 52 * 2 ^ x" by (simp only: power_add)
  have "rne (2 ^ 52 * 2 ^ x) (2 ^ x) \<le> rne p (2 ^ x)" "rne p (2 ^ x) \<le> rne (2 ^ 53 * 2 ^ x) (2 ^ x)"
    using ilog2_bounds [OF assms] pw by (intro rne_mono; simp)+
  then have "2 ^ 52 \<le> rne p (2 ^ x)" "rne p (2 ^ x) \<le> 2 ^ 53"
    by (simp_all only: rne_exact zero_less_power zero_less_numeral)
  then have "2 ^ 52 * 2 ^ x \<le> rne p (2 ^ x) * 2 ^ x" "rne p (2 ^ x) * 2 ^ x \<le> 2 ^ 53 * 2 ^ x"
    by (simp_all only: mult_right_mono zero_le_power zero_le_numeral)
  with False pw show ?thesis by (simp add: round_int_def x_def Let_def)
qed

lemma round_int_pos: "1 \<le> p \<Longrightarrow> 0 < round_int p"
  using round_int_bounds [of p] by (smt (verit) zero_less_power)

lemma round_int_mono:
  assumes "1 \<le> p" "p \<le> p'"
  shows "round_int p \<le> round_int p'"
proof (cases "ilog2 p = ilog2 p'")
  case True
  show ?thesis
  proof (cases "ilog2 p - 52 \<le> 0")
    case True
    with assms \<open>ilog2 p = ilog2 p'\<close> show ?thesis by (simp add: round_int_def)
  next
    case False
    with assms True show ?thesis
      by (simp add: round_int_def Let_def rne_mono mult_right_mono)
  qed
next
  case False
  with ilog2_mono [OF assms] have "nat (ilog2 p) < nat (ilog2 p')"
    by (simp only: nat_less_eq_zless [OF ilog2_nonneg])
  then have "(2::int) ^ Suc (nat (ilog2 p)) \<le> 2 ^ nat (ilog2 p')"
    by (intro power_increasing) auto
  with round_int_bounds [of p] round_int_bounds [of p'] assms show ?thesis by auto
qed

lemma round_int_exact:
  assumes "1 \<le> p" "p \<le> 2 ^ 53"
  shows "round_int p = p"
proof (cases "p = 2 ^ 53")
  case True
  have "ilog2 (2 ^ 53) = 53" by code_simp
  with True show ?thesis by (simp add: round_int_def rne_def)
next
  case False
  have "ilog2 p \<le> 52"
  proof (rule ccontr)
    assume "\<not> ilog2 p \<le> 52"
    then have "(2::int) ^ 53 \<le> 2 ^ nat (ilog2 p)" by (intro power_increasing) auto
    with ilog2_bounds [OF assms(1)] assms(2) False show False by linarith
  qed
  then show ?thesis by (simp add: round_int_def)
qed

text \<open>The conversion of an integer is finite and its value is the rounded integer.\<close>

lemma round_rat_int:
  assumes "1 \<le> p" "p < 2 ^ 1000"
  shows "\<exists>m e. round_rat s p 1 = FFin s m e \<and> m * 2 ^ nat (e + 1074) = round_int p * 2 ^ 1074"
proof -
  define a where "a = ilog2 p"
  have a0: "0 \<le> a" by (simp add: a_def)
  have b: "2 ^ nat a \<le> p" "p < 2 * 2 ^ nat a" using ilog2_bounds [OF assms(1)] by (auto simp: a_def)
  have a1: "a < 1000"
  proof (rule ccontr)
    assume "\<not> a < 1000"
    then have "(2::int) ^ 1000 \<le> 2 ^ nat a" by (intro power_increasing) auto
    with b assms(2) show False by linarith
  qed
  have ex: "round_exp p 1 = a - 52"
    using b a0 by (simp add: round_exp_def scale_exp_def a_def [symmetric])
  show ?thesis
  proof (cases "a \<le> 52")
    case True
    define k where "k = nat (52 - a)"
    have k: "a - 52 = - int k" using True by (simp add: k_def)
    have "nat a + k = 52" using True a0 by (simp add: k_def)
    then have pw: "(2::int) ^ nat a * 2 ^ k = 2 ^ 52" by (simp only: power_add [symmetric])
    have lt: "p * 2 ^ k < 2 ^ 53"
      using mult_strict_right_mono [OF b(2), of "2 ^ k"] pw by (simp add: mult.assoc)
    have k52: "k \<le> 52" using a0 by (simp add: k_def)
    have "round_rat s p 1 = FFin s (p * 2 ^ k) (- int k)"
      using assms(1) lt k52
      by (cases "k = 0") (simp_all add: round_rat_def ex k scale_exp_def rne_def pack_def Let_def)
    moreover have "p * 2 ^ k * 2 ^ nat (- int k + 1074) = p * 2 ^ 1074"
      using k52 by (simp add: power_add [symmetric] nat_diff_distrib)
    moreover have "round_int p = p" using True by (simp add: round_int_def a_def)
    ultimately show ?thesis by auto
  next
    case False
    define x where "x = nat (a - 52)"
    have x: "a - 52 = int x" "0 < x" using False by (auto simp: x_def)
    have ri: "round_int p = rne p (2 ^ x) * 2 ^ x"
      using False by (simp add: round_int_def a_def [symmetric] x_def Let_def)
    have rr: "round_rat s p 1 = pack s (rne p (2 ^ x)) (int x)"
      using assms(1) by (simp add: round_rat_def ex x scale_exp_def)
    have x1: "x < 948" using a1 x by linarith
    show ?thesis
    proof (cases "rne p (2 ^ x) = 2 ^ 53")
      case True
      then have "round_rat s p 1 = FFin s (2 ^ 52) (int x + 1)"
        using x1 by (simp add: rr pack_def)
      moreover have "(2::int) ^ 52 * 2 ^ nat (int x + 1 + 1074) = 2 ^ 53 * 2 ^ x * 2 ^ 1074"
        by (simp add: nat_add_distrib power_add)
      ultimately show ?thesis using True ri by auto
    next
      case False
      then have "round_rat s p 1 = FFin s (rne p (2 ^ x)) (int x)"
        using x1 by (simp add: rr pack_def)
      moreover have "(2::int) ^ nat (int x + 1074) = 2 ^ x * 2 ^ 1074"
        by (simp add: nat_add_distrib power_add)
      ultimately show ?thesis using ri by auto
    qed
  qed
qed

text \<open>The value of \<open>float64(i)\<close>, and the order it induces on integers.\<close>

definition int_round :: "int \<Rightarrow> int" where
  "int_round i = (if i = 0 then 0 else sgn i * round_int \<bar>i\<bar>)"

lemma f64_of_int_scaled:
  assumes "\<bar>i\<bar> < 2 ^ 1000"
  shows "\<exists>s m e. f64_of_int i = FFin s m e" and "f64_scaled (f64_of_int i) = int_round i * 2 ^ 1074"
proof -
  have "(\<exists>s m e. f64_of_int i = FFin s m e) \<and> f64_scaled (f64_of_int i) = int_round i * 2 ^ 1074"
  proof (cases "i = 0")
    case True
    then have "f64_of_int i = FFin False 0 (- 1074)"
      by (simp add: f64_of_int_def round_rat_def f64_zero_def)
    with True show ?thesis by (auto simp: int_round_def)
  next
    case False
    then have "1 \<le> \<bar>i\<bar>" by linarith
    then obtain m e where "f64_of_int i = FFin (i < 0) m e"
        "m * 2 ^ nat (e + 1074) = round_int \<bar>i\<bar> * 2 ^ 1074"
      unfolding f64_of_int_def using round_rat_int [OF _ assms] by blast
    with False show ?thesis by (auto simp: int_round_def sgn_if)
  qed
  then show "\<exists>s m e. f64_of_int i = FFin s m e"
    and "f64_scaled (f64_of_int i) = int_round i * 2 ^ 1074" by auto
qed

lemma f64_lt_of_int:
  assumes "\<bar>i\<bar> < 2 ^ 1000" "\<bar>j\<bar> < 2 ^ 1000"
  shows "f64_lt (f64_of_int i) (f64_of_int j) \<longleftrightarrow> int_round i < int_round j"
proof -
  obtain s m e t n d where "f64_of_int i = FFin s m e" "f64_of_int j = FFin t n d"
    using f64_of_int_scaled(1) assms by metis
  then have "f64_lt (f64_of_int i) (f64_of_int j)
      \<longleftrightarrow> f64_scaled (f64_of_int i) < f64_scaled (f64_of_int j)"
    by simp
  then show ?thesis 
    by (simp add: f64_of_int_scaled(2) [OF assms(1)] f64_of_int_scaled(2) [OF assms(2)])
qed

lemma f64_eq_of_int:
  assumes "\<bar>i\<bar> < 2 ^ 1000" "\<bar>j\<bar> < 2 ^ 1000"
  shows "f64_eq (f64_of_int i) (f64_of_int j) \<longleftrightarrow> int_round i = int_round j"
proof -
  obtain s m e t n d where "f64_of_int i = FFin s m e" "f64_of_int j = FFin t n d"
    using f64_of_int_scaled(1) assms by metis
  then have "f64_eq (f64_of_int i) (f64_of_int j)
      \<longleftrightarrow> f64_scaled (f64_of_int i) = f64_scaled (f64_of_int j)"
    by simp
  then show ?thesis 
    by (simp add: f64_of_int_scaled(2) [OF assms(1)] f64_of_int_scaled(2) [OF assms(2)])
qed

lemma int_round_exact: "\<bar>i\<bar> \<le> 2 ^ 53 \<Longrightarrow> int_round i = i"
  by (auto simp: int_round_def round_int_exact sgn_if)

lemma int_round_mono: "i \<le> j \<Longrightarrow> int_round i \<le> int_round j"
  using round_int_mono [of "\<bar>i\<bar>" "\<bar>j\<bar>"] round_int_mono [of "\<bar>j\<bar>" "\<bar>i\<bar>"]
    round_int_pos [of "\<bar>i\<bar>"] round_int_pos [of "\<bar>j\<bar>"]
  by (auto simp: int_round_def sgn_if)

lemma is_int64_small: "is_int64 i \<Longrightarrow> \<bar>i\<bar> < 2 ^ 1000"
proof -
  assume "is_int64 i"
  then have "\<bar>i\<bar> \<le> 2 ^ 63" by (auto simp: is_int64_def min_int64_def max_int64_def)
  also have "(2::int) ^ 63 < 2 ^ 1000" by (rule power_strict_increasing) auto
  finally show ?thesis .
qed

section \<open>The comparison is a total preorder off NaN\<close>

text \<open>The extended order value: infinities beyond every finite multiplier.\<close>

lemma f64_lt_irrefl [simp]: "\<not> f64_lt a a"
  by (cases a) auto

lemma f64_lt_trans: "f64_lt a b \<Longrightarrow> f64_lt b c \<Longrightarrow> f64_lt a c"
  by (cases a; cases b; cases c) (auto split: if_splits)

lemma f64_lt_asym: "f64_lt a b \<Longrightarrow> \<not> f64_lt b a"
  using f64_lt_trans f64_lt_irrefl by blast

lemma f64_trichotomy:
  "\<not> f64_is_nan a \<Longrightarrow> \<not> f64_is_nan b \<Longrightarrow> f64_lt a b \<or> f64_eq a b \<or> f64_lt b a"
  by (cases a; cases b) auto

lemma f64_eq_not_lt: "f64_eq a b \<Longrightarrow> \<not> f64_lt a b \<and> \<not> f64_lt b a"
  by (cases a; cases b) auto

text \<open>Incomparable values are interchangeable: the order is a strict weak order.\<close>

lemma f64_incomparable_trans:
  "\<lbrakk> \<not> f64_is_nan a; \<not> f64_is_nan b; \<not> f64_is_nan c; \<not> f64_lt a b; \<not> f64_lt b c \<rbrakk> \<Longrightarrow> \<not> f64_lt a c"
  by (cases a; cases b; cases c) auto

end
