(* ===== verification/Gotime.thy ===== *)
theory Gotime
  imports Prelude
begin

text \<open>
  The part of Go's \<open>time\<close> package the program uses: UTC instants, the two output
  formats (\<open>2006-01-02 15:04:05\<close> and RFC 3339 with trimmed nanoseconds) and
  \<open>time.ParseInLocation\<close> for the three input layouts of \<open>coerce\<close>.
  An instant is its number of nanoseconds since 1970-01-01T00:00:00Z.
\<close>

type_synonym gotime = int

section \<open>Civil dates of the proleptic Gregorian calendar\<close>

definition civil_from_days :: "int \<Rightarrow> int \<times> int \<times> int" where
  "civil_from_days days =
     (let z = days + 719468;
          era = z div 146097;
          doe = z mod 146097;
          yoe = (doe - doe div 1460 + doe div 36524 - doe div 146096) div 365;
          doy = doe - (365 * yoe + yoe div 4 - yoe div 100);
          mp = (5 * doy + 2) div 153;
          d = doy - (153 * mp + 2) div 5 + 1;
          m = (if mp < 10 then mp + 3 else mp - 9)
      in (yoe + era * 400 + (if m \<le> 2 then 1 else 0), m, d))"

definition days_from_civil :: "int \<Rightarrow> int \<Rightarrow> int \<Rightarrow> int" where
  "days_from_civil y m d =
     (let y' = (if m \<le> 2 then y - 1 else y);
          era = y' div 400;
          yoe = y' mod 400;
          doy = (153 * (if m > 2 then m - 3 else m + 9) + 2) div 5 + d - 1;
          doe = yoe * 365 + yoe div 4 - yoe div 100 + doy
      in era * 146097 + doe - 719468)"

definition is_leap :: "int \<Rightarrow> bool" where
  "is_leap y \<longleftrightarrow> y mod 4 = 0 \<and> (y mod 100 \<noteq> 0 \<or> y mod 400 = 0)"

definition days_in :: "int \<Rightarrow> int \<Rightarrow> int" where
  "days_in m y = (if m = 2 then (if is_leap y then 29 else 28)
                  else if m = 4 \<or> m = 6 \<or> m = 9 \<or> m = 11 then 30 else 31)"

section \<open>Formatting\<close>

definition pad_left :: "nat \<Rightarrow> string \<Rightarrow> string" where
  "pad_left n cs = replicate (n - length cs) (CHR ''0'') @ cs"

definition format_width :: "nat \<Rightarrow> int \<Rightarrow> string" where
  "format_width n i = (if i < 0 then CHR ''-'' # pad_left n (dec_digits (- i)) else pad_left n (dec_digits i))"

definition secs_of :: "gotime \<Rightarrow> int" where
  "secs_of t = t div 1000000000"

definition nanos_of :: "gotime \<Rightarrow> int" where
  "nanos_of t = t mod 1000000000"

definition format_date :: "gotime \<Rightarrow> string" where
  "format_date t =
     (let (y, m, d) = civil_from_days (secs_of t div 86400)
      in format_width 4 y @ ''-'' @ format_width 2 m @ ''-'' @ format_width 2 d)"

definition format_clock :: "gotime \<Rightarrow> string" where
  "format_clock t =
     (let s = secs_of t mod 86400
      in format_width 2 (s div 3600) @ '':'' @ format_width 2 (s div 60 mod 60) @ '':''
           @ format_width 2 (s mod 60))"

text \<open>\<open>t.UTC().Format("2006-01-02 15:04:05")\<close>\<close>

definition format_datetime :: "gotime \<Rightarrow> string" where
  "format_datetime t = format_date t @ '' '' @ format_clock t"

text \<open>\<open>t.UTC().Format(time.RFC3339Nano)\<close>: trailing zeros of the fraction are dropped.\<close>

definition format_rfc3339nano :: "gotime \<Rightarrow> string" where
  "format_rfc3339nano t =
     (let n = nanos_of t;
          frac = rev (dropWhile (\<lambda>c. c = CHR ''0'') (rev (pad_left 9 (dec_digits n))))
      in format_date t @ ''T'' @ format_clock t
           @ (if n = 0 then [] else ''.'' @ frac) @ ''Z'')"

section \<open>Parsing\<close>

text \<open>
  \<open>getnum(s, fixed)\<close> of the package: two digits, or one when \<open>fixed\<close> is false and
  no second digit follows.
\<close>

definition getnum :: "string \<Rightarrow> bool \<Rightarrow> (int \<times> string) option" where
  "getnum s fixed = (case s of
     c # d # cs \<Rightarrow>
       if \<not> is_digit c then None
       else if is_digit d then Some (10 * digit_val c + digit_val d, cs)
       else if fixed then None else Some (digit_val c, d # cs)
   | [c] \<Rightarrow> if \<not> is_digit c \<or> fixed then None else Some (digit_val c, [])
   | [] \<Rightarrow> None)"

definition parse_year :: "string \<Rightarrow> (int \<times> string) option" where
  "parse_year s =
     (if length s < 4 \<or> \<not> list_all is_digit (take 4 s) then None
      else Some (undec (take 4 s), drop 4 s))"

definition skip_char :: "char \<Rightarrow> string \<Rightarrow> string option" where
  "skip_char c s = (case s of [] \<Rightarrow> None | d # ds \<Rightarrow> if d = c then Some ds else None)"

text \<open>A space of the layout matches any run of spaces, and the end of the text.\<close>

definition skip_space :: "string \<Rightarrow> string option" where
  "skip_space s = (case s of
     [] \<Rightarrow> Some []
   | d # ds \<Rightarrow> if d = CHR '' '' then Some (dropWhile (\<lambda>c. c = CHR '' '') ds) else None)"

definition parse_ymd :: "string \<Rightarrow> (int \<times> int \<times> int \<times> string) option" where
  "parse_ymd s =
     Option.bind (parse_year s) (\<lambda>(y, s).
     Option.bind (skip_char (CHR ''-'') s) (\<lambda>s.
     Option.bind (getnum s True) (\<lambda>(m, s).
     if m \<le> 0 \<or> 12 < m then None else
     Option.bind (skip_char (CHR ''-'') s) (\<lambda>s.
     Option.bind (getnum s True) (\<lambda>(d, s). Some (y, m, d, s))))))"

text \<open>After the seconds a fraction is accepted although the layout has none.\<close>

definition parse_fraction :: "string \<Rightarrow> int \<times> string" where
  "parse_fraction s = (case s of
     p # c # cs \<Rightarrow>
       if (p = CHR ''.'' \<or> p = CHR '','') \<and> is_digit c then
         (let ds = takeWhile is_digit (c # cs); nine = take 9 ds
          in (undec (nine @ replicate (9 - length nine) (CHR ''0'')), drop (length ds) (c # cs)))
       else (0, s)
   | _ \<Rightarrow> (0, s))"

definition parse_hms :: "string \<Rightarrow> (int \<times> string) option" where
  "parse_hms s =
     Option.bind (getnum s False) (\<lambda>(h, s).
     if 24 \<le> h then None else
     Option.bind (skip_char (CHR '':'') s) (\<lambda>s.
     Option.bind (getnum s True) (\<lambda>(mi, s).
     if 60 \<le> mi then None else
     Option.bind (skip_char (CHR '':'') s) (\<lambda>s.
     Option.bind (getnum s True) (\<lambda>(sec, s).
     if 60 \<le> sec then None else
     let (ns, s) = parse_fraction s
     in Some ((h * 3600 + mi * 60 + sec) * 1000000000 + ns, s))))))"

datatype time_layout = LayoutSpace | LayoutT | LayoutDate

definition parse_in_utc :: "time_layout \<Rightarrow> string \<Rightarrow> gotime option" where
  "parse_in_utc lay s =
     Option.bind (parse_ymd s) (\<lambda>(y, m, d, s).
     Option.bind
       (case lay of
          LayoutDate \<Rightarrow> Some (0, s)
        | LayoutT \<Rightarrow> Option.bind (skip_char (CHR ''T'') s) parse_hms
        | LayoutSpace \<Rightarrow> Option.bind (skip_space s) parse_hms) (\<lambda>(ns, s).
     if s \<noteq> [] \<or> d < 1 \<or> days_in m y < d then None
     else Some (days_from_civil y m d * 86400 * 1000000000 + ns)))"

end
