(* ===== verification/Types.thy ===== *)
theory Types
  imports Float64 Gotime
begin

text \<open>
  \<open>internal/types/types.go\<close>: the SQL cell values, their comparison and the check of
  a value against a column type.

  The struct \<open>Value\<close> carries a \<open>Kind\<close> tag and one payload field per kind; all code
  builds it with the constructors, so it is the tagged union \<open>val\<close> here.
  \<open>ColumnType\<close> is a string in the code and stays one.
  The lemmas show that \<open>Compare\<close> is a total preorder on values without NaN, how it
  orders integers, and what \<open>Check\<close> accepts and stores.
\<close>

section \<open>Kinds and values\<close>

datatype kind = KindNull | KindInt | KindFloat | KindText | KindBool | KindTime

fun kind_ord :: "kind \<Rightarrow> nat" where
  "kind_ord KindNull = 0"
| "kind_ord KindInt = 1"
| "kind_ord KindFloat = 2"
| "kind_ord KindText = 3"
| "kind_ord KindBool = 4"
| "kind_ord KindTime = 5"

fun kind_string :: "kind \<Rightarrow> string" where
  "kind_string KindNull = ''null''"
| "kind_string KindInt = ''int''"
| "kind_string KindFloat = ''float''"
| "kind_string KindText = ''text''"
| "kind_string KindBool = ''bool''"
| "kind_string KindTime = ''timestamp''"

datatype val =
    VNull
  | VInt int64
  | VFloat float64
  | VText string
  | VBool bool
  | VTime gotime

fun kind_of :: "val \<Rightarrow> kind" where
  "kind_of VNull = KindNull"
| "kind_of (VInt i) = KindInt"
| "kind_of (VFloat f) = KindFloat"
| "kind_of (VText s) = KindText"
| "kind_of (VBool b) = KindBool"
| "kind_of (VTime t) = KindTime"

definition IsNull :: "val \<Rightarrow> bool" where
  "IsNull v \<longleftrightarrow> kind_of v = KindNull"

fun val_string :: "val \<Rightarrow> string" where
  "val_string VNull = ''NULL''"
| "val_string (VInt i) = format_int i"
| "val_string (VFloat f) = format_float f"
| "val_string (VText s) = s"
| "val_string (VBool b) = (if b then ''true'' else ''false'')"
| "val_string (VTime t) = format_datetime t"

type_synonym row = "val list"

section \<open>Column types\<close>

type_synonym column_type = string

definition TypeInt :: column_type where "TypeInt = ''int''"
definition TypeBigint :: column_type where "TypeBigint = ''bigint''"
definition TypeFloat :: column_type where "TypeFloat = ''float''"
definition TypeText :: column_type where "TypeText = ''text''"
definition TypeBool :: column_type where "TypeBool = ''bool''"
definition TypeTimestamp :: column_type where "TypeTimestamp = ''timestamp''"

lemmas column_type_defs [go_defs] =
  TypeInt_def TypeBigint_def TypeFloat_def TypeText_def TypeBool_def TypeTimestamp_def

definition ValidTypes :: "column_type \<Rightarrow> bool" where
  "ValidTypes ct \<longleftrightarrow> ct \<in> set [TypeInt, TypeBigint, TypeFloat, TypeText, TypeBool, TypeTimestamp]"

section \<open>Compare\<close>

text \<open>The number an \<open>int\<close> or \<open>float\<close> value is compared as.\<close>

fun num_of :: "val \<Rightarrow> float64 option" where
  "num_of (VInt i) = Some (f64_of_int i)"
| "num_of (VFloat f) = Some f"
| "num_of _ = None"

definition cmp_by :: "('a \<Rightarrow> 'a \<Rightarrow> bool) \<Rightarrow> 'a \<Rightarrow> 'a \<Rightarrow> int" where
  "cmp_by lt a b = (if lt a b then - 1 else if lt b a then 1 else 0)"

text \<open>The last \<open>switch\<close> of \<open>Compare\<close>: two values of the same kind.\<close>

fun compare_same :: "val \<Rightarrow> val \<Rightarrow> int" where
  "compare_same (VInt i) (VInt j) = cmp_by (<) i j"
| "compare_same (VText s) (VText t) = cmp_by (<) s t"
| "compare_same (VBool a) (VBool b) = (if a = b then 0 else if \<not> a then - 1 else 1)"
| "compare_same (VTime s) (VTime t) = cmp_by (<) s t"
| "compare_same _ _ = 0"

definition Compare :: "val \<Rightarrow> val \<Rightarrow> int" where
  "Compare v w =
     (if IsNull v \<and> IsNull w then 0
      else if IsNull v then - 1
      else if IsNull w then 1
      else case (num_of v, num_of w) of
        (Some a, Some b) \<Rightarrow> cmp_by f64_lt a b
      | _ \<Rightarrow>
          if kind_of v \<noteq> kind_of w then
            (if kind_ord (kind_of v) < kind_ord (kind_of w) then - 1 else 1)
          else compare_same v w)"

section \<open>Check\<close>

datatype check_error = CannotStore kind column_type

definition Check :: "column_type \<Rightarrow> val \<Rightarrow> (check_error, val) res" where
  "Check ct v =
     (if kind_of v = KindNull then Ok VNull
      else
        let err = Err (CannotStore (kind_of v) ct)
        in if ct = TypeInt \<or> ct = TypeBigint then
             (case v of
                VInt i \<Rightarrow> Ok v
              | VFloat f \<Rightarrow>
                  if f64_eq f (f64_of_int (f64_to_int64 f)) then Ok (VInt (f64_to_int64 f)) else err
              | _ \<Rightarrow> err)
           else if ct = TypeFloat then
             (case v of
                VFloat f \<Rightarrow> Ok v
              | VInt i \<Rightarrow> Ok (VFloat (f64_of_int i))
              | _ \<Rightarrow> err)
           else if ct = TypeText then
             (case v of VText s \<Rightarrow> Ok v | _ \<Rightarrow> err)
           else if ct = TypeBool then
             (case v of
                VBool b \<Rightarrow> Ok v
              | VInt i \<Rightarrow> Ok (VBool (i \<noteq> 0))
              | _ \<Rightarrow> err)
           else if ct = TypeTimestamp then
             (case v of VTime t \<Rightarrow> Ok v | _ \<Rightarrow> err)
           else err)"

section \<open>Properties of Compare\<close>

fun nan_free :: "val \<Rightarrow> bool" where
  "nan_free (VFloat f) = (\<not> f64_is_nan f)"
| "nan_free _ = True"

lemma f64_of_int_not_nan [simp]: "\<not> f64_is_nan (f64_of_int i)"
  by (auto simp: f64_of_int_def round_rat_def f64_zero_def pack_def Let_def split: prod.splits)

lemma num_of_not_nan: "nan_free v \<Longrightarrow> num_of v = Some a \<Longrightarrow> \<not> f64_is_nan a"
  by (cases v) auto

lemma IsNull_simps [simp]:
  "IsNull VNull" "\<not> IsNull (VInt i)" "\<not> IsNull (VFloat f)" "\<not> IsNull (VText s)"
  "\<not> IsNull (VBool b)" "\<not> IsNull (VTime t)"
  by (simp_all add: IsNull_def)

lemma IsNull_iff: "IsNull v \<longleftrightarrow> v = VNull"
  by (cases v) simp_all

text \<open>\<open>cmp_by\<close> of a strict weak order.\<close>

lemma cmp_by_refl [simp]: "\<not> lt a a \<Longrightarrow> cmp_by lt a a = 0"
  by (simp add: cmp_by_def)

lemma cmp_by_neg: "(lt a b \<Longrightarrow> \<not> lt b a) \<Longrightarrow> cmp_by lt a b = - cmp_by lt b a"
  by (auto simp: cmp_by_def)

lemma cmp_by_range: "cmp_by lt a b \<in> {- 1, 0, 1}"
  by (auto simp: cmp_by_def)

lemma cmp_by_le_iff: "cmp_by lt a b \<le> 0 \<longleftrightarrow> lt a b \<or> \<not> lt b a"
  by (simp add: cmp_by_def)

lemma cmp_by_linorder [simp]:
  fixes a b :: "'a::linorder"
  shows "cmp_by (<) a b \<le> 0 \<longleftrightarrow> a \<le> b" "cmp_by (<) a b = 0 \<longleftrightarrow> a = b" "cmp_by (<) a b < 0 \<longleftrightarrow> a < b"
  by (auto simp: cmp_by_def)

lemma cmp_by_f64_trans:
  "\<lbrakk> \<not> f64_is_nan a; \<not> f64_is_nan b; \<not> f64_is_nan c; cmp_by f64_lt a b \<le> 0; cmp_by f64_lt b c \<le> 0 \<rbrakk>
    \<Longrightarrow> cmp_by f64_lt a c \<le> 0"
  unfolding cmp_by_le_iff using f64_lt_asym f64_incomparable_trans by blast

lemma Compare_refl [simp]: "Compare v v = 0"
  by (cases v) (simp_all add: Compare_def)

lemma Compare_neg: "Compare v w = - Compare w v"
  by (cases v; cases w) (auto simp: Compare_def cmp_by_def dest: f64_lt_asym)

text \<open>
  The block of a value in the order: NULL, then numbers, then the other kinds by tag.
  Values of different blocks are ordered by block, values of one block by
  \<open>Compare\<close> inside it.
\<close>

fun cmp_block :: "val \<Rightarrow> nat" where
  "cmp_block VNull = 0"
| "cmp_block (VInt i) = 1"
| "cmp_block (VFloat f) = 1"
| "cmp_block (VText s) = 3"
| "cmp_block (VBool b) = 4"
| "cmp_block (VTime t) = 5"

lemma Compare_block: "cmp_block v \<noteq> cmp_block w \<Longrightarrow> Compare v w \<le> 0 \<longleftrightarrow> cmp_block v < cmp_block w"
  by (cases v; cases w) (auto simp: Compare_def)

lemma Compare_trans_block:
  assumes "nan_free u" "nan_free v" "nan_free w"
    and "cmp_block u = cmp_block v" "cmp_block v = cmp_block w"
    and "Compare u v \<le> 0" "Compare v w \<le> 0"
  shows "Compare u w \<le> 0"
proof (cases "cmp_block v = 1")
  case True
  then obtain a b c where nums: "num_of u = Some a" "num_of v = Some b" "num_of w = Some c"
    using assms(4,5) by (cases u; cases v; cases w) auto
  moreover have "\<not> IsNull u" "\<not> IsNull v" "\<not> IsNull w"
    using nums by (auto simp: IsNull_iff)
  ultimately show ?thesis
    using assms cmp_by_f64_trans [of a b c] num_of_not_nan
    by (simp add: Compare_def)
next
  case False
  with assms show ?thesis
    by (cases u; cases v; cases w) (auto simp: Compare_def split: if_splits)
qed

lemma Compare_trans:
  assumes "nan_free u" "nan_free v" "nan_free w" "Compare u v \<le> 0" "Compare v w \<le> 0"
  shows "Compare u w \<le> 0"
proof (cases "cmp_block u = cmp_block v \<and> cmp_block v = cmp_block w")
  case True
  with assms Compare_trans_block show ?thesis by blast
next
  case False
  have "cmp_block u \<le> cmp_block v" "cmp_block v \<le> cmp_block w"
    using assms(4,5) Compare_block [of u v] Compare_block [of v w] by linarith+
  with False have "cmp_block u < cmp_block w" by auto
  with Compare_block [of u w] show ?thesis by auto
qed

text \<open>
  C31: on values without NaN, \<open>Compare\<close> is a total preorder: it is reflexive, swapping
  the arguments negates the result, and \<open>\<le>\<close> is transitive. This is what \<open>ORDER BY\<close>,
  \<open>MIN\<close> and \<open>MAX\<close> rely on.
\<close>

theorem compare_total_preorder:
  assumes "nan_free u" "nan_free v" "nan_free w"
  shows "Compare v v = 0 \<and> Compare v w = - Compare w v
    \<and> (Compare u v \<le> 0 \<and> Compare v w \<le> 0 \<longrightarrow> Compare u w \<le> 0)"
  using Compare_trans [OF assms] Compare_neg [of v w] by simp

theorem compare_total_preorder_witness:
  "Compare (VInt 1) (VText ''a'') \<le> 0 \<and> Compare (VInt 1) (VInt 2) = - Compare (VInt 2) (VInt 1)"
  using compare_total_preorder [of "VInt 1" "VInt 2" "VText ''a''"]
    compare_total_preorder [of VNull "VInt 1" "VInt 2"]
  by (simp add: Compare_def cmp_by_def)

lemma Compare_VInt: "Compare (VInt i) (VInt j) = cmp_by f64_lt (f64_of_int i) (f64_of_int j)"
  by (simp add: Compare_def)

lemma f64_lt_int64:
  "is_int64 i \<Longrightarrow> is_int64 j \<Longrightarrow> f64_lt (f64_of_int i) (f64_of_int j) \<longleftrightarrow> int_round i < int_round j"
  using f64_lt_of_int is_int64_small by blast

lemma Compare_int_exact:
  assumes "\<bar>i\<bar> \<le> 2 ^ 53" "\<bar>j\<bar> \<le> 2 ^ 53"
  shows "Compare (VInt i) (VInt j) = cmp_by (<) i j"
proof -
  have "is_int64 i" "is_int64 j"
    using assms by (auto simp: is_int64_def min_int64_def max_int64_def)
  then show ?thesis
    using assms by (simp add: Compare_VInt cmp_by_def f64_lt_int64 int_round_exact)
qed

text \<open>
  C32: integers are compared as \<open>float64\<close>. On the whole \<open>int64\<close> range the comparison
  never inverts two integers, and up to \<open>2^53\<close> in magnitude it is the exact integer
  comparison.
\<close>

theorem compare_int_order:
  assumes "is_int64 i" "is_int64 j"
  shows "(i \<le> j \<longrightarrow> Compare (VInt i) (VInt j) \<le> 0)
    \<and> (\<bar>i\<bar> \<le> 2 ^ 53 \<and> \<bar>j\<bar> \<le> 2 ^ 53 \<longrightarrow> Compare (VInt i) (VInt j) = cmp_by (<) i j)"
proof -
  have "i \<le> j \<longrightarrow> Compare (VInt i) (VInt j) \<le> 0"
    using assms int_round_mono [of i j] by (auto simp: Compare_VInt cmp_by_def f64_lt_int64)
  then show ?thesis using Compare_int_exact by blast
qed

theorem compare_int_order_witness:
  "Compare (VInt (- 3)) (VInt 9223372036854775807) \<le> 0 \<and> Compare (VInt 7) (VInt 5) = 1"
  using compare_int_order [of "- 3" 9223372036854775807] compare_int_order [of 7 5]
  by (simp add: is_int64_def min_int64_def max_int64_def cmp_by_def)


section \<open>Properties of Check\<close>

fun conforms :: "column_type \<Rightarrow> val \<Rightarrow> bool" where
  "conforms ct VNull = True"
| "conforms ct (VInt _) = (ct = TypeInt \<or> ct = TypeBigint)"
| "conforms ct (VFloat _) = (ct = TypeFloat)"
| "conforms ct (VText _) = (ct = TypeText)"
| "conforms ct (VBool _) = (ct = TypeBool)"
| "conforms ct (VTime _) = (ct = TypeTimestamp)"

lemma column_types_distinct [simp]:
  "TypeInt \<noteq> TypeFloat" "TypeInt \<noteq> TypeText" "TypeInt \<noteq> TypeBool" "TypeInt \<noteq> TypeTimestamp"
  "TypeBigint \<noteq> TypeFloat" "TypeBigint \<noteq> TypeText" "TypeBigint \<noteq> TypeBool" "TypeBigint \<noteq> TypeTimestamp"
  "TypeFloat \<noteq> TypeInt" "TypeFloat \<noteq> TypeBigint" "TypeFloat \<noteq> TypeText" "TypeFloat \<noteq> TypeBool" "TypeFloat \<noteq> TypeTimestamp"
  "TypeText \<noteq> TypeInt" "TypeText \<noteq> TypeBigint" "TypeText \<noteq> TypeFloat" "TypeText \<noteq> TypeBool" "TypeText \<noteq> TypeTimestamp"
  "TypeBool \<noteq> TypeInt" "TypeBool \<noteq> TypeBigint" "TypeBool \<noteq> TypeFloat" "TypeBool \<noteq> TypeText" "TypeBool \<noteq> TypeTimestamp"
  "TypeTimestamp \<noteq> TypeInt" "TypeTimestamp \<noteq> TypeBigint" "TypeTimestamp \<noteq> TypeFloat" "TypeTimestamp \<noteq> TypeText" "TypeTimestamp \<noteq> TypeBool"
  by (simp_all add: column_type_defs)

lemma Check_conforms: "Check ct v = Ok v' \<Longrightarrow> conforms ct v'"
  by (cases v) (auto simp: Check_def Let_def split: if_splits)

lemma Check_fixed: "conforms ct v \<Longrightarrow> Check ct v = Ok v"
  by (cases v) (auto simp: Check_def Let_def)

lemma f64_eq_sym: "f64_eq a b \<Longrightarrow> f64_eq b a"
  by (cases a; cases b) auto

lemma Check_numeric_value:
  assumes "Check ct v = Ok v'" "ct \<noteq> TypeBool"
  shows "Compare v' v = 0"
  using assms f64_eq_not_lt
  by (cases v) (auto simp: Check_def Let_def Compare_def cmp_by_def split: if_splits)

text \<open>
  C34: what \<open>Check\<close> accepts it stores as a value of the column's kind (or NULL); storing
  that value again changes nothing; and except for the \<open>int\<close> to \<open>bool\<close> coercion the
  stored value compares equal to the one given.
\<close>

theorem check_sound:
  assumes "Check ct v = Ok v'"
  shows "conforms ct v' \<and> Check ct v' = Ok v' \<and> (ct \<noteq> TypeBool \<longrightarrow> Compare v' v = 0)"
  using assms Check_conforms Check_fixed Check_numeric_value by blast

theorem check_sound_witness:
  "conforms TypeFloat (VFloat (f64_of_int 3)) \<and> Compare (VFloat (f64_of_int 3)) (VInt 3) = 0"
  using check_sound [of TypeFloat "VInt 3" "VFloat (f64_of_int 3)"]
  by (simp add: Check_def)

end
