(* ===== verification/Schema.thy ===== *)
theory Schema
  imports Types
begin

text \<open>
  \<open>internal/schema/schema.go\<close>: column and table definitions and \<open>Validate\<close>, the check
  every definition passes before it enters the catalog. The lemmas characterise the
  accepted definitions and the in-place normalisation of the primary key type.
\<close>

record column =
  col_name :: string
  col_type :: column_type
  col_notnull :: bool
  col_primary :: bool
  col_autoinc :: bool
  col_unique :: bool
  col_fktable :: string
  col_fkcol :: string

record tabledef =
  td_name :: string
  td_cols :: "column list"

datatype schema_error =
    InvalidTableName string
  | NoColumns string
  | InvalidColumnName string string
  | DuplicateColumn string string
  | UnknownType string column_type
  | TooManyPrimaryKeys string

text \<open>The regular expression \<open>^[a-zA-Z_][a-zA-Z0-9_]*$\<close>.\<close>

definition is_letter :: "char \<Rightarrow> bool" where
  "is_letter c \<longleftrightarrow> (CHR ''a'' \<le> c \<and> c \<le> CHR ''z'') \<or> (CHR ''A'' \<le> c \<and> c \<le> CHR ''Z'')"

definition identRe :: "string \<Rightarrow> bool" where
  "identRe s = (case s of
     [] \<Rightarrow> False
   | c # cs \<Rightarrow> (is_letter c \<or> c = CHR ''_'')
       \<and> list_all (\<lambda>d. is_letter d \<or> is_digit d \<or> d = CHR ''_'') cs)"

definition normalizePKType :: "column_type \<Rightarrow> column_type" where
  "normalizePKType ct = (if ct = TypeInt \<or> ct = TypeBigint then ct else TypeInt)"

text \<open>The loop over the columns: the names seen and the number of primary keys so far.\<close>

fun validate_cols ::
  "string \<Rightarrow> string list \<Rightarrow> nat \<Rightarrow> column list \<Rightarrow> (schema_error, column list \<times> nat) res" where
  "validate_cols tn seen pk [] = Ok ([], pk)"
| "validate_cols tn seen pk (c # cs) =
     (if \<not> identRe (col_name c) then Err (InvalidColumnName (col_name c) tn)
      else if col_name c \<in> set seen then Err (DuplicateColumn (col_name c) tn)
      else if \<not> ValidTypes (col_type c) then Err (UnknownType (col_name c) (col_type c))
      else
        let pk' = (if col_primary c then Suc pk else pk);
            c' = (if col_primary c then c\<lparr>col_type := normalizePKType (col_type c)\<rparr> else c)
        in case validate_cols tn (col_name c # seen) pk' cs of
             Inl e \<Rightarrow> Err e
           | Inr (cs', n) \<Rightarrow> Ok (c' # cs', n))"

definition Validate :: "tabledef \<Rightarrow> (schema_error, tabledef) res" where
  "Validate td =
     (if \<not> identRe (td_name td) then Err (InvalidTableName (td_name td))
      else if td_cols td = [] then Err (NoColumns (td_name td))
      else case validate_cols (td_name td) [] 0 (td_cols td) of
             Inl e \<Rightarrow> Err e
           | Inr (cs, n) \<Rightarrow>
               if n > 1 then Err (TooManyPrimaryKeys (td_name td))
               else Ok (td\<lparr>td_cols := cs\<rparr>))"

section \<open>What Validate accepts\<close>

definition norm_col :: "column \<Rightarrow> column" where
  "norm_col c = (if col_primary c then c\<lparr>col_type := normalizePKType (col_type c)\<rparr> else c)"

definition cols_ok :: "column list \<Rightarrow> bool" where
  "cols_ok cs \<longleftrightarrow> cs \<noteq> [] \<and> distinct (map col_name cs)
     \<and> list_all (\<lambda>c. identRe (col_name c) \<and> ValidTypes (col_type c)) cs
     \<and> length (filter col_primary cs) \<le> 1"

lemma norm_col_simps [simp]:
  "col_name (norm_col c) = col_name c" "col_primary (norm_col c) = col_primary c"
  "col_unique (norm_col c) = col_unique c" "norm_col (norm_col c) = norm_col c"
  by (simp_all add: norm_col_def normalizePKType_def)

lemma ValidTypes_norm [simp]: "ValidTypes (col_type c) \<Longrightarrow> ValidTypes (col_type (norm_col c))"
  by (simp add: norm_col_def normalizePKType_def ValidTypes_def)

lemma validate_cols_sound:
  "validate_cols tn seen pk cs = Ok (cs', n) \<Longrightarrow>
     cs' = map norm_col cs \<and> n = pk + length (filter col_primary cs)
     \<and> distinct (map col_name cs) \<and> set (map col_name cs) \<inter> set seen = {}
     \<and> list_all (\<lambda>c. identRe (col_name c) \<and> ValidTypes (col_type c)) cs"
proof (induction cs arbitrary: seen pk cs' n)
  case Nil
  then show ?case by simp
next
  case (Cons c cs)
  from Cons.prems obtain ds where
      "validate_cols tn (col_name c # seen) (if col_primary c then Suc pk else pk) cs = Ok (ds, n)"
      and "cs' = norm_col c # ds" "identRe (col_name c)" "col_name c \<notin> set seen" "ValidTypes (col_type c)"
    by (auto simp: Let_def norm_col_def split: sum.splits if_splits)
  with Cons.IH show ?case by fastforce
qed

lemma validate_cols_complete:
  "\<lbrakk> distinct (map col_name cs); set (map col_name cs) \<inter> set seen = {};
     list_all (\<lambda>c. identRe (col_name c) \<and> ValidTypes (col_type c)) cs \<rbrakk> \<Longrightarrow>
   validate_cols tn seen pk cs = Ok (map norm_col cs, pk + length (filter col_primary cs))"
  by (induction cs arbitrary: seen pk) (auto simp: Let_def norm_col_def)

lemma Validate_Ok_iff:
  "Validate td = Ok td' \<longleftrightarrow>
     identRe (td_name td) \<and> cols_ok (td_cols td) \<and> td' = td\<lparr>td_cols := map norm_col (td_cols td)\<rparr>"
proof
  assume "Validate td = Ok td'"
  then show "identRe (td_name td) \<and> cols_ok (td_cols td) \<and> td' = td\<lparr>td_cols := map norm_col (td_cols td)\<rparr>"
    using validate_cols_sound [of "td_name td" "[]" 0 "td_cols td"]
    by (auto simp: Validate_def cols_ok_def split: sum.splits if_splits)
next
  assume "identRe (td_name td) \<and> cols_ok (td_cols td) \<and> td' = td\<lparr>td_cols := map norm_col (td_cols td)\<rparr>"
  then show "Validate td = Ok td'"
    using validate_cols_complete [of "td_cols td" "[]" "td_name td" 0]
    by (simp add: Validate_def cols_ok_def)
qed

text \<open>
  C35: \<open>Validate\<close> accepts a definition exactly when the table name and all column names are
  identifiers, there is at least one column, column names are distinct, every type is
  known and at most one column is a primary key; what it returns differs from its
  argument only in the type of the primary key column.
\<close>

theorem validate_spec:
  "Validate td = Ok td' \<longleftrightarrow>
     identRe (td_name td) \<and> cols_ok (td_cols td) \<and> td' = td\<lparr>td_cols := map norm_col (td_cols td)\<rparr>"
  by (rule Validate_Ok_iff)

text \<open>
  C36: a validated definition is in normal form: validating it again accepts it unchanged,
  and its primary key column, if any, has an integer type, as row ids require.
\<close>

theorem validate_idempotent:
  assumes "Validate td = Ok td'"
  shows "Validate td' = Ok td'
    \<and> (\<forall>c. c \<in> set (td_cols td') \<and> col_primary c \<longrightarrow> col_type c = TypeInt \<or> col_type c = TypeBigint)"
proof -
  have td: "identRe (td_name td)" "cols_ok (td_cols td)"
      and td': "td' = td\<lparr>td_cols := map norm_col (td_cols td)\<rparr>"
    using assms Validate_Ok_iff by auto
  have "cols_ok (map norm_col (td_cols td))"
    using td(2) by (auto simp: cols_ok_def list_all_iff filter_map comp_def)
  with td td' have "Validate td' = Ok td'" by (simp add: Validate_Ok_iff comp_def)
  moreover have "\<forall>c \<in> set (td_cols td'). col_primary c \<longrightarrow> col_type c = TypeInt \<or> col_type c = TypeBigint"
    by (auto simp: td' norm_col_def normalizePKType_def)
  ultimately show ?thesis by blast
qed

theorem validate_idempotent_witness:
  "let c = \<lparr>col_name = ''id'', col_type = TypeText, col_notnull = False, col_primary = True,
            col_autoinc = False, col_unique = False, col_fktable = [], col_fkcol = []\<rparr>;
       td' = \<lparr>td_name = ''t'', td_cols = [c\<lparr>col_type := TypeInt\<rparr>]\<rparr>
   in Validate td' = Ok td'"
proof -
  define c :: column where
    "c = \<lparr>col_name = ''id'', col_type = TypeText, col_notnull = False, col_primary = True,
          col_autoinc = False, col_unique = False, col_fktable = [], col_fkcol = []\<rparr>"
  have "Validate \<lparr>td_name = ''t'', td_cols = [c]\<rparr> = Ok \<lparr>td_name = ''t'', td_cols = [c\<lparr>col_type := TypeInt\<rparr>]\<rparr>"
    unfolding c_def by code_simp
  from validate_idempotent [OF this] show ?thesis by (simp add: c_def)
qed

end
