(* ===== verification/Gob.thy ===== *)
theory Gob
  imports Schema
begin

text \<open>
  \<open>encoding/gob\<close> as the storage engine uses it (\<open>internal/storage/gob.go\<close>): one encoder
  and one decoder per payload type. Its byte format depends on type numbers assigned
  at run time, so the codec is a parameter of the log; \<open>gob_ok\<close> is the documented fact
  that decoding inverts encoding. \<open>sample_gob\<close> is a concrete codec with that property
  for all rows and schema changes; witnesses instantiate the parameter with it.
\<close>

record schemachange =
  sc_create :: bool
  sc_name :: string
  sc_cols :: "column list"

record gob =
  enc_row :: "row \<Rightarrow> byte list option"
  dec_row :: "byte list \<Rightarrow> row option"
  enc_ddl :: "schemachange \<Rightarrow> byte list option"
  dec_ddl :: "byte list \<Rightarrow> schemachange option"

definition gob_ok :: "gob \<Rightarrow> bool" where
  "gob_ok g \<longleftrightarrow> (\<forall>r bs. enc_row g r = Some bs \<longrightarrow> dec_row g bs = Some r)
     \<and> (\<forall>d bs. enc_ddl g d = Some bs \<longrightarrow> dec_ddl g bs = Some d)"

section \<open>A concrete codec\<close>

text \<open>
  Self-delimiting encodings: a decoder returns the value and the bytes after it.
  \<open>inverts d e\<close> says that \<open>d\<close> reads back what \<open>e\<close> writes in front of any rest.
\<close>

type_synonym 'a decoder = "byte list \<Rightarrow> ('a \<times> byte list) option"

definition inverts :: "'a decoder \<Rightarrow> ('a \<Rightarrow> byte list) \<Rightarrow> bool" where
  "inverts d e \<longleftrightarrow> (\<forall>x rest. d (e x @ rest) = Some (x, rest))"

fun enc_bool :: "bool \<Rightarrow> byte list" where
  "enc_bool b = [if b then 1 else 0]"

fun dec_bool :: "bool decoder" where
  "dec_bool [] = None"
| "dec_bool (b # bs) = Some (b = 1, bs)"

fun enc_list :: "('a \<Rightarrow> byte list) \<Rightarrow> 'a list \<Rightarrow> byte list" where
  "enc_list e [] = [0]"
| "enc_list e (x # xs) = 1 # e x @ enc_list e xs"

fun dec_list :: "'a decoder \<Rightarrow> nat \<Rightarrow> 'a list decoder" where
  "dec_list d 0 bs = None"
| "dec_list d (Suc n) [] = None"
| "dec_list d (Suc n) (b # bs) =
     (if b = 0 then Some ([], bs)
      else Option.bind (d bs) (\<lambda>(x, bs). Option.bind (dec_list d n bs) (\<lambda>(xs, bs). Some (x # xs, bs))))"

definition dec_all :: "'a decoder \<Rightarrow> 'a list decoder" where
  "dec_all d bs = dec_list d (length bs) bs"

definition enc_char :: "char \<Rightarrow> byte list" where
  "enc_char c = [of_char c]"

fun dec_char :: "char decoder" where
  "dec_char [] = None"
| "dec_char (b # bs) = Some (char_of (uint b), bs)"

definition enc_int :: "int \<Rightarrow> byte list" where
  "enc_int i = enc_bool (i < 0) @ enc_list enc_char (dec_digits \<bar>i\<bar>)"

definition dec_int :: "int decoder" where
  "dec_int bs = Option.bind (dec_bool bs) (\<lambda>(s, bs).
     Option.bind (dec_all dec_char bs) (\<lambda>(cs, bs). Some (if s then - undec cs else undec cs, bs)))"

definition enc_float :: "float64 \<Rightarrow> byte list" where
  "enc_float f = (case f of
     FNaN \<Rightarrow> [0] | FInf s \<Rightarrow> 1 # enc_bool s | FFin s m e \<Rightarrow> 2 # enc_bool s @ enc_int m @ enc_int e)"

fun dec_float :: "float64 decoder" where
  "dec_float [] = None"
| "dec_float (b # bs) =
     (if b = 0 then Some (FNaN, bs)
      else Option.bind (dec_bool bs) (\<lambda>(s, bs).
        if b = 1 then Some (FInf s, bs)
        else Option.bind (dec_int bs) (\<lambda>(m, bs). Option.bind (dec_int bs) (\<lambda>(e, bs). Some (FFin s m e, bs)))))"

fun enc_val :: "val \<Rightarrow> byte list" where
  "enc_val VNull = [0]"
| "enc_val (VInt i) = 1 # enc_int i"
| "enc_val (VText s) = 2 # enc_list enc_char s"
| "enc_val (VBool b) = 3 # enc_bool b"
| "enc_val (VTime t) = 4 # enc_int t"
| "enc_val (VFloat f) = 5 # enc_float f"

fun dec_val :: "val decoder" where
  "dec_val [] = None"
| "dec_val (b # bs) =
     (if b = 0 then Some (VNull, bs)
      else if b = 1 then map_option (\<lambda>(i, bs). (VInt i, bs)) (dec_int bs)
      else if b = 2 then map_option (\<lambda>(s, bs). (VText s, bs)) (dec_all dec_char bs)
      else if b = 3 then map_option (\<lambda>(x, bs). (VBool x, bs)) (dec_bool bs)
      else if b = 4 then map_option (\<lambda>(t, bs). (VTime t, bs)) (dec_int bs)
      else map_option (\<lambda>(f, bs). (VFloat f, bs)) (dec_float bs))"

definition enc_col :: "column \<Rightarrow> byte list" where
  "enc_col c = enc_list (enc_list enc_char) [col_name c, col_type c, col_fktable c, col_fkcol c]
     @ enc_list enc_bool [col_notnull c, col_primary c, col_autoinc c, col_unique c]"

definition dec_col :: "column decoder" where
  "dec_col bs = Option.bind (dec_all (dec_all dec_char) bs) (\<lambda>(ss, bs).
     Option.bind (dec_all dec_bool bs) (\<lambda>(fs, bs).
       Some (\<lparr>col_name = ss ! 0, col_type = ss ! 1, col_notnull = fs ! 0, col_primary = fs ! 1,
              col_autoinc = fs ! 2, col_unique = fs ! 3, col_fktable = ss ! 2, col_fkcol = ss ! 3\<rparr>, bs)))"

definition enc_sc :: "schemachange \<Rightarrow> byte list" where
  "enc_sc d = enc_bool (sc_create d) @ enc_list enc_char (sc_name d) @ enc_list enc_col (sc_cols d)"

definition dec_sc :: "schemachange decoder" where
  "dec_sc bs = Option.bind (dec_bool bs) (\<lambda>(c, bs).
     Option.bind (dec_all dec_char bs) (\<lambda>(n, bs).
     Option.bind (dec_all dec_col bs) (\<lambda>(cs, bs).
       Some (\<lparr>sc_create = c, sc_name = n, sc_cols = cs\<rparr>, bs))))"

definition sample_gob :: gob where
  "sample_gob = \<lparr>enc_row = (\<lambda>r. Some (enc_list enc_val r)), dec_row = (\<lambda>bs. map_option fst (dec_all dec_val bs)),
     enc_ddl = (\<lambda>d. Some (enc_sc d)), dec_ddl = (\<lambda>bs. map_option fst (dec_sc bs))\<rparr>"

lemma invertsD: "inverts d e \<Longrightarrow> d (e x @ rest) = Some (x, rest)"
  by (simp add: inverts_def)

lemma inverts_bool: "inverts dec_bool enc_bool"
  by (simp add: inverts_def)

lemma of_char_less: "of_char c < (256 :: nat)"
  using rangeI [of "of_char :: char \<Rightarrow> nat" c] by (simp only: range_nat_of_char) simp

lemma uint_of_char: "uint (of_char c :: byte) = of_char c"
proof -
  have "uint (of_nat (of_char c) :: byte) = int (of_char c)"
    using of_char_less [of c] by (simp only: unsigned_of_nat) (simp add: take_bit_nat_eq_self)
  then show ?thesis by (simp only: of_nat_of_char)
qed

lemma inverts_char: "inverts dec_char enc_char"
  by (simp add: inverts_def enc_char_def uint_of_char)

lemma dec_list_enc:
  "inverts d e \<Longrightarrow> length xs < n \<Longrightarrow> dec_list d n (enc_list e xs @ rest) = Some (xs, rest)"
proof (induction xs arbitrary: n)
  case Nil
  then show ?case by (cases n) auto
next
  case (Cons x xs)
  then show ?case by (cases n) (auto simp: invertsD)
qed

lemma length_enc_list: "length xs < length (enc_list e xs)"
  by (induction xs) auto

lemma length_enc_string: "length (enc_list enc_char s) = 2 * length s + 1"
  by (induction s) (auto simp: enc_char_def)

lemma inverts_list: "inverts d e \<Longrightarrow> inverts (dec_all d) (enc_list e)"
  using length_enc_list [of _ e] unfolding inverts_def dec_all_def
  by (auto intro!: dec_list_enc simp: inverts_def trans_less_add1)

lemmas inverts_string = inverts_list [OF inverts_char]

lemma inverts_int: "inverts dec_int enc_int"
  unfolding inverts_def enc_int_def dec_int_def
  using invertsD [OF inverts_bool] invertsD [OF inverts_string]
  by (auto simp del: enc_bool.simps)

lemma inverts_float: "inverts dec_float enc_float"
  unfolding inverts_def enc_float_def
  using invertsD [OF inverts_bool] invertsD [OF inverts_int]
  by (auto simp del: enc_bool.simps split: float64.split)

lemma inverts_val: "inverts dec_val enc_val"
  unfolding inverts_def
proof (intro allI)
  fix v rest
  show "dec_val (enc_val v @ rest) = Some (v, rest)"
    using invertsD [OF inverts_bool] invertsD [OF inverts_int] invertsD [OF inverts_string]
      invertsD [OF inverts_float]
    by (cases v) (auto simp del: enc_bool.simps)
qed

lemma inverts_col: "inverts dec_col enc_col"
  unfolding inverts_def enc_col_def dec_col_def
  using invertsD [OF inverts_list [OF inverts_string]] invertsD [OF inverts_list [OF inverts_bool]]
  by (auto simp del: enc_bool.simps enc_list.simps)

lemma inverts_sc: "inverts dec_sc enc_sc"
  unfolding inverts_def enc_sc_def dec_sc_def
  using invertsD [OF inverts_bool] invertsD [OF inverts_string] invertsD [OF inverts_list [OF inverts_col]]
  by (auto simp del: enc_bool.simps enc_list.simps)

lemma gob_ok_sample: "gob_ok sample_gob"
  using invertsD [OF inverts_list [OF inverts_val], of _ "[]"] invertsD [OF inverts_sc, of _ "[]"]
  by (auto simp: gob_ok_def sample_gob_def)

end
