(* ===== verification/Wal.thy ===== *)
theory Wal
  imports Gob
begin

text \<open>
  \<open>internal/storage/wal.go\<close> (and \<open>gob.go\<close>): the write-ahead log.

  The record codec is modelled byte for byte, with the CRC of \<open>hash/crc32\<close>. Rows and
  schema changes inside a record are encoded by \<open>encoding/gob\<close>, whose byte format
  depends on type numbers assigned at run time; it is the parameter \<open>g :: gob\<close> of the
  definitions (theory \<open>Gob\<close>), and \<open>gob_ok g\<close> is the documented fact that decoding inverts
  encoding.

  The log file is its list of bytes together with the length known to be on stable
  storage. Every system call of the log draws its outcome from \<open>w_faults\<close>: it succeeds,
  or fails after writing some of its bytes; with an empty list all calls succeed.
  The lemmas show the codec round trip, that reading the log back after any torn write
  yields exactly the complete records before the tear, and what \<open>Append\<close> does to the
  file.
\<close>

unbundle bit_operations_syntax

section \<open>Records\<close>

definition RecBegin :: byte where "RecBegin = 1"
definition RecPut :: byte where "RecPut = 2"
definition RecDelete :: byte where "RecDelete = 3"
definition RecCommit :: byte where "RecCommit = 4"
definition RecCreate :: byte where "RecCreate = 5"
definition RecDrop :: byte where "RecDrop = 6"

lemmas rectype_defs [go_defs] =
  RecBegin_def RecPut_def RecDelete_def RecCommit_def RecCreate_def RecDrop_def

definition maxPayload :: int where
  "maxPayload = 64 * 2 ^ 20"

record walrec =
  rec_type :: byte
  rec_txn :: uint64
  rec_table :: uint32
  rec_row :: int64
  rec_vals :: row
  rec_ddl :: "schemachange option"

datatype wal_error = ErrGob | ErrNoDDL | ErrUnknownType byte | ErrMalformed | ErrIO

section \<open>CRC-32 (IEEE polynomial, reflected)\<close>

definition crc_step :: "uint32 \<Rightarrow> uint32" where
  "crc_step c = (if c AND 1 = 1 then drop_bit 1 c XOR 0xEDB88320 else drop_bit 1 c)"

definition crc_byte :: "byte \<Rightarrow> uint32 \<Rightarrow> uint32" where
  "crc_byte b c = (crc_step ^^ 8) (c XOR ucast b)"

definition crc32 :: "byte list \<Rightarrow> uint32" where
  "crc32 bs = NOT (fold crc_byte bs 0xFFFFFFFF)"

section \<open>The codec\<close>

definition encode_payload :: "gob \<Rightarrow> walrec \<Rightarrow> (wal_error, byte list) res" where
  "encode_payload g r =
     (if rec_type r = RecBegin \<or> rec_type r = RecCommit then Ok []
      else if rec_type r = RecPut then
        (case enc_row g (rec_vals r) of
           None \<Rightarrow> Err ErrGob
         | Some bs \<Rightarrow> Ok (le32 (rec_table r) @ le64 (uint64_of_int64 (rec_row r)) @ bs))
      else if rec_type r = RecDelete then
        Ok (le32 (rec_table r) @ le64 (uint64_of_int64 (rec_row r)))
      else if rec_type r = RecCreate \<or> rec_type r = RecDrop then
        (case rec_ddl r of
           None \<Rightarrow> Err ErrNoDDL
         | Some d \<Rightarrow> (case enc_ddl g d of None \<Rightarrow> Err ErrGob | Some bs \<Rightarrow> Ok bs))
      else Err (ErrUnknownType (rec_type r)))"

definition encode_header :: "walrec \<Rightarrow> byte list \<Rightarrow> byte list" where
  "encode_header r payload = [rec_type r] @ le64 (rec_txn r) @ le32 (word_of_nat (length payload))"

definition encodeRecord :: "gob \<Rightarrow> walrec \<Rightarrow> (wal_error, byte list) res" where
  "encodeRecord g r =
     (case encode_payload g r of
        Inl e \<Rightarrow> Err e
      | Inr payload \<Rightarrow>
          (let body = encode_header r payload @ payload in Ok (body @ le32 (crc32 body))))"

definition empty_rec :: "byte \<Rightarrow> uint64 \<Rightarrow> walrec" where
  "empty_rec ty tx = \<lparr>rec_type = ty, rec_txn = tx, rec_table = 0, rec_row = 0, rec_vals = [], rec_ddl = None\<rparr>"

definition decodeRecord :: "gob \<Rightarrow> byte list \<Rightarrow> byte list \<Rightarrow> (wal_error, walrec) res" where
  "decodeRecord g hdr payload =
     (let r = empty_rec (hdr ! 0) (un_le64 (take 8 (drop 1 hdr)))
      in if rec_type r = RecBegin \<or> rec_type r = RecCommit then Ok r
         else if rec_type r = RecPut \<or> rec_type r = RecDelete then
           (if length payload < 12 then Err ErrMalformed
            else
              let r = r\<lparr>rec_table := un_le32 (take 4 payload),
                        rec_row := int64_of_uint64 (un_le64 (take 8 (drop 4 payload)))\<rparr>
              in if rec_type r = RecPut then
                   (case dec_row g (drop 12 payload) of
                      None \<Rightarrow> Err ErrMalformed
                    | Some vs \<Rightarrow> Ok (r\<lparr>rec_vals := vs\<rparr>))
                 else Ok r)
         else if rec_type r = RecCreate \<or> rec_type r = RecDrop then
           (case dec_ddl g payload of
              None \<Rightarrow> Err ErrMalformed
            | Some d \<Rightarrow> Ok (r\<lparr>rec_ddl := Some d\<rparr>))
         else Err ErrMalformed)"

section \<open>Reading the log back\<close>

text \<open>
  \<open>ReadRecords\<close>: the records from the current position, and the offset of the first
  byte that is not part of a valid record.
\<close>

function ReadRecords :: "gob \<Rightarrow> byte list \<Rightarrow> int \<Rightarrow> walrec list \<times> int" where
  "ReadRecords g bs off =
     (if length bs < 13 then ([], off)
      else
        let hdr = take 13 bs;
            plen = uint (un_le32 (drop 9 hdr));
            rest = drop 13 bs
        in if plen > maxPayload then ([], off)
           else if length rest < nat plen then ([], off)
           else
             let payload = take (nat plen) rest;
                 tail = drop (nat plen) rest
             in if length tail < 4 then ([], off)
                else if crc32 (hdr @ payload) \<noteq> un_le32 (take 4 tail) then ([], off)
                else case decodeRecord g hdr payload of
                       Inl e \<Rightarrow> ([], off)
                     | Inr r \<Rightarrow>
                         (let (rs, o') = ReadRecords g (drop 4 tail) (off + 13 + plen + 4)
                          in (r # rs, o')))"
  by pat_completeness auto
termination
  by (relation "measure (\<lambda>(g, bs, off). length bs)") auto

declare ReadRecords.simps [simp del]

section \<open>The log file\<close>

datatype io = IoOk | IoFail nat

record wal =
  w_file :: "byte list"
  w_synced :: nat
  w_seq :: uint64
  w_sticky :: bool
  w_faults :: "io list"

definition take_io :: "wal \<Rightarrow> io \<times> wal" where
  "take_io w = (case w_faults w of [] \<Rightarrow> (IoOk, w) | f # fs \<Rightarrow> (f, w\<lparr>w_faults := fs\<rparr>))"

text \<open>
  \<open>Write\<close> and \<open>Flush\<close> of the buffered writer: the bytes reach the file, or a part of
  them does and the writer keeps its error.
\<close>

definition write_flush :: "byte list \<Rightarrow> wal \<Rightarrow> (wal_error, unit) res \<times> wal" where
  "write_flush buf w =
     (if w_sticky w then (Err ErrIO, w)
      else case take_io w of
             (IoOk, w) \<Rightarrow> (Ok (), w\<lparr>w_file := w_file w @ buf\<rparr>)
           | (IoFail n, w) \<Rightarrow> (Err ErrIO, w\<lparr>w_file := w_file w @ take n buf, w_sticky := True\<rparr>))"

definition fsync :: "wal \<Rightarrow> (wal_error, unit) res \<times> wal" where
  "fsync w = (case take_io w of
     (IoOk, w) \<Rightarrow> (Ok (), w\<lparr>w_synced := length (w_file w)\<rparr>)
   | (IoFail n, w) \<Rightarrow> (Err ErrIO, w))"

definition wal_Append :: "gob \<Rightarrow> walrec \<Rightarrow> bool \<Rightarrow> wal \<Rightarrow> (wal_error, uint64) res \<times> wal" where
  "wal_Append g r durable w =
     (case encodeRecord g r of
        Inl e \<Rightarrow> (Err e, w)
      | Inr buf \<Rightarrow>
          (case write_flush buf w of
             (Inl e, w) \<Rightarrow> (Err e, w)
           | (Inr _, w) \<Rightarrow>
               (case (if durable then fsync w else (Ok (), w)) of
                  (Inl e, w) \<Rightarrow> (Err e, w)
                | (Inr _, w) \<Rightarrow>
                    (let w = w\<lparr>w_seq := w_seq w + 1\<rparr> in (Ok (w_seq w), w)))))"

text \<open>
  \<open>Truncate\<close>: flush, sync and cut to length zero may each fail. Seeking an open regular
  file to offset 0 cannot, so that last error return has no branch.
\<close>

definition wal_Truncate :: "wal \<Rightarrow> (wal_error, unit) res \<times> wal" where
  "wal_Truncate w =
     (if w_sticky w then (Err ErrIO, w)
      else case fsync w of
             (Inl e, w) \<Rightarrow> (Err e, w)
           | (Inr _, w) \<Rightarrow>
               (case take_io w of
                  (IoFail n, w) \<Rightarrow> (Err ErrIO, w)
                | (IoOk, w) \<Rightarrow>
                    (Ok (), w\<lparr>w_file := [], w_synced := 0, w_seq := 0\<rparr>)))"

definition wal_Close :: "wal \<Rightarrow> (wal_error, unit) res \<times> wal" where
  "wal_Close w =
     (if w_sticky w then (Err ErrIO, w)
      else case fsync w of
             (Inl e, w) \<Rightarrow> (Err e, w)
           | (Inr _, w) \<Rightarrow>
               (case take_io w of
                  (IoFail n, w) \<Rightarrow> (Err ErrIO, w)
                | (IoOk, w) \<Rightarrow> (Ok (), w)))"

text \<open>
  \<open>OpenWAL\<close> on the bytes found on disk: the surviving records, and the log with its
  torn tail cut off.
\<close>

definition OpenWAL :: "gob \<Rightarrow> byte list \<Rightarrow> io list \<Rightarrow> (wal_error, wal \<times> walrec list) res" where
  "OpenWAL g bs faults =
     (let (recs, validLen) = ReadRecords g bs 0;
          w = \<lparr>w_file = bs, w_synced = length bs, w_seq = word_of_nat (length recs),
               w_sticky = False, w_faults = faults\<rparr>
      in if int (length bs) > validLen then
           (case take_io w of
              (IoFail n, w) \<Rightarrow> Err ErrIO
            | (IoOk, w) \<Rightarrow>
                Ok (w\<lparr>w_file := take (nat validLen) bs, w_synced := nat validLen\<rparr>, recs))
         else Ok (w, recs))"

section \<open>Round trip of the codec\<close>

text \<open>
  A record as the engine builds it: the fields its type does not use are zero, and the
  row id is an \<open>int64\<close>.
\<close>

definition canonical :: "walrec \<Rightarrow> bool" where
  "canonical r \<longleftrightarrow> is_int64 (rec_row r)
     \<and> (rec_type r = RecBegin \<or> rec_type r = RecCommit \<longrightarrow> r = empty_rec (rec_type r) (rec_txn r))
     \<and> (rec_type r = RecPut \<longrightarrow> rec_ddl r = None)
     \<and> (rec_type r = RecDelete \<longrightarrow> rec_vals r = [] \<and> rec_ddl r = None)
     \<and> (rec_type r = RecCreate \<or> rec_type r = RecDrop \<longrightarrow>
          rec_table r = 0 \<and> rec_row r = 0 \<and> rec_vals r = [])"

lemma rectypes_distinct [simp]:
  "RecBegin \<noteq> RecPut" "RecBegin \<noteq> RecDelete" "RecBegin \<noteq> RecCommit" "RecBegin \<noteq> RecCreate" "RecBegin \<noteq> RecDrop"
  "RecPut \<noteq> RecBegin" "RecPut \<noteq> RecDelete" "RecPut \<noteq> RecCommit" "RecPut \<noteq> RecCreate" "RecPut \<noteq> RecDrop"
  "RecDelete \<noteq> RecBegin" "RecDelete \<noteq> RecPut" "RecDelete \<noteq> RecCommit" "RecDelete \<noteq> RecCreate" "RecDelete \<noteq> RecDrop"
  "RecCommit \<noteq> RecBegin" "RecCommit \<noteq> RecPut" "RecCommit \<noteq> RecDelete" "RecCommit \<noteq> RecCreate" "RecCommit \<noteq> RecDrop"
  "RecCreate \<noteq> RecBegin" "RecCreate \<noteq> RecPut" "RecCreate \<noteq> RecDelete" "RecCreate \<noteq> RecCommit" "RecCreate \<noteq> RecDrop"
  "RecDrop \<noteq> RecBegin" "RecDrop \<noteq> RecPut" "RecDrop \<noteq> RecDelete" "RecDrop \<noteq> RecCommit" "RecDrop \<noteq> RecCreate"
  by (simp_all add: rectype_defs)

lemma length_encode_header [simp]: "length (encode_header r p) = 13"
  by (simp add: encode_header_def)

lemma header_parts:
  "encode_header r p ! 0 = rec_type r"
  "take 8 (drop (Suc 0) (encode_header r p)) = le64 (rec_txn r)"
  "drop 9 (encode_header r p) = le32 (word_of_nat (length p))"
  by (simp_all add: encode_header_def)

lemma empty_rec_simps [simp]:
  "rec_type (empty_rec ty tx) = ty" "rec_txn (empty_rec ty tx) = tx"
  by (simp_all add: empty_rec_def)

lemma decode_encode_payload:
  assumes g: "gob_ok g" and c: "canonical r" and p: "encode_payload g r = Ok p"
  shows "decodeRecord g (encode_header r p) p = Ok r"
proof -
  have row: "int64_of_uint64 (uint64_of_int64 (rec_row r)) = rec_row r"
    using c by (simp add: canonical_def)
  consider (mark) "rec_type r = RecBegin \<or> rec_type r = RecCommit"
    | (put) "rec_type r = RecPut" | (del) "rec_type r = RecDelete"
    | (ddl) "rec_type r = RecCreate \<or> rec_type r = RecDrop"
    using p by (auto simp: encode_payload_def split: if_splits)
  then show ?thesis
  proof cases
    case mark
    with c show ?thesis
      by (auto simp: decodeRecord_def Let_def header_parts canonical_def)
  next
    case put
    with p obtain bs where bs: "enc_row g (rec_vals r) = Some bs"
        and p': "p = le32 (rec_table r) @ le64 (uint64_of_int64 (rec_row r)) @ bs"
      by (auto simp: encode_payload_def split: option.splits)
    from bs g have "dec_row g bs = Some (rec_vals r)" by (auto simp: gob_ok_def)
    with put c row show ?thesis
      by (simp add: decodeRecord_def Let_def header_parts p' canonical_def empty_rec_def)
  next
    case del
    with p have p': "p = le32 (rec_table r) @ le64 (uint64_of_int64 (rec_row r))"
      by (auto simp: encode_payload_def)
    with del c row show ?thesis
      by (simp add: decodeRecord_def Let_def header_parts canonical_def empty_rec_def)
  next
    case ddl
    with p obtain d where d: "rec_ddl r = Some d" "enc_ddl g d = Some p"
      by (auto simp: encode_payload_def split: option.splits)
    with g have "dec_ddl g p = Some d" by (auto simp: gob_ok_def)
    with ddl c d show ?thesis
      by (auto simp: decodeRecord_def Let_def header_parts canonical_def empty_rec_def)
  qed
qed

text \<open>\<open>encodable g r\<close>: the record encodes and its payload is within the bound of the reader.\<close>

definition encodable :: "gob \<Rightarrow> walrec \<Rightarrow> bool" where
  "encodable g r \<longleftrightarrow> canonical r
     \<and> (\<exists>p. encode_payload g r = Ok p \<and> int (length p) \<le> maxPayload)"

definition enc_bytes :: "gob \<Rightarrow> walrec \<Rightarrow> byte list" where
  "enc_bytes g r = (case encodeRecord g r of Inr bs \<Rightarrow> bs | Inl _ \<Rightarrow> [])"

lemma encodable_Ok: "encodable g r \<Longrightarrow> encodeRecord g r = Ok (enc_bytes g r)"
  by (auto simp: encodable_def enc_bytes_def encodeRecord_def)

lemma ReadRecords_short: "length bs < 13 \<Longrightarrow> ReadRecords g bs off = ([], off)"
  by (simp add: ReadRecords.simps [of g bs off])

lemma plen_of: "int (length p) \<le> maxPayload \<Longrightarrow> uint (word_of_nat (length p) :: uint32) = int (length p)"
  by (simp add: maxPayload_def unsigned_of_nat take_bit_nat_eq_self_iff)

lemma ReadRecords_header:
  assumes "13 \<le> length bs" "take 13 bs = h" "drop 13 bs = t" "uint (un_le32 (drop 9 h)) = int n"
  shows "ReadRecords g bs off =
    (if maxPayload < int n \<or> length t < n + 4 \<or> crc32 (h @ take n t) \<noteq> un_le32 (take 4 (drop n t))
     then ([], off)
     else case decodeRecord g h (take n t) of
            Inl e \<Rightarrow> ([], off)
          | Inr r \<Rightarrow> (let (rs, o') = ReadRecords g (drop (n + 4) t) (off + 13 + int n + 4) in (r # rs, o')))"
proof -
  have "unat (un_le32 (drop 9 h)) = n" using assms(4) by (metis nat_int nat_uint_eq)
  with assms show ?thesis
    by (subst ReadRecords.simps) (auto simp: Let_def add.commute split: sum.split)
qed

lemma enc_bytes_split:
  assumes "encodable g r"
  obtains p where "encode_payload g r = Ok p" "int (length p) \<le> maxPayload"
    "enc_bytes g r = encode_header r p @ p @ le32 (crc32 (encode_header r p @ p))"
  using assms by (auto simp: encodable_def enc_bytes_def encodeRecord_def Let_def)

lemma ReadRecords_cons:
  assumes "gob_ok g" "encodable g r"
  shows "ReadRecords g (enc_bytes g r @ rest) off =
    (let (rs, o') = ReadRecords g rest (off + int (length (enc_bytes g r))) in (r # rs, o'))"
proof -
  obtain p where p: "encode_payload g r = Ok p" "int (length p) \<le> maxPayload"
      and e: "enc_bytes g r = encode_header r p @ p @ le32 (crc32 (encode_header r p @ p))"
    using assms(2) by (rule enc_bytes_split)
  have "uint (un_le32 (drop 9 (encode_header r p))) = int (length p)"
    by (simp add: header_parts plen_of p(2))
  moreover have "decodeRecord g (encode_header r p) p = Ok r"
    using assms p(1) by (intro decode_encode_payload) (auto simp: encodable_def)
  ultimately show ?thesis
    using p(2) by (subst ReadRecords_header) (auto simp: e add.assoc)
qed

lemma ReadRecords_torn:
  assumes "encodable g r" "k < length (enc_bytes g r)"
  shows "ReadRecords g (take k (enc_bytes g r)) off = ([], off)"
proof -
  obtain p where p: "encode_payload g r = Ok p" "int (length p) \<le> maxPayload"
      and e: "enc_bytes g r = encode_header r p @ p @ le32 (crc32 (encode_header r p @ p))"
    using assms(1) by (rule enc_bytes_split)
  show ?thesis
  proof (cases "k < 13")
    case True
    then show ?thesis by (intro ReadRecords_short) simp
  next
    case False
    moreover have "uint (un_le32 (drop 9 (encode_header r p))) = int (length p)"
      by (simp add: header_parts plen_of p(2))
    moreover have "k < 13 + length p + 4" using assms(2) by (simp add: e)
    ultimately show ?thesis
      by (subst ReadRecords_header [where n = "length p" and h = "encode_header r p"
            and t = "drop 13 (take k (enc_bytes g r))"]) (auto simp: e)
  qed
qed

lemma encodable_mark: "ty = RecBegin \<or> ty = RecCommit \<Longrightarrow> encodable g (empty_rec ty tx)"
  by (auto simp: encodable_def canonical_def encode_payload_def maxPayload_def empty_rec_def is_int64_def
      min_int64_def max_int64_def)

text \<open>The bytes of a list of records.\<close>

definition log_bytes :: "gob \<Rightarrow> walrec list \<Rightarrow> byte list" where
  "log_bytes g rs = concat (map (enc_bytes g) rs)"

lemma log_bytes_simps [simp]:
  "log_bytes g [] = []" "log_bytes g (r # rs) = enc_bytes g r @ log_bytes g rs"
  "log_bytes g (rs @ ss) = log_bytes g rs @ log_bytes g ss"
  by (simp_all add: log_bytes_def)

lemma ReadRecords_log_append:
  assumes "gob_ok g" "list_all (encodable g) rs"
  shows "ReadRecords g (log_bytes g rs @ rest) off =
    (let (ss, o') = ReadRecords g rest (off + int (length (log_bytes g rs))) in (rs @ ss, o'))"
  using assms(2)
proof (induction rs arbitrary: off)
  case Nil
  then show ?case by simp
next
  case (Cons r rs)
  then show ?case
    using ReadRecords_cons [OF assms(1), of r "log_bytes g rs @ rest" off]
    by (simp add: Let_def split_beta add.assoc)
qed

lemma ReadRecords_log:
  assumes "gob_ok g" "list_all (encodable g) rs"
  shows "ReadRecords g (log_bytes g rs) off = (rs, off + int (length (log_bytes g rs)))"
  using ReadRecords_log_append [OF assms, of "[]"] by (simp add: ReadRecords_short)

section \<open>Torn logs\<close>

lemma ex_take_all [simp]: "\<exists>k. xs = take k xs"
  by (rule exI [of _ "length xs"]) simp

lemma ReadRecords_prefix:
  assumes g: "gob_ok g" and rs: "list_all (encodable g) rs"
  shows "\<exists>n \<le> length rs. ReadRecords g (take k (log_bytes g rs)) off
        = (take n rs, off + int (length (log_bytes g (take n rs))))
      \<and> length (log_bytes g (take n rs)) \<le> k
      \<and> (n < length rs \<longrightarrow> k < length (log_bytes g (take (Suc n) rs)))"
  using rs
proof (induction rs arbitrary: k off)
  case Nil
  then show ?case by (simp add: ReadRecords_short)
next
  case (Cons r rs)
  show ?case
  proof (cases "k < length (enc_bytes g r)")
    case True
    then have "ReadRecords g (take k (log_bytes g (r # rs))) off = ([], off)"
      using Cons.prems by (simp add: ReadRecords_torn)
    with True show ?thesis by (intro exI [of _ 0]) simp
  next
    case False
    define k' where "k' = k - length (enc_bytes g r)"
    have k: "k = length (enc_bytes g r) + k'" using False by (simp add: k'_def)
    from Cons.prems have "list_all (encodable g) rs" by simp
    from Cons.IH [OF this, of k' "off + int (length (enc_bytes g r))"] obtain n where n: "n \<le> length rs"
      "ReadRecords g (take k' (log_bytes g rs)) (off + int (length (enc_bytes g r)))
        = (take n rs, off + int (length (enc_bytes g r)) + int (length (log_bytes g (take n rs))))"
      "length (log_bytes g (take n rs)) \<le> k'"
      "n < length rs \<longrightarrow> k' < length (log_bytes g (take (Suc n) rs))"
      by auto
    have "take k (log_bytes g (r # rs)) = enc_bytes g r @ take k' (log_bytes g rs)"
      by (simp add: k)
    with n Cons.prems show ?thesis
      by (intro exI [of _ "Suc n"]) (simp add: ReadRecords_cons [OF g] k add.assoc)
  qed
qed

text \<open>
  C22: whatever prefix of a log survives a crash, reading it back yields exactly the
  records that are complete in it, in order, and the offset where the torn record
  starts: no complete record is lost and no partial one is invented.
\<close>

theorem read_records_torn_prefix:
  assumes "gob_ok g" and "list_all (encodable g) rs"
  shows "\<exists>n \<le> length rs. ReadRecords g (take k (log_bytes g rs)) 0
        = (take n rs, int (length (log_bytes g (take n rs))))
      \<and> length (log_bytes g (take n rs)) \<le> k
      \<and> (n < length rs \<longrightarrow> k < length (log_bytes g (take (Suc n) rs)))"
  using ReadRecords_prefix [OF assms, of k 0] by simp

theorem read_records_torn_prefix_witness:
  "\<exists>n \<le> length [empty_rec RecBegin 1, empty_rec RecCommit 1].
     ReadRecords sample_gob (take 20 (log_bytes sample_gob [empty_rec RecBegin 1, empty_rec RecCommit 1])) 0
       = (take n [empty_rec RecBegin 1, empty_rec RecCommit 1],
          int (length (log_bytes sample_gob (take n [empty_rec RecBegin 1, empty_rec RecCommit 1]))))
     \<and> length (log_bytes sample_gob (take n [empty_rec RecBegin 1, empty_rec RecCommit 1])) \<le> 20
     \<and> (n < length [empty_rec RecBegin 1, empty_rec RecCommit 1] \<longrightarrow>
          20 < length (log_bytes sample_gob (take (Suc n) [empty_rec RecBegin 1, empty_rec RecCommit 1])))"
  by (rule read_records_torn_prefix [OF gob_ok_sample]) (simp add: encodable_mark)

section \<open>Appending\<close>

text \<open>What a crash may leave of the file: everything synced and any part of the rest.\<close>

definition crash_image :: "wal \<Rightarrow> byte list \<Rightarrow> bool" where
  "crash_image w bs \<longleftrightarrow> (\<exists>k \<ge> w_synced w. bs = take k (w_file w))"

definition io_clean :: "wal \<Rightarrow> bool" where
  "io_clean w \<longleftrightarrow> w_faults w = [] \<and> \<not> w_sticky w"

definition empty_wal :: "io list \<Rightarrow> wal" where
  "empty_wal fs = \<lparr>w_file = [], w_synced = 0, w_seq = 0, w_sticky = False, w_faults = fs\<rparr>"

lemma wal_Append_clean:
  assumes "io_clean w" "encodable g r"
  shows "wal_Append g r d w = (Ok (w_seq w + 1),
    w\<lparr>w_file := w_file w @ enc_bytes g r,
      w_synced := (if d then length (w_file w) + length (enc_bytes g r) else w_synced w),
      w_seq := w_seq w + 1\<rparr>)"
  using assms
  by (simp add: wal_Append_def encodable_Ok io_clean_def write_flush_def take_io_def fsync_def)

lemma take_io_file [simp]:
  "take_io w = (x, w') \<Longrightarrow> w_file w' = w_file w" "take_io w = (x, w') \<Longrightarrow> w_synced w' = w_synced w"
  "take_io w = (x, w') \<Longrightarrow> w_sticky w' = w_sticky w" "take_io w = (x, w') \<Longrightarrow> w_seq w' = w_seq w"
  by (auto simp: take_io_def split: list.splits)

lemma write_flush_outcome:
  "write_flush buf w = (res, w') \<Longrightarrow>
     (\<exists>k. w_file w' = w_file w @ take k buf) \<and> w_synced w' = w_synced w \<and> w_seq w' = w_seq w
     \<and> (res = Ok () \<longrightarrow> w_file w' = w_file w @ buf)"
  by (auto simp: write_flush_def split: if_splits prod.splits io.splits intro: exI [of _ 0])

lemma fsync_outcome:
  "fsync w = (res, w') \<Longrightarrow>
     w_file w' = w_file w \<and> w_seq w' = w_seq w
     \<and> w_synced w' = (if res = Ok () then length (w_file w) else w_synced w)"
  by (auto simp: fsync_def split: prod.splits io.splits)

lemma wal_Append_outcome:
  assumes "wal_Append g r d w = (res, w')"
  shows "(\<exists>k. w_file w' = w_file w @ take k (enc_bytes g r))
    \<and> (\<forall>s. res = Ok s \<longrightarrow> w_file w' = w_file w @ enc_bytes g r \<and> w_seq w' = w_seq w + 1 \<and> s = w_seq w'
          \<and> w_synced w' = (if d then length (w_file w') else w_synced w))"
proof (cases "encodeRecord g r")
  case (Inl e)
  with assms show ?thesis by (auto simp: wal_Append_def intro: exI [of _ 0])
next
  case (Inr buf)
  then have buf: "enc_bytes g r = buf" by (simp add: enc_bytes_def)
  obtain res1 w1 where 1: "write_flush buf w = (res1, w1)" by fastforce
  obtain res2 w2 where 2: "fsync w1 = (res2, w2)" by fastforce
  from assms Inr 1 2 show ?thesis
    using write_flush_outcome [OF 1] fsync_outcome [OF 2]
    by (auto simp: wal_Append_def buf Let_def split: sum.splits if_splits)
qed

text \<open>
  C29: under any sequence of I/O faults, \<open>Append\<close> only ever adds a prefix of the record's
  bytes to the file; when it reports success the whole record is there, and after a
  successful durable append the whole file is on stable storage.
\<close>

theorem append_outcome:
  assumes "wal_Append g r d w = (res, w')"
  shows "(\<exists>k. w_file w' = w_file w @ take k (enc_bytes g r))
    \<and> (\<forall>s. res = Ok s \<longrightarrow> w_file w' = w_file w @ enc_bytes g r \<and> w_seq w' = w_seq w + 1 \<and> s = w_seq w'
          \<and> w_synced w' = (if d then length (w_file w') else w_synced w))"
  by (rule wal_Append_outcome [OF assms])

theorem append_outcome_witness:
  "wal_Append sample_gob (empty_rec RecCommit 7) True (empty_wal [IoFail 3])
     = (Err ErrIO, (empty_wal [])\<lparr>w_file := take 3 (enc_bytes sample_gob (empty_rec RecCommit 7)), w_sticky := True\<rparr>)
   \<and> (\<exists>k. w_file ((empty_wal [])\<lparr>w_file := take 3 (enc_bytes sample_gob (empty_rec RecCommit 7)), w_sticky := True\<rparr>)
          = take k (enc_bytes sample_gob (empty_rec RecCommit 7)))"
proof -
  have *: "wal_Append sample_gob (empty_rec RecCommit 7) True (empty_wal [IoFail 3])
     = (Err ErrIO, (empty_wal [])\<lparr>w_file := take 3 (enc_bytes sample_gob (empty_rec RecCommit 7)), w_sticky := True\<rparr>)"
    by (simp add: wal_Append_def encodable_Ok encodable_mark empty_wal_def write_flush_def take_io_def)
  show ?thesis using * append_outcome [OF *] by (simp add: empty_wal_def)
qed

text \<open>
  C23: durability of a record: once a durable append onto a well-formed log has
  succeeded, every state a crash can leave the file in is read back with that record
  at the end and all earlier records before it.
\<close>

theorem append_durable:
  assumes "gob_ok g" and "list_all (encodable g) (rs @ [r])"
    and "w_file w = log_bytes g rs"
    and "wal_Append g r True w = (Ok s, w')"
    and "crash_image w' bs"
  shows "ReadRecords g bs 0 = (rs @ [r], int (length bs))"
proof -
  have "w_file w' = w_file w @ enc_bytes g r" "w_synced w' = length (w_file w')"
    using wal_Append_outcome [OF assms(4)] by auto
  with assms(3,5) have "bs = log_bytes g (rs @ [r])"
    by (auto simp: crash_image_def)
  then show ?thesis using ReadRecords_log [OF assms(1,2), of 0] by simp
qed

theorem append_durable_witness:
  "\<exists>w'. wal_Append sample_gob (empty_rec RecCommit 7) True (empty_wal []) = (Ok 1, w')
     \<and> ReadRecords sample_gob (w_file w') 0 = ([empty_rec RecCommit 7], int (length (w_file w')))"
proof -
  have "io_clean (empty_wal [])" by (simp add: io_clean_def empty_wal_def)
  from wal_Append_clean [OF this, of sample_gob "empty_rec RecCommit 7" True]
  obtain w' where w': "wal_Append sample_gob (empty_rec RecCommit 7) True (empty_wal []) = (Ok 1, w')"
    by (simp add: encodable_mark empty_wal_def)
  moreover have "crash_image w' (w_file w')"
    using wal_Append_outcome [OF w'] by (auto simp: crash_image_def)
  ultimately show ?thesis
    using append_durable [of sample_gob "[]" "empty_rec RecCommit 7" "empty_wal []" 1 w' "w_file w'"]
    by (simp add: gob_ok_sample encodable_mark empty_wal_def)
qed

text \<open>
  C30: the writer does not enforce the bound of the reader. A record whose payload is
  larger than \<open>maxPayload\<close> (64 MiB) is encoded, but reading it back stops in front of it,
  so it and every record after it are lost at the next start.
\<close>

theorem oversized_record_unreadable:
  assumes "encode_payload g r = Ok p" and "maxPayload < int (length p)" and "length p < 2 ^ 32"
  shows "encodeRecord g r = Ok (enc_bytes g r) \<and> ReadRecords g (enc_bytes g r @ rest) off = ([], off)"
proof -
  have e: "enc_bytes g r = encode_header r p @ p @ le32 (crc32 (encode_header r p @ p))"
    by (simp add: enc_bytes_def encodeRecord_def assms(1) Let_def)
  have "uint (word_of_nat (length p) :: uint32) = int (length p)"
    using assms(3) by (simp add: unsigned_of_nat take_bit_nat_eq_self_iff)
  then have "uint (un_le32 (drop 9 (encode_header r p))) = int (length p)"
    by (simp add: header_parts)
  then have "ReadRecords g (enc_bytes g r @ rest) off = ([], off)"
    using assms(2) by (subst ReadRecords_header) (auto simp: e)
  then show ?thesis by (simp add: enc_bytes_def encodeRecord_def assms(1) Let_def)
qed

theorem oversized_record_unreadable_witness:
  "\<exists>r p. encode_payload sample_gob r = Ok p \<and> maxPayload < int (length p) \<and> length p < 2 ^ 32
     \<and> encodeRecord sample_gob r = Ok (enc_bytes sample_gob r)
     \<and> ReadRecords sample_gob (enc_bytes sample_gob r @ []) 0 = ([], 0)"
proof -
  obtain n :: nat where n: "n = 2 ^ 26" by simp
  define r where "r = (empty_rec RecPut 1)\<lparr>rec_vals := [VText (replicate n CHR ''a'')]\<rparr>"
  obtain p where p: "encode_payload sample_gob r = Ok p" "length p = 2 * n + 16"
    by (simp add: encode_payload_def r_def empty_rec_def sample_gob_def length_enc_string)
  have "maxPayload < int (length p)" "length p < 2 ^ 32" by (simp_all add: p(2) maxPayload_def n)
  with p oversized_record_unreadable [of sample_gob r p "[]" 0] show ?thesis by blast
qed

end
