(* ===== verification/Table.thy ===== *)
theory Table
  imports Wal
begin

text \<open>
  The in-memory table of \<open>internal/storage/engine.go\<close> (\<open>type Table\<close>) and its UNIQUE
  secondary index: \<open>uniqCols\<close>, \<open>uniqKey\<close>, \<open>initUniq\<close>, \<open>buildUniqLocked\<close>,
  \<open>setRowKeysLocked\<close> and \<open>removeRowKeysLocked\<close>.

  \<open>tab_wf\<close> is the invariant of a table: the index has one map per UNIQUE column, and a
  key leads to a row id exactly when that row holds a non-NULL value with that key.
  Since a map has one value per key, it also says that no two rows share a key. The
  lemmas show that storing a row that does not clash, deleting a row, rebuilding the
  index, and applying a whole transaction keep it.
\<close>

section \<open>The table and its index\<close>

type_synonym rows = "(int64, row) fmap"
type_synonym uindex = "(nat, (string, int64) fmap) fmap"

record table =
  t_id :: uint32
  t_name :: string
  t_cols :: "column list"
  t_rows :: rows
  t_nextID :: int64
  t_uniq :: uindex

definition uniqCols_of :: "column list \<Rightarrow> nat list" where
  "uniqCols_of cols = filter (\<lambda>i. col_unique (cols ! i)) [0..<length cols]"

definition uniqCols :: "table \<Rightarrow> nat list" where
  "uniqCols t = uniqCols_of (t_cols t)"

fun uniqKey :: "val \<Rightarrow> string" where
  "uniqKey (VInt i) = ''i'' @ format_int i"
| "uniqKey (VFloat f) = ''f'' @ format_float f"
| "uniqKey (VText s) = ''s'' @ s"
| "uniqKey (VBool b) = (if b then ''b1'' else ''b0'')"
| "uniqKey (VTime t) = ''t'' @ format_rfc3339nano t"
| "uniqKey VNull = ''n''"

definition initUniq :: "table \<Rightarrow> table" where
  "initUniq t = t\<lparr>t_uniq := fold (\<lambda>ci u. fmupd ci fmempty u) (uniqCols t) fmempty\<rparr>"

text \<open>The map of one column; a column without one reads as an empty map.\<close>

definition u_at :: "uindex \<Rightarrow> nat \<Rightarrow> (string, int64) fmap" where
  "u_at u ci = (case fmlookup u ci of Some m \<Rightarrow> m | None \<Rightarrow> fmempty)"

definition set_key :: "int64 \<Rightarrow> row \<Rightarrow> nat \<Rightarrow> uindex \<Rightarrow> uindex" where
  "set_key rowID row ci u =
     (let v = row ! ci in
      if IsNull v then u else fmupd ci (fmupd (uniqKey v) rowID (u_at u ci)) u)"

definition setRowKeysLocked :: "int64 \<Rightarrow> row \<Rightarrow> table \<Rightarrow> table" where
  "setRowKeysLocked rowID row t = t\<lparr>t_uniq := fold (set_key rowID row) (uniqCols t) (t_uniq t)\<rparr>"

definition remove_key :: "int64 \<Rightarrow> row \<Rightarrow> nat \<Rightarrow> uindex \<Rightarrow> uindex" where
  "remove_key rowID row ci u =
     (let v = row ! ci; k = uniqKey v in
      if IsNull v then u
      else if fmlookup (u_at u ci) k = Some rowID then fmupd ci (fmdrop k (u_at u ci)) u
      else u)"

definition removeRowKeysLocked :: "int64 \<Rightarrow> row \<Rightarrow> table \<Rightarrow> table" where
  "removeRowKeysLocked rowID row t = t\<lparr>t_uniq := fold (remove_key rowID row) (uniqCols t) (t_uniq t)\<rparr>"

definition buildUniqLocked :: "table \<Rightarrow> table" where
  "buildUniqLocked t =
     fold (\<lambda>id t. setRowKeysLocked id (the (fmlookup (t_rows t) id)) t) (fmkeys (t_rows t)) (initUniq t)"

text \<open>
  The statements the write paths share: replace the row and re-index it
  (\<open>put\<close>, \<open>applyRecord\<close>, \<open>applyPut\<close>), and remove a row with its keys (\<open>Delete\<close>,
  \<open>applyRecord\<close>, \<open>applyDelete\<close>).
\<close>

definition store_row :: "int64 \<Rightarrow> row \<Rightarrow> table \<Rightarrow> table" where
  "store_row rowID row t =
     (let t = (case fmlookup (t_rows t) rowID of Some old \<Rightarrow> removeRowKeysLocked rowID old t | None \<Rightarrow> t);
          t = t\<lparr>t_rows := fmupd rowID row (t_rows t)\<rparr>
      in setRowKeysLocked rowID row t)"

definition drop_row :: "int64 \<Rightarrow> table \<Rightarrow> table" where
  "drop_row rowID t =
     (case fmlookup (t_rows t) rowID of
        None \<Rightarrow> t
      | Some old \<Rightarrow> (let t = removeRowKeysLocked rowID old t in t\<lparr>t_rows := fmdrop rowID (t_rows t)\<rparr>))"

text \<open>
  Reading \<open>row[ci]\<close> for a UNIQUE column beyond the end of the row panics;
  \<open>covers\<close> says that this does not happen.
\<close>

definition covers :: "column list \<Rightarrow> row \<Rightarrow> bool" where
  "covers cols row \<longleftrightarrow> list_all (\<lambda>ci. ci < length row) (uniqCols_of cols)"

text \<open>\<open>if rowID >= t.nextID { t.nextID = rowID + 1 }\<close>\<close>

definition bump_nextID :: "int64 \<Rightarrow> table \<Rightarrow> table" where
  "bump_nextID rowID t = (if rowID \<ge> t_nextID t then t\<lparr>t_nextID := wrap64 (rowID + 1)\<rparr> else t)"

section \<open>The invariant\<close>

definition has_key :: "rows \<Rightarrow> nat \<Rightarrow> string \<Rightarrow> int64 \<Rightarrow> bool" where
  "has_key m ci k rowID \<longleftrightarrow> (case fmlookup m rowID of
     None \<Rightarrow> False | Some row \<Rightarrow> \<not> IsNull (row ! ci) \<and> uniqKey (row ! ci) = k)"

definition index_sound :: "table \<Rightarrow> bool" where
  "index_sound t \<longleftrightarrow> (\<forall>ci \<in> set (uniqCols t). \<forall>k id.
     fmlookup (u_at (t_uniq t) ci) k = Some id \<longrightarrow> has_key (t_rows t) ci k id)"

definition index_complete :: "int64 set \<Rightarrow> table \<Rightarrow> bool" where
  "index_complete ids t \<longleftrightarrow> (\<forall>ci \<in> set (uniqCols t). \<forall>k. \<forall>id \<in> ids.
     has_key (t_rows t) ci k id \<longrightarrow> fmlookup (u_at (t_uniq t) ci) k = Some id)"

definition index_shape :: "table \<Rightarrow> bool" where
  "index_shape t \<longleftrightarrow> fmdom' (t_uniq t) = set (uniqCols t)
     \<and> (\<forall>id row. fmlookup (t_rows t) id = Some row \<longrightarrow> covers (t_cols t) row)"

definition tab_wf :: "table \<Rightarrow> bool" where
  "tab_wf t \<longleftrightarrow> index_shape t \<and> index_sound t \<and> index_complete UNIV t"

text \<open>No other row of \<open>m\<close> holds a key that \<open>row\<close> holds.\<close>

definition clash_free :: "column list \<Rightarrow> rows \<Rightarrow> int64 \<Rightarrow> row \<Rightarrow> bool" where
  "clash_free cols m rowID row \<longleftrightarrow> (\<forall>ci \<in> set (uniqCols_of cols). \<not> IsNull (row ! ci) \<longrightarrow>
     (\<forall>id. has_key m ci (uniqKey (row ! ci)) id \<longrightarrow> id = rowID))"

section \<open>Lookups in the index\<close>

lemma distinct_uniqCols [simp]: "distinct (uniqCols_of cols)"
  by (simp add: uniqCols_of_def)

lemma uniqCols_less: "ci \<in> set (uniqCols_of cols) \<Longrightarrow> ci < length cols"
  by (simp add: uniqCols_of_def)

lemma covers_length: "length row = length cols \<Longrightarrow> covers cols row"
  by (auto simp: covers_def list_all_iff dest: uniqCols_less)

lemma table_ops_fields [simp]:
  "t_cols (setRowKeysLocked rid row t) = t_cols t" "t_rows (setRowKeysLocked rid row t) = t_rows t"
  "t_id (setRowKeysLocked rid row t) = t_id t" "t_name (setRowKeysLocked rid row t) = t_name t"
  "t_nextID (setRowKeysLocked rid row t) = t_nextID t"
  "t_cols (removeRowKeysLocked rid row t) = t_cols t" "t_rows (removeRowKeysLocked rid row t) = t_rows t"
  "t_id (removeRowKeysLocked rid row t) = t_id t" "t_name (removeRowKeysLocked rid row t) = t_name t"
  "t_nextID (removeRowKeysLocked rid row t) = t_nextID t"
  by (simp_all add: setRowKeysLocked_def removeRowKeysLocked_def)

lemma store_row_fields [simp]:
  "t_cols (store_row rid row t) = t_cols t" "t_id (store_row rid row t) = t_id t"
  "t_name (store_row rid row t) = t_name t" "t_nextID (store_row rid row t) = t_nextID t"
  "t_rows (store_row rid row t) = fmupd rid row (t_rows t)"
  by (simp_all add: store_row_def Let_def split: option.split)

lemma drop_row_fields [simp]:
  "t_cols (drop_row rid t) = t_cols t" "t_id (drop_row rid t) = t_id t"
  "t_name (drop_row rid t) = t_name t" "t_nextID (drop_row rid t) = t_nextID t"
  "t_rows (drop_row rid t) = fmdrop rid (t_rows t)"
  by (auto simp: drop_row_def Let_def fmdrop_idle' fmdom'_notI split: option.split)

lemma bump_nextID_fields [simp]:
  "t_cols (bump_nextID rid t) = t_cols t" "t_id (bump_nextID rid t) = t_id t"
  "t_name (bump_nextID rid t) = t_name t" "t_rows (bump_nextID rid t) = t_rows t"
  "t_uniq (bump_nextID rid t) = t_uniq t"
  by (simp_all add: bump_nextID_def)

lemma uniqCols_ops: "t_cols t = t_cols t' \<Longrightarrow> uniqCols t = uniqCols t'"
  by (simp add: uniqCols_def)

lemma u_at_set_keys:
  "distinct cs \<Longrightarrow> u_at (fold (set_key rid row) cs u) ci =
     (if ci \<in> set cs \<and> \<not> IsNull (row ! ci) then fmupd (uniqKey (row ! ci)) rid (u_at u ci) else u_at u ci)"
  by (induction cs arbitrary: u) (auto simp: set_key_def Let_def u_at_def)

lemma u_at_remove_keys:
  "distinct cs \<Longrightarrow> u_at (fold (remove_key rid row) cs u) ci =
     (if ci \<in> set cs \<and> \<not> IsNull (row ! ci) \<and> fmlookup (u_at u ci) (uniqKey (row ! ci)) = Some rid
      then fmdrop (uniqKey (row ! ci)) (u_at u ci) else u_at u ci)"
  by (induction cs arbitrary: u) (auto simp: remove_key_def Let_def u_at_def)

lemma fmdom_key [simp]:
  "ci \<in> fmdom' u \<Longrightarrow> fmdom' (set_key rid row ci u) = fmdom' u"
  "ci \<in> fmdom' u \<Longrightarrow> fmdom' (remove_key rid row ci u) = fmdom' u"
  by (auto simp: set_key_def remove_key_def Let_def simp del: fmdom'_lookup)

lemma fmdom_fold_keys:
  "set cs \<subseteq> fmdom' u \<Longrightarrow> fmdom' (fold (set_key rid row) cs u) = fmdom' u"
  "set cs \<subseteq> fmdom' u \<Longrightarrow> fmdom' (fold (remove_key rid row) cs u) = fmdom' u"
  by (induction cs arbitrary: u) (simp_all del: fmdom'_lookup)

lemma u_at_set:
  "u_at (t_uniq (setRowKeysLocked rid row t)) ci =
     (if ci \<in> set (uniqCols t) \<and> \<not> IsNull (row ! ci) then fmupd (uniqKey (row ! ci)) rid (u_at (t_uniq t) ci)
      else u_at (t_uniq t) ci)"
  by (simp add: setRowKeysLocked_def u_at_set_keys uniqCols_def)

lemma u_at_remove:
  "u_at (t_uniq (removeRowKeysLocked rid row t)) ci =
     (if ci \<in> set (uniqCols t) \<and> \<not> IsNull (row ! ci) \<and> fmlookup (u_at (t_uniq t) ci) (uniqKey (row ! ci)) = Some rid
      then fmdrop (uniqKey (row ! ci)) (u_at (t_uniq t) ci) else u_at (t_uniq t) ci)"
  by (simp add: removeRowKeysLocked_def u_at_remove_keys uniqCols_def)

text \<open>One key of the index after storing and after dropping a row, under a sound index.\<close>

lemma index_soundD:
  assumes "index_sound t" "ci \<in> set (uniqCols t)" "fmlookup (u_at (t_uniq t) ci) k = Some i"
  obtains row where "fmlookup (t_rows t) i = Some row" "\<not> IsNull (row ! ci)" "uniqKey (row ! ci) = k"
proof -
  have "has_key (t_rows t) ci k i" using assms by (auto simp: index_sound_def)
  then show thesis using that by (auto simp: has_key_def split: option.splits)
qed

lemma lookup_store_row:
  assumes "index_sound t" "ci \<in> set (uniqCols t)"
  shows "fmlookup (u_at (t_uniq (store_row rid row t)) ci) k =
    (if \<not> IsNull (row ! ci) \<and> uniqKey (row ! ci) = k then Some rid
     else if fmlookup (u_at (t_uniq t) ci) k = Some rid then None
     else fmlookup (u_at (t_uniq t) ci) k)"
proof (cases "fmlookup (t_rows t) rid")
  case None
  then show ?thesis
    using assms(2)
    by (auto simp: store_row_def Let_def u_at_set uniqCols_def elim: index_soundD [OF assms])
next
  case (Some old)
  then show ?thesis
    using assms(2)
    by (auto simp: store_row_def Let_def u_at_set u_at_remove uniqCols_def elim: index_soundD [OF assms])
qed

lemma lookup_drop_row:
  assumes "index_sound t" "ci \<in> set (uniqCols t)"
  shows "fmlookup (u_at (t_uniq (drop_row rid t)) ci) k =
    (if fmlookup (u_at (t_uniq t) ci) k = Some rid then None else fmlookup (u_at (t_uniq t) ci) k)"
proof (cases "fmlookup (t_rows t) rid")
  case None
  then show ?thesis by (auto simp: drop_row_def elim: index_soundD [OF assms])
next
  case (Some old)
  then show ?thesis
    using assms(2) by (auto simp: drop_row_def Let_def u_at_remove elim: index_soundD [OF assms])
qed

lemma has_key_upd:
  "has_key (fmupd rid row m) ci k i \<longleftrightarrow>
     (if i = rid then \<not> IsNull (row ! ci) \<and> uniqKey (row ! ci) = k else has_key m ci k i)"
  by (auto simp: has_key_def)

lemma has_key_drop: "has_key (fmdrop rid m) ci k i \<longleftrightarrow> i \<noteq> rid \<and> has_key m ci k i"
  by (auto simp: has_key_def)

section \<open>Preservation\<close>

lemma index_shape_store [intro]:
  "index_shape t \<Longrightarrow> covers (t_cols t) row \<Longrightarrow> index_shape (store_row rid row t)"
  by (auto simp: index_shape_def store_row_def Let_def setRowKeysLocked_def removeRowKeysLocked_def
      uniqCols_def fmdom_fold_keys split: option.splits if_splits)

lemma index_shape_drop [intro]: "index_shape t \<Longrightarrow> index_shape (drop_row rid t)"
  by (auto simp: index_shape_def drop_row_def Let_def removeRowKeysLocked_def
      uniqCols_def fmdom_fold_keys split: option.splits if_splits)

lemma index_sound_store [intro]: "index_sound t \<Longrightarrow> index_sound (store_row rid row t)"
  unfolding index_sound_def [of "store_row rid row t"]
  by (auto simp: lookup_store_row has_key_upd uniqCols_def index_sound_def split: if_splits)

lemma index_sound_drop [intro]: "index_sound t \<Longrightarrow> index_sound (drop_row rid t)"
  unfolding index_sound_def [of "drop_row rid t"]
  by (auto simp: lookup_drop_row has_key_drop uniqCols_def index_sound_def split: if_splits)

lemma index_complete_store:
  assumes "index_sound t" "index_complete (I - {rid}) t"
    and "\<And>ci i. ci \<in> set (uniqCols t) \<Longrightarrow> \<not> IsNull (row ! ci) \<Longrightarrow> i \<in> I \<Longrightarrow>
           has_key (t_rows t) ci (uniqKey (row ! ci)) i \<Longrightarrow> i = rid"
  shows "index_complete I (store_row rid row t)"
  unfolding index_complete_def
proof (intro ballI allI impI)
  fix ci k i
  assume ci: "ci \<in> set (uniqCols (store_row rid row t))" and i: "i \<in> I"
    and key: "has_key (t_rows (store_row rid row t)) ci k i"
  have ci': "ci \<in> set (uniqCols t)" using ci by (simp add: uniqCols_def)
  show "fmlookup (u_at (t_uniq (store_row rid row t)) ci) k = Some i"
  proof (cases "i = rid")
    case True
    with key show ?thesis by (simp add: lookup_store_row [OF assms(1) ci'] has_key_upd)
  next
    case False
    with key i have "has_key (t_rows t) ci k i" "i \<in> I - {rid}" by (auto simp: has_key_upd)
    with assms(2,3) ci' i False show ?thesis
      by (auto simp: lookup_store_row [OF assms(1) ci'] index_complete_def)
  qed
qed

lemma index_complete_drop:
  assumes "index_sound t" "index_complete (I - {rid}) t"
  shows "index_complete I (drop_row rid t)"
  using assms unfolding index_complete_def [of I]
  by (auto simp: lookup_drop_row has_key_drop uniqCols_def index_complete_def)

lemma index_complete_mono: "index_complete I t \<Longrightarrow> J \<subseteq> I \<Longrightarrow> index_complete J t"
  by (auto simp: index_complete_def)

lemma tab_wf_store:
  assumes "tab_wf t" "covers (t_cols t) row" "clash_free (t_cols t) (t_rows t) rid row"
  shows "tab_wf (store_row rid row t)"
  using assms unfolding tab_wf_def
  by (auto simp: clash_free_def uniqCols_def intro!: index_complete_store elim: index_complete_mono)

lemma tab_wf_drop [intro]: "tab_wf t \<Longrightarrow> tab_wf (drop_row rid t)"
  unfolding tab_wf_def by (auto intro!: index_complete_drop elim: index_complete_mono)

lemma tab_wf_cong: "t_cols t = t_cols t' \<Longrightarrow> t_rows t = t_rows t' \<Longrightarrow> t_uniq t = t_uniq t' \<Longrightarrow> tab_wf t = tab_wf t'"
  by (simp add: tab_wf_def index_shape_def index_sound_def index_complete_def uniqCols_def)

lemma index_bump [simp]:
  "index_shape (bump_nextID rid t) = index_shape t" "index_sound (bump_nextID rid t) = index_sound t"
  "index_complete I (bump_nextID rid t) = index_complete I t"
  by (simp_all add: index_shape_def index_sound_def index_complete_def uniqCols_def)

lemma tab_wf_bump [simp]: "tab_wf (bump_nextID rid t) = tab_wf t"
  by (rule tab_wf_cong) simp_all

lemma tab_wf_nextID [simp]: "tab_wf (t\<lparr>t_nextID := n\<rparr>) = tab_wf t"
  by (rule tab_wf_cong) simp_all

text \<open>The invariant determines the index.\<close>

lemma tab_wf_index_unique:
  assumes "tab_wf t" "tab_wf t'" "t_cols t = t_cols t'" "t_rows t = t_rows t'"
  shows "t_uniq t = t_uniq t'"
proof (rule fmap_ext)
  fix ci
  have "fmlookup (u_at (t_uniq t) ci) k = fmlookup (u_at (t_uniq t') ci) k" if "ci \<in> set (uniqCols t)" for k
    using assms that unfolding tab_wf_def index_sound_def index_complete_def
    by (metis UNIV_I not_None_eq uniqCols_ops)
  then have "u_at (t_uniq t) ci = u_at (t_uniq t') ci" if "ci \<in> set (uniqCols t)"
    using that by (intro fmap_ext) auto
  moreover have "fmdom' (t_uniq t) = set (uniqCols t)" "fmdom' (t_uniq t') = set (uniqCols t)"
    using assms by (auto simp: tab_wf_def index_shape_def uniqCols_def)
  ultimately show "fmlookup (t_uniq t) ci = fmlookup (t_uniq t') ci"
    by (metis (no_types, lifting) fmdom'_lookup not_None_eq option.simps(5) u_at_def)
qed


section \<open>Rebuilding the index\<close>

definition unique_rows :: "column list \<Rightarrow> rows \<Rightarrow> bool" where
  "unique_rows cols m \<longleftrightarrow> (\<forall>ci \<in> set (uniqCols_of cols). \<forall>k i j. has_key m ci k i \<longrightarrow> has_key m ci k j \<longrightarrow> i = j)"

lemma tab_wf_unique_rows: "tab_wf t \<Longrightarrow> unique_rows (t_cols t) (t_rows t)"
  by (auto simp: tab_wf_def index_complete_def unique_rows_def uniqCols_def) (metis option.inject)

lemma fmdom_initUniq: "fmdom' (fold (\<lambda>ci u. fmupd ci fmempty u) cs u) = set cs \<union> fmdom' u"
  by (induction cs arbitrary: u) (auto simp del: fmdom'_lookup)

lemma u_at_initUniq: "u_at u ci = fmempty \<Longrightarrow> u_at (fold (\<lambda>ci u. fmupd ci fmempty u) cs u) ci = fmempty"
  by (induction cs arbitrary: u) (auto simp: u_at_def)

lemma u_at_empty [simp]: "u_at fmempty ci = fmempty"
  by (simp add: u_at_def)

lemma initUniq_fields [simp]:
  "t_cols (initUniq t) = t_cols t" "t_rows (initUniq t) = t_rows t" "t_id (initUniq t) = t_id t"
  "t_name (initUniq t) = t_name t" "t_nextID (initUniq t) = t_nextID t"
  "u_at (t_uniq (initUniq t)) ci = fmempty" "fmdom' (t_uniq (initUniq t)) = set (uniqCols t)"
  by (simp_all add: initUniq_def fmdom_initUniq u_at_initUniq del: fmdom'_lookup)

lemma tab_wf_initUniq: "t_rows t = fmempty \<Longrightarrow> tab_wf (initUniq t)"
  by (simp add: tab_wf_def index_shape_def index_sound_def index_complete_def has_key_def uniqCols_def)

abbreviation index_ids :: "int64 list \<Rightarrow> table \<Rightarrow> table" where
  "index_ids ids t \<equiv> fold (\<lambda>rid t. setRowKeysLocked rid (the (fmlookup (t_rows t) rid)) t) ids t"

lemma index_ids_fields [simp]:
  "t_cols (index_ids ids t) = t_cols t" "t_rows (index_ids ids t) = t_rows t" "t_id (index_ids ids t) = t_id t"
  "t_name (index_ids ids t) = t_name t" "t_nextID (index_ids ids t) = t_nextID t"
  by (induction ids arbitrary: t) simp_all

lemma index_ids_shape:
  "fmdom' (t_uniq t) = set (uniqCols t) \<Longrightarrow> fmdom' (t_uniq (index_ids ids t)) = set (uniqCols t)"
  by (induction ids arbitrary: t)
    (simp_all add: setRowKeysLocked_def fmdom_fold_keys uniqCols_def del: fmdom'_lookup)

lemma index_ids_lookup:
  assumes "unique_rows (t_cols t) (t_rows t)" "set ids \<subseteq> fmdom' (t_rows t)" "ci \<in> set (uniqCols t)"
    and "\<And>k i. fmlookup (u_at (t_uniq t) ci) k = Some i \<longleftrightarrow> i \<in> done \<and> has_key (t_rows t) ci k i"
  shows "fmlookup (u_at (t_uniq (index_ids ids t)) ci) k = Some i \<longleftrightarrow>
    i \<in> done \<union> set ids \<and> has_key (t_rows t) ci k i"
  using assms
proof (induction ids arbitrary: t "done")
  case Nil
  then show ?case by simp
next
  case (Cons rid ids)
  let ?t = "setRowKeysLocked rid (the (fmlookup (t_rows t) rid)) t"
  have uniq: "has_key (t_rows t) ci k i \<Longrightarrow> has_key (t_rows t) ci k j \<Longrightarrow> i = j" for k i j
    using Cons.prems(1,3) by (auto simp: unique_rows_def uniqCols_def)
  obtain row where row: "fmlookup (t_rows t) rid = Some row" using Cons.prems(2) by auto
  have key: "has_key (t_rows t) ci k rid \<longleftrightarrow> \<not> IsNull (row ! ci) \<and> uniqKey (row ! ci) = k" for k
    by (simp add: has_key_def row)
  have "fmlookup (u_at (t_uniq ?t) ci) k = Some i \<longleftrightarrow> i \<in> insert rid done \<and> has_key (t_rows t) ci k i" for k i
    using Cons.prems(3,4) key [of k] uniq [of k i rid] by (auto simp: u_at_set row)
  then have "fmlookup (u_at (t_uniq (index_ids ids ?t)) ci) k = Some i \<longleftrightarrow>
      i \<in> insert rid done \<union> set ids \<and> has_key (t_rows ?t) ci k i"
    using Cons.prems by (intro Cons.IH) (simp_all add: uniqCols_def)
  then show ?case by auto
qed

lemma buildUniqLocked_fields [simp]:
  "t_cols (buildUniqLocked t) = t_cols t" "t_rows (buildUniqLocked t) = t_rows t"
  "t_id (buildUniqLocked t) = t_id t" "t_name (buildUniqLocked t) = t_name t"
  "t_nextID (buildUniqLocked t) = t_nextID t"
  by (simp_all add: buildUniqLocked_def)

lemma tab_wf_buildUniq:
  assumes "unique_rows (t_cols t) (t_rows t)"
    and "\<And>i row. fmlookup (t_rows t) i = Some row \<Longrightarrow> covers (t_cols t) row"
  shows "tab_wf (buildUniqLocked t)"
proof -
  have "fmlookup (u_at (t_uniq (buildUniqLocked t)) ci) k = Some i \<longleftrightarrow> has_key (t_rows t) ci k i"
    if "ci \<in> set (uniqCols t)" for ci k i
    using index_ids_lookup [of "initUniq t" "fmkeys (t_rows t)" ci "{}" k i] that assms(1)
    by (auto simp: buildUniqLocked_def uniqCols_def has_key_def split: option.splits)
  moreover have "fmdom' (t_uniq (buildUniqLocked t)) = set (uniqCols t)"
    unfolding buildUniqLocked_def
    by (subst index_ids_shape) (simp_all add: uniqCols_def del: fmdom'_lookup)
  ultimately show ?thesis
    using assms(2)
    by (simp add: tab_wf_def index_shape_def index_sound_def index_complete_def uniqCols_def
        del: fmdom'_lookup)
qed

section \<open>Applying a list of row operations\<close>

datatype rowop = RPut int64 row | RDel int64

fun rowop_id :: "rowop \<Rightarrow> int64" where
  "rowop_id (RPut i r) = i"
| "rowop_id (RDel i) = i"

fun rowop_rows :: "rowop \<Rightarrow> rows \<Rightarrow> rows" where
  "rowop_rows (RPut i r) m = fmupd i r m"
| "rowop_rows (RDel i) m = fmdrop i m"

fun rowop_table :: "rowop \<Rightarrow> table \<Rightarrow> table" where
  "rowop_table (RPut i r) t = bump_nextID i (store_row i r t)"
| "rowop_table (RDel i) t = drop_row i t"

lemma rowop_table_fields [simp]:
  "t_cols (rowop_table p t) = t_cols t" "t_id (rowop_table p t) = t_id t"
  "t_name (rowop_table p t) = t_name t" "t_rows (rowop_table p t) = rowop_rows p (t_rows t)"
  by (cases p; simp)+

lemma fold_rowop_fields [simp]:
  "t_cols (fold rowop_table ps t) = t_cols t" "t_id (fold rowop_table ps t) = t_id t"
  "t_name (fold rowop_table ps t) = t_name t" "t_rows (fold rowop_table ps t) = fold rowop_rows ps (t_rows t)"
  by (induction ps arbitrary: t) simp_all

lemma rows_untouched: "i \<notin> rowop_id ` set ps \<Longrightarrow> fmlookup (fold rowop_rows ps m) i = fmlookup m i"
proof (induction ps arbitrary: m)
  case (Cons p ps)
  then show ?case by (cases p) auto
qed simp

text \<open>
  The operations of a transaction may clash with each other on the way; the index is
  right at the end when no buffered row clashes with the final rows.
\<close>

lemma tab_wf_rowops_aux:
  assumes "index_shape t" "index_sound t" "index_complete (- rowop_id ` set ps) t"
    and "\<And>i r. RPut i r \<in> set ps \<Longrightarrow> covers (t_cols t) r \<and> clash_free (t_cols t) (fold rowop_rows ps (t_rows t)) i r"
  shows "tab_wf (fold rowop_table ps t)"
  using assms
proof (induction ps arbitrary: t)
  case Nil
  then show ?case by (simp add: tab_wf_def)
next
  case (Cons p ps)
  let ?F = "fold rowop_rows (p # ps) (t_rows t)"
  have same: "has_key (t_rows t) ci k i = has_key ?F ci k i" if "i \<notin> rowop_id ` set (p # ps)" for ci k i
    using rows_untouched [OF that] by (simp add: has_key_def)
  have compl: "index_complete (- rowop_id ` set ps - {rowop_id p}) t"
    using Cons.prems(3) by (rule index_complete_mono) auto
  have IH: "tab_wf (fold rowop_table ps (rowop_table p t))"
    if "index_shape (rowop_table p t)" "index_sound (rowop_table p t)"
      "index_complete (- rowop_id ` set ps) (rowop_table p t)"
    using that
  proof (rule Cons.IH)
    fix i r assume "RPut i r \<in> set ps"
    then show "covers (t_cols (rowop_table p t)) r
        \<and> clash_free (t_cols (rowop_table p t)) (fold rowop_rows ps (t_rows (rowop_table p t))) i r"
      using Cons.prems(4) [of i r] by simp
  qed
  show ?case
  proof (cases p)
    case (RPut i r)
    have "covers (t_cols t) r" "clash_free (t_cols t) ?F i r"
      using Cons.prems(4) [of i r] RPut by simp_all
    moreover have "index_complete (- rowop_id ` set ps) (store_row i r t)"
      using Cons.prems(2)
    proof (rule index_complete_store)
      show "index_complete (- rowop_id ` set ps - {i}) t" using compl RPut by simp
    next
      fix ci j
      assume ci: "ci \<in> set (uniqCols t)" and n: "\<not> IsNull (r ! ci)" and j: "j \<in> - rowop_id ` set ps"
        and key: "has_key (t_rows t) ci (uniqKey (r ! ci)) j"
      show "j = i"
      proof (rule ccontr)
        assume "j \<noteq> i"
        then have "has_key ?F ci (uniqKey (r ! ci)) j"
          using same [of j] key j RPut by simp
        with \<open>clash_free (t_cols t) ?F i r\<close> ci n \<open>j \<noteq> i\<close> show False
          by (auto simp: clash_free_def uniqCols_def)
      qed
    qed
    ultimately show ?thesis
      using IH Cons.prems(1,2) RPut
      by (simp add: index_shape_store index_sound_store index_bump)
  next
    case (RDel i)
    then show ?thesis
      using IH Cons.prems(1,2) compl
      by (simp add: index_shape_drop index_sound_drop index_complete_drop)
  qed
qed

lemma tab_wf_rowops:
  assumes "tab_wf t"
    and "\<And>i r. RPut i r \<in> set ps \<Longrightarrow> covers (t_cols t) r \<and> clash_free (t_cols t) (fold rowop_rows ps (t_rows t)) i r"
  shows "tab_wf (fold rowop_table ps t)"
  using assms by (intro tab_wf_rowops_aux) (auto simp: tab_wf_def elim: index_complete_mono)


section \<open>Keys\<close>

text \<open>
  C37: index keys are collision-free, as \<open>uniqKey\<close> claims, for NULL, integer, text and
  boolean values, and values of different kinds never share a key.
\<close>

theorem uniqKey_collision_free:
  assumes "uniqKey v = uniqKey w"
  shows "kind_of v = kind_of w \<and> (kind_of v \<in> {KindNull, KindInt, KindText, KindBool} \<longrightarrow> v = w)"
  using assms by (cases v; cases w) (auto split: if_splits)

theorem uniqKey_collision_free_witness:
  "uniqKey (VInt 1) = uniqKey (VInt 1) \<and> uniqKey (VInt 1) \<noteq> uniqKey (VText ''1'') \<and> kind_of (VInt 1) = KindInt"
  using uniqKey_collision_free [of "VInt 1" "VInt 1"] uniqKey_collision_free [of "VInt 1" "VText ''1''"]
  by auto

end
