(* ===== verification/Engine.thy ===== *)
theory Engine
  imports Table
begin

text \<open>
  \<open>internal/storage/engine.go\<close> and \<open>snapshot.go\<close>: the storage engine.

  The engine keeps two maps of pointers to tables, by name and by id. Pointers are
  addresses into \<open>heap\<close>, so a change made through one map is seen through the other,
  as in the code. Every operation takes the engine and returns its result, an error
  or a value, with the new engine. Locks do not appear: an operation is one atomic
  step of the model.

  The data directory is the set of snapshot files, the manifest and \<open>meta.json\<close>. Every
  system call on it draws its outcome from \<open>d_faults\<close>, as the log does from \<open>w_faults\<close>.
  A snapshot file holds the value that was encoded into it.
\<close>

section \<open>State\<close>

datatype storage_error =
    ErrNoTable
  | ErrExists
  | ErrNoRow
  | ErrUnique
  | ErrTxnDone
  | ErrNegativeRowID
  | ErrUpdateNeedsRowID
  | ErrArity nat string nat
  | ErrVanished string
  | ErrSchema schema_error
  | ErrWal wal_error
  | ErrDir
  | ErrCorruptCreate
  | ErrCorruptDrop
  | ErrUnknownTableID uint32
  | ErrPanic

record snapshotTable =
  st_ID :: uint32
  st_Name :: string
  st_Cols :: "column list"
  st_Rows :: rows
  st_NextID :: int64

record snapshotData =
  sd_Seq :: uint64
  sd_Tables :: "(string, snapshotTable) fmap"

record datadir =
  d_snaps :: "(uint64, snapshotData) fmap"
  d_manifest :: "uint64 option"
  d_meta :: "tabledef list"
  d_faults :: "io list"

type_synonym ptr = nat

record engine =
  e_wal :: wal
  e_dir :: datadir
  heap :: "table list"
  tables :: "(string, ptr) fmap"
  byID :: "(uint32, ptr) fmap"
  nextTableID :: uint32
  txSeq :: uint64
  sinceCheckpoint :: int64
  checkpointing :: bool

definition autoCheckpointEvery :: int64 where
  "autoCheckpointEvery = 10000"

section \<open>Files of the data directory\<close>

definition dir_io :: "datadir \<Rightarrow> bool \<times> datadir" where
  "dir_io d = (case d_faults d of
     [] \<Rightarrow> (True, d) | f # fs \<Rightarrow> (f = IoOk, d\<lparr>d_faults := fs\<rparr>))"

text \<open>\<open>n\<close> system calls in a row, the first failure ends the sequence.\<close>

fun dir_calls :: "nat \<Rightarrow> datadir \<Rightarrow> bool \<times> datadir" where
  "dir_calls 0 d = (True, d)"
| "dir_calls (Suc n) d = (case dir_io d of (ok, d) \<Rightarrow> if ok then dir_calls n d else (False, d))"

text \<open>
  \<open>WriteSnapshot\<close>: create, encode, sync and close the temporary file, then rename it to
  \<open>snapshot-<seq>.bin\<close>; on any error the temporary file is removed.
\<close>

definition WriteSnapshot :: "snapshotData \<Rightarrow> datadir \<Rightarrow> (storage_error, uint64) res \<times> datadir" where
  "WriteSnapshot sd d = (case dir_calls 5 d of
     (ok, d) \<Rightarrow> if ok then (Ok (sd_Seq sd), d\<lparr>d_snaps := fmupd (sd_Seq sd) sd (d_snaps d)\<rparr>)
                else (Err ErrDir, d))"

text \<open>\<open>writeManifest\<close>: write and sync (open, fsync) the temporary file, then rename it.\<close>

definition writeManifest :: "uint64 \<Rightarrow> datadir \<Rightarrow> (storage_error, unit) res \<times> datadir" where
  "writeManifest seq d = (case dir_calls 4 d of
     (ok, d) \<Rightarrow> if ok then (Ok (), d\<lparr>d_manifest := Some seq\<rparr>) else (Err ErrDir, d))"

text \<open>
  \<open>LoadLatestSnapshot\<close>: no manifest, or a manifest that names a missing file, yields no
  snapshot and no error.
\<close>

definition LoadLatestSnapshot :: "datadir \<Rightarrow> (storage_error, snapshotData option) res \<times> datadir" where
  "LoadLatestSnapshot d =
     (case dir_io d of
        (ok, d) \<Rightarrow>
          if \<not> ok then (Err ErrDir, d)
          else (case d_manifest d of
                  None \<Rightarrow> (Ok None, d)
                | Some seq \<Rightarrow>
                    (case fmlookup (d_snaps d) seq of
                       None \<Rightarrow> (Ok None, d)
                     | Some sd \<Rightarrow>
                         (case dir_calls 2 d of
                            (ok, d) \<Rightarrow> if ok then (Ok (Some sd), d) else (Err ErrDir, d)))))"

text \<open>
  \<open>pruneSnapshots\<close>: with more than two snapshots, all but the two with the highest
  sequence numbers are removed. Errors are ignored.
\<close>

fun remove_snaps :: "uint64 list \<Rightarrow> datadir \<Rightarrow> datadir" where
  "remove_snaps [] d = d"
| "remove_snaps (s # ss) d =
     (case dir_io d of
        (ok, d) \<Rightarrow> remove_snaps ss (if ok then d\<lparr>d_snaps := fmdrop s (d_snaps d)\<rparr> else d))"

definition prune_dir :: "datadir \<Rightarrow> datadir" where
  "prune_dir d =
     (case dir_io d of
        (ok, d) \<Rightarrow>
          if \<not> ok then d
          else let list = rev (fmkeys (d_snaps d))
               in if length list \<le> 2 then d else remove_snaps (drop 2 list) d)"

definition pruneSnapshots :: "engine \<Rightarrow> engine" where
  "pruneSnapshots e = e\<lparr>e_dir := prune_dir (e_dir e)\<rparr>"

section \<open>Catalog\<close>

definition tab_at :: "engine \<Rightarrow> string \<Rightarrow> table option" where
  "tab_at e name = map_option (\<lambda>p. heap e ! p) (fmlookup (tables e) name)"

definition set_tab :: "ptr \<Rightarrow> table \<Rightarrow> engine \<Rightarrow> engine" where
  "set_tab p t e = e\<lparr>heap := (heap e)[p := t]\<rparr>"

definition catalogLocked :: "engine \<Rightarrow> tabledef list" where
  "catalogLocked e = sort_key td_name
     (map (\<lambda>n. let t = heap e ! the (fmlookup (tables e) n) in \<lparr>td_name = t_name t, td_cols = t_cols t\<rparr>)
       (fmkeys (tables e)))"

definition Engine_Catalog :: "engine \<Rightarrow> tabledef list" where
  "Engine_Catalog e = catalogLocked e"

definition writeMetaLocked :: "engine \<Rightarrow> engine" where
  "writeMetaLocked e = (case dir_io (e_dir e) of
     (ok, d) \<Rightarrow> e\<lparr>e_dir := (if ok then d\<lparr>d_meta := catalogLocked e\<rparr> else d)\<rparr>)"

definition Engine_TableID :: "string \<Rightarrow> engine \<Rightarrow> uint32 option" where
  "Engine_TableID name e = map_option t_id (tab_at e name)"

definition addTableLocked :: "string \<Rightarrow> column list \<Rightarrow> engine \<Rightarrow> engine" where
  "addTableLocked name cols e =
     (let t = initUniq \<lparr>t_id = nextTableID e, t_name = name, t_cols = cols, t_rows = fmempty,
                        t_nextID = 1, t_uniq = fmempty\<rparr>;
          p = length (heap e)
      in e\<lparr>heap := heap e @ [t], nextTableID := nextTableID e + 1,
           tables := fmupd name p (tables e), byID := fmupd (t_id t) p (byID e)\<rparr>)"

definition dropTableLocked :: "ptr \<Rightarrow> engine \<Rightarrow> engine" where
  "dropTableLocked p e =
     (let t = heap e ! p in e\<lparr>tables := fmdrop (t_name t) (tables e), byID := fmdrop (t_id t) (byID e)\<rparr>)"

section \<open>Transactions in the log\<close>

text \<open>
  \<open>txn\<close>: a begin record, the one record every caller appends, and the commit record
  with the only fsync.
\<close>

definition Engine_txn :: "gob \<Rightarrow> (uint64 \<Rightarrow> walrec) \<Rightarrow> engine \<Rightarrow> (storage_error, unit) res \<times> engine" where
  "Engine_txn g fn e =
     (let tx = txSeq e + 1; e = e\<lparr>txSeq := tx\<rparr>
      in case wal_Append g (empty_rec RecBegin tx) False (e_wal e) of
           (Inl x, w) \<Rightarrow> (Err (ErrWal x), e\<lparr>e_wal := w\<rparr>)
         | (Inr _, w) \<Rightarrow>
             (case wal_Append g (fn tx) False w of
                (Inl x, w) \<Rightarrow> (Err (ErrWal x), e\<lparr>e_wal := w\<rparr>)
              | (Inr _, w) \<Rightarrow>
                  (case wal_Append g (empty_rec RecCommit tx) True w of
                     (Inl x, w) \<Rightarrow> (Err (ErrWal x), e\<lparr>e_wal := w\<rparr>)
                   | (Inr _, w) \<Rightarrow> (Ok (), e\<lparr>e_wal := w\<rparr>))))"

definition put_rec :: "uint32 \<Rightarrow> int64 \<Rightarrow> row \<Rightarrow> uint64 \<Rightarrow> walrec" where
  "put_rec tid rid row tx = (empty_rec RecPut tx)\<lparr>rec_table := tid, rec_row := rid, rec_vals := row\<rparr>"

definition delete_rec :: "uint32 \<Rightarrow> int64 \<Rightarrow> uint64 \<Rightarrow> walrec" where
  "delete_rec tid rid tx = (empty_rec RecDelete tx)\<lparr>rec_table := tid, rec_row := rid\<rparr>"

definition create_rec :: "string \<Rightarrow> column list \<Rightarrow> uint64 \<Rightarrow> walrec" where
  "create_rec name cols tx =
     (empty_rec RecCreate tx)\<lparr>rec_ddl := Some \<lparr>sc_create = True, sc_name = name, sc_cols = cols\<rparr>\<rparr>"

definition drop_rec :: "string \<Rightarrow> uint64 \<Rightarrow> walrec" where
  "drop_rec name tx =
     (empty_rec RecDrop tx)\<lparr>rec_ddl := Some \<lparr>sc_create = False, sc_name = name, sc_cols = []\<rparr>\<rparr>"

text \<open>
  \<open>noteWrite\<close>: at the threshold the counter restarts and, unless one is already running,
  a background checkpoint is started (\<open>checkpointing\<close>); it runs as the separate step
  \<open>background_checkpoint\<close>.
\<close>

definition noteWrite :: "engine \<Rightarrow> engine" where
  "noteWrite e =
     (let n = wrap64 (sinceCheckpoint e + 1) in
      if n \<ge> autoCheckpointEvery then e\<lparr>sinceCheckpoint := 0, checkpointing := True\<rparr>
      else e\<lparr>sinceCheckpoint := n\<rparr>)"

section \<open>Operations\<close>

definition Engine_CreateTable :: "gob \<Rightarrow> string \<Rightarrow> column list \<Rightarrow> engine \<Rightarrow> (storage_error, unit) res \<times> engine" where
  "Engine_CreateTable g name cols e =
     (case Validate \<lparr>td_name = name, td_cols = cols\<rparr> of
        Inl x \<Rightarrow> (Err (ErrSchema x), e)
      | Inr td \<Rightarrow>
          if fmlookup (tables e) name \<noteq> None then (Err ErrExists, e)
          else case Engine_txn g (create_rec name (td_cols td)) e of
                 (Inl x, e) \<Rightarrow> (Err x, e)
               | (Inr _, e) \<Rightarrow> (Ok (), writeMetaLocked (addTableLocked name (td_cols td) e)))"

definition Engine_DropTable :: "gob \<Rightarrow> string \<Rightarrow> engine \<Rightarrow> (storage_error, unit) res \<times> engine" where
  "Engine_DropTable g name e =
     (case fmlookup (tables e) name of
        None \<Rightarrow> (Err ErrNoTable, e)
      | Some p \<Rightarrow>
          (case Engine_txn g (drop_rec name) e of
             (Inl x, e) \<Rightarrow> (Err x, e)
           | (Inr _, e) \<Rightarrow> (Ok (), writeMetaLocked (dropTableLocked p e))))"

text \<open>The UNIQUE check of \<open>put\<close>: a key of the row already leads to another row id.\<close>

definition uniq_conflict :: "table \<Rightarrow> int64 \<Rightarrow> row \<Rightarrow> bool" where
  "uniq_conflict t rowID row \<longleftrightarrow> list_ex (\<lambda>ci. \<not> IsNull (row ! ci) \<and>
     (case fmlookup (u_at (t_uniq t) ci) (uniqKey (row ! ci)) of
        None \<Rightarrow> False | Some old \<Rightarrow> old \<noteq> rowID)) (uniqCols t)"

text \<open>
  The part of \<open>put\<close> that settles the row id: the id, whether the row exists, and the
  table with its counter advanced.
\<close>

definition reserve_row :: "int64 \<Rightarrow> bool \<Rightarrow> table \<Rightarrow> (storage_error, int64) res \<times> table" where
  "reserve_row rowID mustExist t =
     (let ex = (rowID \<noteq> 0 \<and> fmlookup (t_rows t) rowID \<noteq> None) in
      if rowID = 0 then
        (let rid = t_nextID t; t = t\<lparr>t_nextID := wrap64 (t_nextID t + 1)\<rparr>
         in (Ok rid, bump_nextID rid t))
      else if ex \<and> \<not> mustExist then (Err ErrExists, t)
      else if \<not> ex \<and> mustExist then (Err ErrNoRow, t)
      else (Ok rowID, if \<not> ex then bump_nextID rowID t else t))"

definition stamp :: "int \<Rightarrow> int64 \<Rightarrow> row \<Rightarrow> row" where
  "stamp pkIdx rid row = (if 0 \<le> pkIdx \<and> pkIdx < int (length row) then row[nat pkIdx := VInt rid] else row)"

definition Engine_put ::
  "gob \<Rightarrow> string \<Rightarrow> int \<Rightarrow> int64 \<Rightarrow> row \<Rightarrow> bool \<Rightarrow> engine \<Rightarrow> (storage_error, int64) res \<times> engine" where
  "Engine_put g name pkIdx rowID row mustExist e =
     (if rowID < 0 then (Err ErrNegativeRowID, e)
      else if mustExist \<and> rowID = 0 then (Err ErrUpdateNeedsRowID, e)
      else case fmlookup (tables e) name of
        None \<Rightarrow> (Err ErrNoTable, e)
      | Some p \<Rightarrow>
          (let t = heap e ! p in
           if length row \<noteq> length (t_cols t) then (Err (ErrArity (length row) name (length (t_cols t))), e)
           else case reserve_row rowID mustExist t of
             (Inl x, t) \<Rightarrow> (Err x, e)
           | (Inr rid, t) \<Rightarrow>
               (let row = stamp pkIdx rid row; e = set_tab p t e in
                if uniq_conflict t rid row then (Err ErrUnique, e)
                else case Engine_txn g (put_rec (t_id t) rid row) e of
                       (Inl x, e) \<Rightarrow> (Err x, e)
                     | (Inr _, e) \<Rightarrow> (Ok rid, noteWrite (set_tab p (store_row rid row t) e)))))"

definition Engine_Put :: "gob \<Rightarrow> string \<Rightarrow> int64 \<Rightarrow> row \<Rightarrow> engine \<Rightarrow> (storage_error, int64) res \<times> engine" where
  "Engine_Put g name rowID row e = Engine_put g name (-1) rowID row False e"

definition Engine_PutAuto :: "gob \<Rightarrow> string \<Rightarrow> int \<Rightarrow> row \<Rightarrow> engine \<Rightarrow> (storage_error, int64) res \<times> engine" where
  "Engine_PutAuto g name pkIdx row e = Engine_put g name pkIdx 0 row False e"

definition Engine_Update :: "gob \<Rightarrow> string \<Rightarrow> int64 \<Rightarrow> row \<Rightarrow> engine \<Rightarrow> (storage_error, unit) res \<times> engine" where
  "Engine_Update g name rowID row e =
     (case Engine_put g name (-1) rowID row True e of
        (Inl x, e) \<Rightarrow> (Err x, e) | (Inr _, e) \<Rightarrow> (Ok (), e))"

definition Engine_Delete :: "gob \<Rightarrow> string \<Rightarrow> int64 \<Rightarrow> engine \<Rightarrow> (storage_error, unit) res \<times> engine" where
  "Engine_Delete g name rowID e =
     (case fmlookup (tables e) name of
        None \<Rightarrow> (Err ErrNoTable, e)
      | Some p \<Rightarrow>
          (let t = heap e ! p in
           if fmlookup (t_rows t) rowID = None then (Err ErrNoRow, e)
           else case Engine_txn g (delete_rec (t_id t) rowID) e of
                  (Inl x, e) \<Rightarrow> (Err x, e)
                | (Inr _, e) \<Rightarrow> (Ok (), noteWrite (set_tab p (drop_row rowID t) e))))"

definition Engine_Get :: "string \<Rightarrow> int64 \<Rightarrow> engine \<Rightarrow> row option" where
  "Engine_Get name rowID e = (case tab_at e name of None \<Rightarrow> None | Some t \<Rightarrow> fmlookup (t_rows t) rowID)"

definition rows_list :: "rows \<Rightarrow> int64 list \<times> row list" where
  "rows_list m = (let ids = fmkeys m in (ids, map (\<lambda>i. the (fmlookup m i)) ids))"

definition Engine_AllRows :: "string \<Rightarrow> engine \<Rightarrow> (storage_error, int64 list \<times> row list) res" where
  "Engine_AllRows name e = (case tab_at e name of
     None \<Rightarrow> Err ErrNoTable | Some t \<Rightarrow> Ok (rows_list (t_rows t)))"

definition Engine_UniqueGet :: "string \<Rightarrow> nat \<Rightarrow> val \<Rightarrow> engine \<Rightarrow> int64 option" where
  "Engine_UniqueGet name colIdx v e = (case tab_at e name of
     None \<Rightarrow> None
   | Some t \<Rightarrow> if IsNull v then None
               else (case fmlookup (t_uniq t) colIdx of
                       None \<Rightarrow> None | Some m \<Rightarrow> fmlookup m (uniqKey v)))"

definition Engine_ReserveID :: "string \<Rightarrow> engine \<Rightarrow> (storage_error, int64) res \<times> engine" where
  "Engine_ReserveID name e = (case fmlookup (tables e) name of
     None \<Rightarrow> (Err ErrNoTable, e)
   | Some p \<Rightarrow> (let t = heap e ! p in
       (Ok (t_nextID t), set_tab p (t\<lparr>t_nextID := wrap64 (t_nextID t + 1)\<rparr>) e)))"

definition Engine_applyPut :: "string \<Rightarrow> int64 \<Rightarrow> row \<Rightarrow> engine \<Rightarrow> (storage_error, unit) res \<times> engine" where
  "Engine_applyPut name rowID row e = (case fmlookup (tables e) name of
     None \<Rightarrow> (Err ErrNoTable, e)
   | Some p \<Rightarrow>
       (let t = heap e ! p in
        if \<not> covers (t_cols t) row then (Err ErrPanic, e)
        else (Ok (), set_tab p (bump_nextID rowID (store_row rowID row t)) e)))"

definition Engine_applyDelete :: "string \<Rightarrow> int64 \<Rightarrow> engine \<Rightarrow> (storage_error, unit) res \<times> engine" where
  "Engine_applyDelete name rowID e = (case fmlookup (tables e) name of
     None \<Rightarrow> (Err ErrNoTable, e)
   | Some p \<Rightarrow> (Ok (), set_tab p (drop_row rowID (heap e ! p)) e))"

section \<open>Checkpoints\<close>

definition snapshot_of :: "engine \<Rightarrow> snapshotData" where
  "snapshot_of e = \<lparr>sd_Seq = w_seq (e_wal e),
     sd_Tables = fmmap_keys (\<lambda>name p. let t = heap e ! p in
       \<lparr>st_ID = t_id t, st_Name = name, st_Cols = t_cols t, st_Rows = t_rows t, st_NextID = t_nextID t\<rparr>)
       (tables e)\<rparr>"

definition Engine_Checkpoint :: "engine \<Rightarrow> (storage_error, unit) res \<times> engine" where
  "Engine_Checkpoint e =
     (case WriteSnapshot (snapshot_of e) (e_dir e) of
        (Inl x, d) \<Rightarrow> (Err x, e\<lparr>e_dir := d\<rparr>)
      | (Inr seq, d) \<Rightarrow>
          (case writeManifest seq d of
             (Inl x, d) \<Rightarrow> (Err x, e\<lparr>e_dir := d\<rparr>)
           | (Inr _, d) \<Rightarrow>
               (case wal_Truncate (e_wal e) of
                  (Inl x, w) \<Rightarrow> (Err (ErrWal x), e\<lparr>e_dir := d, e_wal := w\<rparr>)
                | (Inr _, w) \<Rightarrow>
                    (Ok (), pruneSnapshots (e\<lparr>e_dir := d, e_wal := w, sinceCheckpoint := 0\<rparr>)))))"

text \<open>The goroutine started by \<open>noteWrite\<close>.\<close>

definition background_checkpoint :: "engine \<Rightarrow> engine" where
  "background_checkpoint e = (snd (Engine_Checkpoint e))\<lparr>checkpointing := False\<rparr>"

definition Engine_Abort :: "engine \<Rightarrow> (storage_error, unit) res \<times> engine" where
  "Engine_Abort e = (case wal_Close (e_wal e) of
     (Inl x, w) \<Rightarrow> (Err (ErrWal x), e\<lparr>e_wal := w\<rparr>) | (Inr _, w) \<Rightarrow> (Ok (), e\<lparr>e_wal := w\<rparr>))"

definition Engine_Close :: "engine \<Rightarrow> (storage_error, unit) res \<times> engine" where
  "Engine_Close e = (case Engine_Checkpoint e of
     (Inl x, e) \<Rightarrow> (Err x, e) | (Inr _, e) \<Rightarrow> Engine_Abort e)"

section \<open>Recovery\<close>

text \<open>
  \<open>applyRecord\<close>. A row too short for the UNIQUE columns of its table makes the index
  update panic.
\<close>

definition applyRecord :: "walrec \<Rightarrow> engine \<Rightarrow> (storage_error, engine) res" where
  "applyRecord r e =
     (if rec_type r = RecCreate then
        (case rec_ddl r of
           None \<Rightarrow> Err ErrCorruptCreate
         | Some sc \<Rightarrow> if fmlookup (tables e) (sc_name sc) \<noteq> None then Ok e
                      else Ok (addTableLocked (sc_name sc) (sc_cols sc) e))
      else if rec_type r = RecDrop then
        (case rec_ddl r of
           None \<Rightarrow> Err ErrCorruptDrop
         | Some sc \<Rightarrow> (case fmlookup (tables e) (sc_name sc) of
                         None \<Rightarrow> Ok e | Some p \<Rightarrow> Ok (dropTableLocked p e)))
      else if rec_type r = RecPut then
        (case fmlookup (byID e) (rec_table r) of
           None \<Rightarrow> Err (ErrUnknownTableID (rec_table r))
         | Some p \<Rightarrow>
             if \<not> covers (t_cols (heap e ! p)) (rec_vals r) then Err ErrPanic
             else Ok (set_tab p (bump_nextID (rec_row r) (store_row (rec_row r) (rec_vals r) (heap e ! p))) e))
      else if rec_type r = RecDelete then
        (case fmlookup (byID e) (rec_table r) of
           None \<Rightarrow> Err (ErrUnknownTableID (rec_table r))
         | Some p \<Rightarrow> Ok (set_tab p (drop_row (rec_row r) (heap e ! p)) e))
      else Ok e)"

fun apply_all :: "walrec list \<Rightarrow> engine \<Rightarrow> (storage_error, engine) res" where
  "apply_all [] e = Ok e"
| "apply_all (r # rs) e = (case applyRecord r e of Inl x \<Rightarrow> Err x | Inr e \<Rightarrow> apply_all rs e)"

type_synonym pending = "uint64 \<Rightarrow> walrec list"

definition applyPendingLocked :: "pending \<Rightarrow> uint64 \<Rightarrow> engine \<Rightarrow> (storage_error, pending \<times> engine) res" where
  "applyPendingLocked pending tx e =
     (case apply_all (pending tx) e of Inl x \<Rightarrow> Err x | Inr e \<Rightarrow> Ok (pending(tx := []), e))"

text \<open>The replay loop of \<open>Open\<close>.\<close>

fun replay :: "pending \<Rightarrow> walrec list \<Rightarrow> engine \<Rightarrow> (storage_error, pending \<times> engine) res" where
  "replay pending [] e = Ok (pending, e)"
| "replay pending (r # rs) e =
     (if rec_type r = RecBegin then replay pending rs e
      else if rec_type r = RecCommit then
        (case applyPendingLocked pending (rec_txn r) e of
           Inl x \<Rightarrow> Err x | Inr (pending, e) \<Rightarrow> replay pending rs e)
      else replay (pending(rec_txn r := pending (rec_txn r) @ [r])) rs e)"

definition load_table :: "string \<Rightarrow> snapshotTable \<Rightarrow> engine \<Rightarrow> engine" where
  "load_table name st e =
     (let t = buildUniqLocked (initUniq \<lparr>t_id = st_ID st, t_name = st_Name st, t_cols = st_Cols st,
                t_rows = st_Rows st, t_nextID = st_NextID st, t_uniq = fmempty\<rparr>);
          p = length (heap e)
      in e\<lparr>heap := heap e @ [t], tables := fmupd name p (tables e), byID := fmupd (t_id t) p (byID e),
           nextTableID := (if st_ID st \<ge> nextTableID e then st_ID st + 1 else nextTableID e)\<rparr>)"

text \<open>
  The loop over the tables of the snapshot, in key order; Go leaves the order open, and
  for tables with different ids it only decides their addresses.
\<close>

definition load_snapshot :: "snapshotData \<Rightarrow> engine \<Rightarrow> engine" where
  "load_snapshot sd e =
     fold (\<lambda>name e. load_table name (the (fmlookup (sd_Tables sd) name)) e) (fmkeys (sd_Tables sd)) e"

definition snapshot_panics :: "snapshotData \<Rightarrow> bool" where
  "snapshot_panics sd \<longleftrightarrow> list_ex (\<lambda>name. let st = the (fmlookup (sd_Tables sd) name) in
     list_ex (\<lambda>i. \<not> covers (st_Cols st) (the (fmlookup (st_Rows st) i))) (fmkeys (st_Rows st)))
     (fmkeys (sd_Tables sd))"

definition fresh_engine :: "wal \<Rightarrow> datadir \<Rightarrow> engine" where
  "fresh_engine w d = \<lparr>e_wal = w, e_dir = d, heap = [], tables = fmempty, byID = fmempty,
     nextTableID = 0, txSeq = 0, sinceCheckpoint = 0, checkpointing = False\<rparr>"

text \<open>
  \<open>Open\<close> on what is found on disk: the bytes of \<open>wal.log\<close> (empty when the file is
  new) and the data directory.
\<close>

definition Engine_Open :: "gob \<Rightarrow> byte list \<Rightarrow> io list \<Rightarrow> datadir \<Rightarrow> (storage_error, engine) res" where
  "Engine_Open g bs wfaults d =
     (case dir_io d of
        (ok, d) \<Rightarrow>
          if \<not> ok then Err ErrDir
          else case OpenWAL g bs wfaults of
            Inl x \<Rightarrow> Err (ErrWal x)
          | Inr (w, recs) \<Rightarrow>
              (case LoadLatestSnapshot d of
                 (Inl x, d) \<Rightarrow> Err x
               | (Inr snap, d) \<Rightarrow>
                   if (case snap of None \<Rightarrow> False | Some sd \<Rightarrow> snapshot_panics sd) then Err ErrPanic
                   else let e = fresh_engine w d;
                            e = (case snap of None \<Rightarrow> e | Some sd \<Rightarrow> load_snapshot sd e)
                        in case replay (\<lambda>_. []) recs e of
                             Inl x \<Rightarrow> Err x | Inr (pending, e) \<Rightarrow> Ok e))"

section \<open>The invariant and the abstract database\<close>

text \<open>
  \<open>eng_wf\<close>: the two maps agree with each other and with the tables they point to, every
  table satisfies its invariant, and no table has an id that is still to be assigned.
\<close>

definition eng_wf :: "engine \<Rightarrow> bool" where
  "eng_wf e \<longleftrightarrow>
     (\<forall>n p. fmlookup (tables e) n = Some p \<longrightarrow> p < length (heap e) \<and> t_name (heap e ! p) = n
        \<and> fmlookup (byID e) (t_id (heap e ! p)) = Some p \<and> tab_wf (heap e ! p)
        \<and> t_id (heap e ! p) < nextTableID e)
   \<and> (\<forall>i p. fmlookup (byID e) i = Some p \<longrightarrow> p < length (heap e) \<and> t_id (heap e ! p) = i
        \<and> fmlookup (tables e) (t_name (heap e ! p)) = Some p)"

text \<open>
  The abstract database: the id, the columns and the rows of each table. Counters,
  indexes and addresses are not part of it.
\<close>

type_synonym tabv = "uint32 \<times> column list \<times> rows"
type_synonym db = "string \<Rightarrow> tabv option"

definition abs_t :: "table \<Rightarrow> tabv" where
  "abs_t t = (t_id t, t_cols t, t_rows t)"

definition db_of :: "engine \<Rightarrow> db" where
  "db_of e = (\<lambda>n. map_option abs_t (tab_at e n))"

definition db_upd :: "string \<Rightarrow> (rows \<Rightarrow> rows) \<Rightarrow> db \<Rightarrow> db" where
  "db_upd n f d = d(n := map_option (\<lambda>(i, c, r). (i, c, f r)) (d n))"

definition same_tables :: "engine \<Rightarrow> engine \<Rightarrow> bool" where
  "same_tables e e' \<longleftrightarrow> heap e' = heap e \<and> tables e' = tables e \<and> byID e' = byID e
     \<and> nextTableID e' = nextTableID e"

lemma same_tables_refl [simp]: "same_tables e e"
  by (simp add: same_tables_def)

lemma same_tables_trans: "same_tables e e' \<Longrightarrow> same_tables e' e'' \<Longrightarrow> same_tables e e''"
  by (simp add: same_tables_def)

lemma same_tables_wf: "same_tables e e' \<Longrightarrow> eng_wf e' = eng_wf e"
  by (simp add: same_tables_def eng_wf_def)

lemma same_tables_db: "same_tables e e' \<Longrightarrow> db_of e' = db_of e"
  by (simp add: same_tables_def db_of_def tab_at_def)

lemma eng_wf_tabD:
  assumes "eng_wf e" "fmlookup (tables e) n = Some p"
  shows "p < length (heap e)" "t_name (heap e ! p) = n" "fmlookup (byID e) (t_id (heap e ! p)) = Some p"
    "tab_wf (heap e ! p)" "t_id (heap e ! p) < nextTableID e"
  using assms by (auto simp: eng_wf_def)

lemma eng_wf_idD:
  assumes "eng_wf e" "fmlookup (byID e) i = Some p"
  shows "p < length (heap e)" "t_id (heap e ! p) = i" "fmlookup (tables e) (t_name (heap e ! p)) = Some p"
  using assms by (auto simp: eng_wf_def)

lemma eng_wfI:
  assumes "\<And>n p. fmlookup (tables e) n = Some p \<Longrightarrow> p < length (heap e) \<and> t_name (heap e ! p) = n
        \<and> fmlookup (byID e) (t_id (heap e ! p)) = Some p \<and> tab_wf (heap e ! p) \<and> t_id (heap e ! p) < nextTableID e"
    and "\<And>i p. fmlookup (byID e) i = Some p \<Longrightarrow> p < length (heap e) \<and> t_id (heap e ! p) = i
        \<and> fmlookup (tables e) (t_name (heap e ! p)) = Some p"
  shows "eng_wf e"
  using assms unfolding eng_wf_def by blast

lemma eng_wf_inj:
  assumes "eng_wf e" "fmlookup (tables e) n = Some p" "fmlookup (tables e) n' = Some p"
  shows "n = n'"
  using eng_wf_tabD(2) [OF assms(1,2)] eng_wf_tabD(2) [OF assms(1,3)] by simp

lemma set_tab_simps [simp]:
  "tables (set_tab p t e) = tables e" "byID (set_tab p t e) = byID e"
  "nextTableID (set_tab p t e) = nextTableID e" "e_wal (set_tab p t e) = e_wal e"
  "e_dir (set_tab p t e) = e_dir e" "txSeq (set_tab p t e) = txSeq e"
  "heap (set_tab p t e) = (heap e)[p := t]"
  by (simp_all add: set_tab_def)

lemma eng_wf_set_tab:
  assumes "eng_wf e" "fmlookup (tables e) n = Some p"
    and "t_id t = t_id (heap e ! p)" "t_name t = t_name (heap e ! p)" "tab_wf t"
  shows "eng_wf (set_tab p t e)"
proof -
  have upd: "(heap e)[p := t] ! q = (if q = p then t else heap e ! q)" for q
    using eng_wf_tabD(1) [OF assms(1,2)] by simp
  have eq: "t_id ((heap e)[p := t] ! q) = t_id (heap e ! q)" "t_name ((heap e)[p := t] ! q) = t_name (heap e ! q)" for q
    using assms(3,4) by (simp_all add: upd)
  have wf: "tab_wf ((heap e)[p := t] ! q)" if "tab_wf (heap e ! q)" for q
    using assms(5) that by (simp add: upd)
  show ?thesis
  proof (rule eng_wfI)
    fix m q assume "fmlookup (tables (set_tab p t e)) m = Some q"
    then have m: "fmlookup (tables e) m = Some q" by simp
    show "q < length (heap (set_tab p t e)) \<and> t_name (heap (set_tab p t e) ! q) = m
        \<and> fmlookup (byID (set_tab p t e)) (t_id (heap (set_tab p t e) ! q)) = Some q
        \<and> tab_wf (heap (set_tab p t e) ! q) \<and> t_id (heap (set_tab p t e) ! q) < nextTableID (set_tab p t e)"
      using eng_wf_tabD [OF assms(1) m] wf by (simp add: eq)
  next
    fix i q assume "fmlookup (byID (set_tab p t e)) i = Some q"
    then have i: "fmlookup (byID e) i = Some q" by simp
    show "q < length (heap (set_tab p t e)) \<and> t_id (heap (set_tab p t e) ! q) = i
        \<and> fmlookup (tables (set_tab p t e)) (t_name (heap (set_tab p t e) ! q)) = Some q"
      using eng_wf_idD [OF assms(1) i] by (simp add: eq)
  qed
qed

lemma db_set_tab:
  assumes "eng_wf e" "fmlookup (tables e) n = Some p" "abs_t t = (t_id (heap e ! p), t_cols (heap e ! p), f (t_rows (heap e ! p)))"
  shows "db_of (set_tab p t e) = db_upd n f (db_of e)"
proof
  fix m
  show "db_of (set_tab p t e) m = db_upd n f (db_of e) m"
  proof (cases "m = n")
    case True
    with assms eng_wf_tabD(1) [OF assms(1,2)] show ?thesis
      by (simp add: db_of_def db_upd_def tab_at_def) (simp add: abs_t_def)
  next
    case False
    then have "fmlookup (tables e) m \<noteq> Some p" using eng_wf_inj [OF assms(1,2), of m] by auto
    then show ?thesis
      using False by (cases "fmlookup (tables e) m") (auto simp: db_of_def db_upd_def tab_at_def)
  qed
qed

lemma db_upd_id: "(\<And>i c r. d n = Some (i, c, r) \<Longrightarrow> f r = r) \<Longrightarrow> db_upd n f d = d"
  by (auto simp: db_upd_def fun_eq_iff map_option_case split: option.split)

lemma db_set_tab_same:
  assumes "eng_wf e" "fmlookup (tables e) n = Some p" "abs_t t = abs_t (heap e ! p)"
  shows "db_of (set_tab p t e) = db_of e"
  using db_set_tab [OF assms(1,2), of t "\<lambda>r. r"] assms(3) by (simp add: db_upd_id abs_t_def)

section \<open>Catalog changes\<close>

lemma addTableLocked_simps [simp]:
  "e_wal (addTableLocked n c e) = e_wal e" "e_dir (addTableLocked n c e) = e_dir e"
  "txSeq (addTableLocked n c e) = txSeq e" "nextTableID (addTableLocked n c e) = nextTableID e + 1"
  by (simp_all add: addTableLocked_def Let_def)

lemma word_less_inc: "(x :: 'a::len word) \<le> y \<Longrightarrow> y + 1 \<noteq> 0 \<Longrightarrow> x < y + 1"
  by (simp add: word_less_nat_alt word_le_nat_alt unatSuc add.commute)

lemma eng_wf_addTable:
  assumes "eng_wf e" "fmlookup (tables e) n = None" "nextTableID e + 1 \<noteq> 0"
  shows "eng_wf (addTableLocked n c e)"
proof -
  have "fmlookup (byID e) (nextTableID e) = None"
    using eng_wf_idD(2,3) [OF assms(1), of "nextTableID e"] eng_wf_tabD(5) [OF assms(1)]
    by (metis not_None_eq order_less_irrefl)
  note new = this
  let ?e = "addTableLocked n c e"
  show ?thesis
  proof (rule eng_wfI)
    fix m p assume m: "fmlookup (tables ?e) m = Some p"
    show "p < length (heap ?e) \<and> t_name (heap ?e ! p) = m \<and> fmlookup (byID ?e) (t_id (heap ?e ! p)) = Some p
        \<and> tab_wf (heap ?e ! p) \<and> t_id (heap ?e ! p) < nextTableID ?e"
    proof (cases "m = n")
      case True
      with m assms(3) show ?thesis
        by (auto simp: addTableLocked_def Let_def tab_wf_initUniq word_less_inc)
    next
      case False
      with m have "fmlookup (tables e) m = Some p" by (auto simp: addTableLocked_def Let_def)
      from eng_wf_tabD [OF assms(1) this] show ?thesis
        using word_less_inc [OF _ assms(3)] by (auto simp: addTableLocked_def Let_def nth_append)
    qed
  next
    fix i p assume i: "fmlookup (byID ?e) i = Some p"
    show "p < length (heap ?e) \<and> t_id (heap ?e ! p) = i \<and> fmlookup (tables ?e) (t_name (heap ?e ! p)) = Some p"
    proof (cases "i = nextTableID e")
      case True
      with i show ?thesis by (auto simp: addTableLocked_def Let_def)
    next
      case False
      with i have "fmlookup (byID e) i = Some p" by (auto simp: addTableLocked_def Let_def)
      from eng_wf_idD [OF assms(1) this] show ?thesis
        using assms(2) by (auto simp: addTableLocked_def Let_def nth_append)
    qed
  qed
qed

lemma db_addTable:
  assumes "eng_wf e"
  shows "db_of (addTableLocked n c e) = (db_of e)(n \<mapsto> (nextTableID e, c, fmempty))"
proof
  fix m
  show "db_of (addTableLocked n c e) m = ((db_of e)(n \<mapsto> (nextTableID e, c, fmempty))) m"
    using eng_wf_tabD(1) [OF assms, of m]
    by (cases "fmlookup (tables e) m") (auto simp: db_of_def tab_at_def addTableLocked_def Let_def nth_append abs_t_def)
qed

lemma eng_wf_dropTable:
  assumes "eng_wf e" "fmlookup (tables e) n = Some p"
  shows "eng_wf (dropTableLocked p e)"
proof -
  have n: "t_name (heap e ! p) = n" by (rule eng_wf_tabD(2) [OF assms])
  have "m = n" if "fmlookup (tables e) m = Some q" "t_id (heap e ! q) = t_id (heap e ! p)" for m q
    by (metis eng_wf_tabD(2,3) assms that n option.inject)
  note uniq = this
  show ?thesis
  proof (rule eng_wfI)
    fix m q assume "fmlookup (tables (dropTableLocked p e)) m = Some q"
    then have m: "fmlookup (tables e) m = Some q" "m \<noteq> n"
      by (auto simp: dropTableLocked_def Let_def n split: if_splits)
    show "q < length (heap (dropTableLocked p e)) \<and> t_name (heap (dropTableLocked p e) ! q) = m
        \<and> fmlookup (byID (dropTableLocked p e)) (t_id (heap (dropTableLocked p e) ! q)) = Some q
        \<and> tab_wf (heap (dropTableLocked p e) ! q)
        \<and> t_id (heap (dropTableLocked p e) ! q) < nextTableID (dropTableLocked p e)"
      using eng_wf_tabD [OF assms(1) m(1)] uniq [OF m(1)] m(2) by (auto simp: dropTableLocked_def Let_def)
  next
    fix i q assume "fmlookup (byID (dropTableLocked p e)) i = Some q"
    then have i: "fmlookup (byID e) i = Some q" "i \<noteq> t_id (heap e ! p)"
      by (auto simp: dropTableLocked_def Let_def split: if_splits)
    show "q < length (heap (dropTableLocked p e)) \<and> t_id (heap (dropTableLocked p e) ! q) = i
        \<and> fmlookup (tables (dropTableLocked p e)) (t_name (heap (dropTableLocked p e) ! q)) = Some q"
    proof -
      have "t_name (heap e ! q) \<noteq> n" by (metis assms(2) eng_wf_idD(2,3) [OF assms(1) i(1)] i(2) option.inject)
      with eng_wf_idD [OF assms(1) i(1)] n show ?thesis by (simp add: dropTableLocked_def Let_def)
    qed
  qed
qed

lemma db_dropTable:
  assumes "eng_wf e" "fmlookup (tables e) n = Some p"
  shows "db_of (dropTableLocked p e) = (db_of e)(n := None)"
  using eng_wf_tabD(2) [OF assms] by (auto simp: db_of_def tab_at_def dropTableLocked_def Let_def)

section \<open>Behaviour of the operations\<close>

lemma Engine_txn_frame:
  "Engine_txn g fn e = (res, e') \<Longrightarrow> \<exists>w. e' = e\<lparr>txSeq := txSeq e + 1, e_wal := w\<rparr>"
  by (auto simp: Engine_txn_def Let_def split: prod.splits sum.splits)

lemma Engine_txn_same: "Engine_txn g fn e = (res, e') \<Longrightarrow> same_tables e e'"
  by (auto simp: same_tables_def dest: Engine_txn_frame)

lemma Engine_txn_Err: "Engine_txn g fn e = (Err x, e') \<Longrightarrow> \<exists>y. x = ErrWal y"
  by (auto simp: Engine_txn_def Let_def split: prod.splits sum.splits)

lemma noteWrite_same [simp]: "same_tables e (noteWrite e)"
  by (simp add: noteWrite_def same_tables_def Let_def)

lemma writeMeta_same [simp]: "same_tables e (writeMetaLocked e)"
  by (simp add: writeMetaLocked_def same_tables_def split: prod.splits)

lemma same_tables_simps [simp]:
  "eng_wf (noteWrite e) = eng_wf e" "db_of (noteWrite e) = db_of e"
  "eng_wf (writeMetaLocked e) = eng_wf e" "db_of (writeMetaLocked e) = db_of e"
  by (simp_all add: same_tables_wf [OF noteWrite_same] same_tables_db [OF noteWrite_same]
      same_tables_wf [OF writeMeta_same] same_tables_db [OF writeMeta_same])

lemma same_tables_set_tab: "same_tables e e' \<Longrightarrow> same_tables (set_tab p t e) (set_tab p t e')"
  by (simp add: same_tables_def)

lemma tab_wf_lookup:
  assumes "tab_wf t" "ci \<in> set (uniqCols t)"
  shows "fmlookup (u_at (t_uniq t) ci) k = Some i \<longleftrightarrow> has_key (t_rows t) ci k i"
  using assms unfolding tab_wf_def index_sound_def index_complete_def by blast

text \<open>The check through the index is the check against all rows.\<close>

lemma uniq_conflict_iff:
  assumes "tab_wf t"
  shows "uniq_conflict t i row \<longleftrightarrow> \<not> clash_free (t_cols t) (t_rows t) i row"
proof -
  have "(case fmlookup (u_at (t_uniq t) ci) k of None \<Rightarrow> False | Some old \<Rightarrow> old \<noteq> i)
      \<longleftrightarrow> (\<exists>j. has_key (t_rows t) ci k j \<and> j \<noteq> i)" if "ci \<in> set (uniqCols t)" for ci k
    by (auto simp: tab_wf_lookup [OF assms that, symmetric] split: option.split)
  then show ?thesis
    by (auto simp: uniq_conflict_def clash_free_def list_ex_iff uniqCols_def)
qed

lemma clash_free_cong: "clash_free c (fmupd i r m) i row = clash_free c m i row"
  by (auto simp: clash_free_def has_key_upd)

lemma reserve_row_Ok:
  assumes "reserve_row rowID must t = (Ok rid, t')"
  shows "abs_t t' = abs_t t" "t_name t' = t_name t" "t_uniq t' = t_uniq t"
    "rowID \<noteq> 0 \<Longrightarrow> rid = rowID \<and> (fmlookup (t_rows t) rowID \<noteq> None \<longleftrightarrow> must)"
    "rowID = 0 \<Longrightarrow> rid = t_nextID t"
  using assms by (auto simp: reserve_row_def Let_def abs_t_def bump_nextID_def split: if_splits)

lemma reserve_row_Err:
  "reserve_row rowID must t = (Err x, t') \<longleftrightarrow> t' = t \<and> rowID \<noteq> 0 \<and>
     (if fmlookup (t_rows t) rowID \<noteq> None then \<not> must \<and> x = ErrExists else must \<and> x = ErrNoRow)"
  by (auto simp: reserve_row_def Let_def)

lemma length_stamp [simp]: "length (stamp pk i row) = length row"
  by (simp add: stamp_def)

lemma Engine_put_cases:
  assumes wf: "eng_wf e" and put: "Engine_put g name pk rowID row must e = (res, e')"
  obtains
    (unchanged) x where "res = Err x" "e' = e"
  | (reserved) x p t t' rid where "res = Err x" "fmlookup (tables e) name = Some p" "t = heap e ! p"
      "length row = length (t_cols t)" "reserve_row rowID must t = (Ok rid, t')" "same_tables (set_tab p t' e) e'"
      "x = ErrUnique \<longrightarrow> \<not> clash_free (t_cols t) (t_rows t) rid (stamp pk rid row)"
  | (stored) p t t' rid e1 where "res = Ok rid" "fmlookup (tables e) name = Some p" "t = heap e ! p"
      "length row = length (t_cols t)" "reserve_row rowID must t = (Ok rid, t')"
      "clash_free (t_cols t) (t_rows t) rid (stamp pk rid row)"
      "Engine_txn g (put_rec (t_id t) rid (stamp pk rid row)) (set_tab p t' e) = (Ok (), e1)"
      "e' = noteWrite (set_tab p (store_row rid (stamp pk rid row) t') e1)"
proof (cases "rowID < 0 \<or> must \<and> rowID = 0")
  case True
  with put show thesis
    by (intro unchanged [of "if rowID < 0 then ErrNegativeRowID else ErrUpdateNeedsRowID"])
      (auto simp: Engine_put_def)
next
  case False
  note args = this
  show thesis
  proof (cases "fmlookup (tables e) name")
    case None
    with put args show thesis by (intro unchanged) (auto simp: Engine_put_def)
  next
    case (Some p)
    define t where "t = heap e ! p"
    have tw: "tab_wf t" using eng_wf_tabD(4) [OF wf Some] by (simp add: t_def)
    show thesis
    proof (cases "length row = length (t_cols t)")
      case False
      with put args Some show thesis by (intro unchanged) (auto simp: Engine_put_def Let_def t_def)
    next
      case True
      obtain r1 t' where r1: "reserve_row rowID must t = (r1, t')" by fastforce
      show thesis
      proof (cases r1)
        case (Inl x)
        with put args Some True r1 show thesis by (intro unchanged) (auto simp: Engine_put_def Let_def t_def)
      next
        case (Inr rid)
        note r = r1 [unfolded Inr]
        have "tab_wf t'" "t_cols t' = t_cols t" "t_rows t' = t_rows t" "t_id t' = t_id t"
          using reserve_row_Ok(1,3) [OF r] tw tab_wf_cong [of t' t] by (auto simp: abs_t_def)
        note t' = this
        obtain r2 e1 where e1: "Engine_txn g (put_rec (t_id t) rid (stamp pk rid row)) (set_tab p t' e) = (r2, e1)"
          by fastforce
        let ?c = "clash_free (t_cols t) (t_rows t) rid (stamp pk rid row)"
        have "(res, e') = (if \<not> ?c then (Err ErrUnique, set_tab p t' e)
            else case r2 of Inl x \<Rightarrow> (Err x, e1)
              | Inr _ \<Rightarrow> (Ok rid, noteWrite (set_tab p (store_row rid (stamp pk rid row) t') e1)))"
          using put args Some True r e1 uniq_conflict_iff [OF t'(1), of rid "stamp pk rid row"] t'
          by (auto simp: Engine_put_def Let_def t_def split: sum.splits)
        then show thesis
          using reserved [OF _ Some t_def True r] stored [OF _ Some t_def True r] e1
            Engine_txn_same [OF e1] Engine_txn_Err [of g _ "set_tab p t' e" _ e1]
          by (cases "?c"; cases r2) fastforce+
      qed
    qed
  qed
qed


text \<open>What \<open>put\<close> does to the database: on success exactly one row changes, on failure none.\<close>

definition put_effect :: "string \<Rightarrow> int \<Rightarrow> int64 \<Rightarrow> row \<Rightarrow> bool \<Rightarrow> db \<Rightarrow> int64 \<Rightarrow> db \<Rightarrow> bool" where
  "put_effect name pk rowID row must d rid d' \<longleftrightarrow> (\<exists>tid cols m. d name = Some (tid, cols, m)
     \<and> length row = length cols \<and> clash_free cols m rid (stamp pk rid row)
     \<and> (rowID \<noteq> 0 \<longrightarrow> rid = rowID \<and> (fmlookup m rowID \<noteq> None \<longleftrightarrow> must))
     \<and> d' = db_upd name (fmupd rid (stamp pk rid row)) d)"

lemma set_tab_twice [simp]: "set_tab p t (set_tab p t' e) = set_tab p t e"
  by (simp add: set_tab_def)

lemma same_tables_setD:
  assumes "same_tables (set_tab p t' e) e1" shows "same_tables (set_tab p t e) (set_tab p t e1)"
  using assms by (simp add: same_tables_def)

lemma Engine_put_wf:
  assumes wf: "eng_wf e" and put: "Engine_put g name pk rowID row must e = (res, e')"
  shows "eng_wf e' \<and> (case res of Inl x \<Rightarrow> db_of e' = db_of e
           | Inr rid \<Rightarrow> put_effect name pk rowID row must (db_of e) rid (db_of e'))"
  using wf put
proof (cases rule: Engine_put_cases)
  case (unchanged x)
  then show ?thesis using wf by simp
next
  case (reserved x p t t' rid)
  have "eng_wf (set_tab p t' e)" "db_of (set_tab p t' e) = db_of e"
    using reserve_row_Ok [OF reserved(5)] eng_wf_tabD(4) [OF wf reserved(2)] reserved(3) tab_wf_cong [of t' t]
    by (auto intro!: eng_wf_set_tab [OF wf reserved(2)] db_set_tab_same [OF wf reserved(2)] simp: abs_t_def)
  then show ?thesis
    using reserved(1) same_tables_wf [OF reserved(6)] same_tables_db [OF reserved(6)] by simp
next
  case (stored p t t' rid e1)
  let ?row = "stamp pk rid row"
  have t': "t_cols t' = t_cols t" "t_rows t' = t_rows t" "t_id t' = t_id t" "t_name t' = t_name t" "tab_wf t'"
    using reserve_row_Ok(1-3) [OF stored(5)] eng_wf_tabD(4) [OF wf stored(2)] stored(3) tab_wf_cong [of t' t]
    by (auto simp: abs_t_def)
  have "tab_wf (store_row rid ?row t')"
    using t' stored(4,6) by (intro tab_wf_store) (simp_all add: covers_length)
  then have "eng_wf (set_tab p (store_row rid ?row t') e)"
    using t' stored(3) by (intro eng_wf_set_tab [OF wf stored(2)]) simp_all
  moreover have "db_of (set_tab p (store_row rid ?row t') e) = db_upd name (fmupd rid ?row) (db_of e)"
    using t' stored(3) by (intro db_set_tab [OF wf stored(2)]) (simp add: abs_t_def)
  moreover have s: "same_tables (set_tab p (store_row rid ?row t') e) e'"
    using same_tables_setD [OF Engine_txn_same [OF stored(7)]] stored(8) same_tables_trans noteWrite_same by blast
  moreover have "db_of e name = Some (t_id t, t_cols t, t_rows t)"
    using stored(2,3) by (simp add: db_of_def tab_at_def abs_t_def)
  ultimately show ?thesis
    using stored(1,4,6) reserve_row_Ok(4) [OF stored(5)]
    by (simp add: put_effect_def same_tables_wf [OF s] same_tables_db [OF s])
qed


lemma Engine_Update_eq:
  "Engine_Update g name rowID row e = (res, e') \<longleftrightarrow>
     (\<exists>r. Engine_put g name (-1) rowID row True e = (r, e') \<and> res = (case r of Inl x \<Rightarrow> Err x | Inr _ \<Rightarrow> Ok ()))"
  by (auto simp: Engine_Update_def split: prod.splits sum.splits)

lemma stamp_none [simp]: "stamp (-1) i row = row"
  by (simp add: stamp_def)

definition delete_effect :: "string \<Rightarrow> int64 \<Rightarrow> db \<Rightarrow> db \<Rightarrow> bool" where
  "delete_effect name rowID d d' \<longleftrightarrow> (\<exists>tid cols m. d name = Some (tid, cols, m)
     \<and> fmlookup m rowID \<noteq> None \<and> d' = db_upd name (fmdrop rowID) d)"

lemma Engine_Delete_cases:
  assumes "Engine_Delete g name rowID e = (res, e')"
  obtains
    (unchanged) x where "res = Err x" "same_tables e e'"
  | (deleted) p t e1 where "res = Ok ()" "fmlookup (tables e) name = Some p" "t = heap e ! p"
      "fmlookup (t_rows t) rowID \<noteq> None" "Engine_txn g (delete_rec (t_id t) rowID) e = (Ok (), e1)"
      "e' = noteWrite (set_tab p (drop_row rowID t) e1)"
proof (cases "fmlookup (tables e) name")
  case None
  with assms show thesis by (intro unchanged [of ErrNoTable]) (auto simp: Engine_Delete_def)
next
  case (Some p)
  obtain r1 e1 where e1: "Engine_txn g (delete_rec (t_id (heap e ! p)) rowID) e = (r1, e1)" by fastforce
  show thesis
  proof (cases "fmlookup (t_rows (heap e ! p)) rowID = None")
    case True
    with assms Some show thesis by (intro unchanged [of ErrNoRow]) (auto simp: Engine_Delete_def Let_def)
  next
    case False
    with assms Some e1 have "(res, e') = (case r1 of Inl x \<Rightarrow> (Err x, e1)
        | Inr _ \<Rightarrow> (Ok (), noteWrite (set_tab p (drop_row rowID (heap e ! p)) e1)))"
      by (simp add: Engine_Delete_def Let_def)
    then show thesis
      using unchanged Engine_txn_same [OF e1] deleted [OF _ Some refl False] e1 by (cases r1) simp_all
  qed
qed

lemma Engine_Delete_wf:
  assumes wf: "eng_wf e" and del: "Engine_Delete g name rowID e = (res, e')"
  shows "eng_wf e' \<and> (case res of Inl x \<Rightarrow> db_of e' = db_of e
           | Inr _ \<Rightarrow> delete_effect name rowID (db_of e) (db_of e'))"
  using del
proof (cases rule: Engine_Delete_cases)
  case (unchanged x)
  then show ?thesis using wf same_tables_wf [OF unchanged(2)] same_tables_db [OF unchanged(2)] by simp
next
  case (deleted p t e1)
  have "eng_wf (set_tab p (drop_row rowID t) e)"
    using eng_wf_tabD(4) [OF wf deleted(2)] deleted(3) by (intro eng_wf_set_tab [OF wf deleted(2)]) auto
  moreover have "db_of (set_tab p (drop_row rowID t) e) = db_upd name (fmdrop rowID) (db_of e)"
    using deleted(3) by (intro db_set_tab [OF wf deleted(2)]) (simp add: abs_t_def)
  moreover have s: "same_tables (set_tab p (drop_row rowID t) e) e'"
    using same_tables_set_tab [OF Engine_txn_same [OF deleted(5)]] deleted(6) same_tables_trans noteWrite_same
    by blast
  moreover have "db_of e name = Some (t_id t, t_cols t, t_rows t)"
    using deleted(2,3) by (simp add: db_of_def tab_at_def abs_t_def)
  ultimately show ?thesis
    using deleted(1,4) by (simp add: delete_effect_def same_tables_wf [OF s] same_tables_db [OF s])
qed

lemma Engine_CreateTable_cases:
  assumes "Engine_CreateTable g name cols e = (res, e')"
  obtains
    (unchanged) x where "res = Err x" "same_tables e e'"
  | (created) td e1 where "res = Ok ()" "Validate \<lparr>td_name = name, td_cols = cols\<rparr> = Ok td"
      "fmlookup (tables e) name = None" "Engine_txn g (create_rec name (td_cols td)) e = (Ok (), e1)"
      "e' = writeMetaLocked (addTableLocked name (td_cols td) e1)"
proof (cases "Validate \<lparr>td_name = name, td_cols = cols\<rparr>")
  case (Inl x)
  with assms show thesis by (intro unchanged [of "ErrSchema x"]) (auto simp: Engine_CreateTable_def)
next
  case (Inr td)
  obtain r1 e1 where e1: "Engine_txn g (create_rec name (td_cols td)) e = (r1, e1)" by fastforce
  show thesis
  proof (cases "fmlookup (tables e) name = None")
    case False
    with assms Inr show thesis by (intro unchanged [of ErrExists]) (auto simp: Engine_CreateTable_def)
  next
    case True
    with assms Inr e1 have "(res, e') = (case r1 of Inl x \<Rightarrow> (Err x, e1)
        | Inr _ \<Rightarrow> (Ok (), writeMetaLocked (addTableLocked name (td_cols td) e1)))"
      by (simp add: Engine_CreateTable_def)
    then show thesis
      using unchanged Engine_txn_same [OF e1] created [OF _ Inr True] e1 by (cases r1) simp_all
  qed
qed

lemma Engine_CreateTable_wf:
  assumes wf: "eng_wf e" and room: "nextTableID e + 1 \<noteq> 0"
    and cr: "Engine_CreateTable g name cols e = (res, e')"
  shows "eng_wf e' \<and> (case res of Inl x \<Rightarrow> db_of e' = db_of e
     | Inr _ \<Rightarrow> db_of e name = None \<and> (\<exists>td. Validate \<lparr>td_name = name, td_cols = cols\<rparr> = Ok td
         \<and> db_of e' = (db_of e)(name \<mapsto> (nextTableID e, td_cols td, fmempty))))"
  using cr
proof (cases rule: Engine_CreateTable_cases)
  case (unchanged x)
  then show ?thesis using wf same_tables_wf [OF unchanged(2)] same_tables_db [OF unchanged(2)] by simp
next
  case (created td e1)
  have s: "same_tables e e1" by (rule Engine_txn_same [OF created(4)])
  have e1: "eng_wf e1" using wf same_tables_wf [OF s] by simp
  have "fmlookup (tables e1) name = None" "nextTableID e1 = nextTableID e"
    using s created(3) by (simp_all add: same_tables_def)
  then have "eng_wf e'" "db_of e' = (db_of e1)(name \<mapsto> (nextTableID e, td_cols td, fmempty))"
    using eng_wf_addTable [OF e1] room db_addTable [OF e1] created(5) by simp_all
  then show ?thesis
    using created(1,2,3) same_tables_db [OF s] by (simp add: db_of_def tab_at_def)
qed

lemma Engine_DropTable_cases:
  assumes "Engine_DropTable g name e = (res, e')"
  obtains
    (unchanged) x where "res = Err x" "same_tables e e'"
  | (dropped) p e1 where "res = Ok ()" "fmlookup (tables e) name = Some p"
      "Engine_txn g (drop_rec name) e = (Ok (), e1)" "e' = writeMetaLocked (dropTableLocked p e1)"
proof (cases "fmlookup (tables e) name")
  case None
  with assms show thesis by (intro unchanged [of ErrNoTable]) (auto simp: Engine_DropTable_def)
next
  case (Some p)
  obtain r1 e1 where e1: "Engine_txn g (drop_rec name) e = (r1, e1)" by fastforce
  with assms Some have "(res, e') = (case r1 of Inl x \<Rightarrow> (Err x, e1)
      | Inr _ \<Rightarrow> (Ok (), writeMetaLocked (dropTableLocked p e1)))"
    by (simp add: Engine_DropTable_def)
  then show thesis
    using unchanged Engine_txn_same [OF e1] dropped [OF _ Some] e1 by (cases r1) simp_all
qed

lemma Engine_DropTable_wf:
  assumes wf: "eng_wf e" and dr: "Engine_DropTable g name e = (res, e')"
  shows "eng_wf e' \<and> (case res of Inl x \<Rightarrow> db_of e' = db_of e
     | Inr _ \<Rightarrow> db_of e name \<noteq> None \<and> db_of e' = (db_of e)(name := None))"
  using dr
proof (cases rule: Engine_DropTable_cases)
  case (unchanged x)
  then show ?thesis using wf same_tables_wf [OF unchanged(2)] same_tables_db [OF unchanged(2)] by simp
next
  case (dropped p e1)
  have s: "same_tables e e1" by (rule Engine_txn_same [OF dropped(3)])
  have e1: "eng_wf e1" "fmlookup (tables e1) name = Some p"
    using wf same_tables_wf [OF s] s dropped(2) by (simp_all add: same_tables_def)
  have "db_of e name \<noteq> None" using dropped(2) by (simp add: db_of_def tab_at_def)
  with eng_wf_dropTable [OF e1] db_dropTable [OF e1] show ?thesis
    using dropped(1,4) same_tables_db [OF s] by simp
qed

lemma Engine_ReserveID_wf:
  assumes wf: "eng_wf e" and r: "Engine_ReserveID name e = (res, e')"
  shows "eng_wf e' \<and> db_of e' = db_of e"
proof (cases "fmlookup (tables e) name")
  case None
  with assms show ?thesis by (auto simp: Engine_ReserveID_def)
next
  case (Some p)
  with r have e': "e' = set_tab p ((heap e ! p)\<lparr>t_nextID := wrap64 (t_nextID (heap e ! p) + 1)\<rparr>) e"
    by (simp add: Engine_ReserveID_def Let_def)
  show ?thesis
    using eng_wf_tabD(4) [OF wf Some]
    by (simp add: e' eng_wf_set_tab [OF wf Some] db_set_tab_same [OF wf Some] abs_t_def)
qed

lemma Engine_Checkpoint_same: "Engine_Checkpoint e = (res, e') \<Longrightarrow> same_tables e e'"
  by (auto simp: Engine_Checkpoint_def same_tables_def pruneSnapshots_def split: prod.splits sum.splits)

lemma background_checkpoint_same: "same_tables e (background_checkpoint e)"
  using Engine_Checkpoint_same [of e "fst (Engine_Checkpoint e)" "snd (Engine_Checkpoint e)"]
  by (simp add: background_checkpoint_def same_tables_def)

section \<open>Clean runs\<close>

text \<open>The log after one transaction has been written without I/O errors.\<close>

definition wal_logged :: "gob \<Rightarrow> walrec list \<Rightarrow> wal \<Rightarrow> wal" where
  "wal_logged g rs w = w\<lparr>w_file := w_file w @ log_bytes g rs,
     w_synced := length (w_file w) + length (log_bytes g rs), w_seq := w_seq w + word_of_nat (length rs)\<rparr>"

lemma io_clean_logged [simp]: "io_clean (wal_logged g rs w) = io_clean w"
  by (simp add: io_clean_def wal_logged_def)

lemma io_clean_upd [simp]:
  "io_clean (w\<lparr>w_file := f\<rparr>) = io_clean w" "io_clean (w\<lparr>w_synced := s\<rparr>) = io_clean w"
  "io_clean (w\<lparr>w_seq := n\<rparr>) = io_clean w"
  by (simp_all add: io_clean_def)

abbreviation txn_recs :: "uint64 \<Rightarrow> walrec \<Rightarrow> walrec list" where
  "txn_recs tx r \<equiv> [empty_rec RecBegin tx, r, empty_rec RecCommit tx]"

lemma Engine_txn_clean:
  assumes "io_clean (e_wal e)" "encodable g (fn (txSeq e + 1))"
  shows "Engine_txn g fn e = (Ok (), e\<lparr>txSeq := txSeq e + 1,
    e_wal := wal_logged g (txn_recs (txSeq e + 1) (fn (txSeq e + 1))) (e_wal e)\<rparr>)"
  using assms
  by (simp add: Engine_txn_def Let_def wal_Append_clean encodable_mark wal_logged_def)

lemma Engine_DropTable_clean:
  assumes "io_clean (e_wal e)" "encodable g (drop_rec n (txSeq e + 1))" "fmlookup (tables e) n = Some p"
  shows "Engine_DropTable g n e = (Ok (), writeMetaLocked (dropTableLocked p (e\<lparr>txSeq := txSeq e + 1,
    e_wal := wal_logged g (txn_recs (txSeq e + 1) (drop_rec n (txSeq e + 1))) (e_wal e)\<rparr>)))"
  using assms by (simp add: Engine_DropTable_def Engine_txn_clean)

lemma encodable_put:
  assumes "is_int64 rid" "enc_row g row = Some bs" "int (length bs) + 12 \<le> maxPayload"
  shows "encodable g (put_rec tid rid row tx)"
  using assms
  by (simp add: encodable_def canonical_def put_rec_def empty_rec_def encode_payload_def)

lemma encodable_delete: "is_int64 rid \<Longrightarrow> encodable g (delete_rec tid rid tx)"
  by (simp add: encodable_def canonical_def delete_rec_def empty_rec_def encode_payload_def maxPayload_def)

text \<open>A row that fits into a log record.\<close>

definition loggable :: "gob \<Rightarrow> row \<Rightarrow> bool" where
  "loggable g row \<longleftrightarrow> (\<exists>bs. enc_row g row = Some bs \<and> int (length bs) + 12 \<le> maxPayload)"

lemma encodable_put_loggable: "is_int64 rid \<Longrightarrow> loggable g row \<Longrightarrow> encodable g (put_rec tid rid row tx)"
  by (auto simp: loggable_def intro: encodable_put)

lemma Engine_Update_Err:
  "Engine_Update g name rowID row e = (Err x, e') \<Longrightarrow> Engine_put g name (-1) rowID row True e = (Err x, e')"
  by (auto simp: Engine_Update_def split: prod.splits sum.splits)

section \<open>What the operations do\<close>

lemma db_tab:
  assumes "eng_wf e" "db_of e name = Some (tid, cols, m)"
  obtains p where "fmlookup (tables e) name = Some p" "t_id (heap e ! p) = tid" "t_cols (heap e ! p) = cols"
    "t_rows (heap e ! p) = m" "tab_wf (heap e ! p)"
  using assms eng_wf_tabD(4) [OF assms(1)] by (auto simp: db_of_def tab_at_def abs_t_def)

lemma Engine_put_clean:
  assumes wf: "eng_wf e" and tab: "db_of e name = Some (tid, cols, m)" and len: "length row = length cols"
    and id: "0 < rowID" "is_int64 rowID" and clean: "io_clean (e_wal e)" and log: "loggable g row"
    and must: "fmlookup m rowID \<noteq> None \<longleftrightarrow> must"
  shows "fst (Engine_put g name (-1) rowID row must e) =
    (if clash_free cols m rowID row then Ok rowID else Err ErrUnique)"
proof -
  obtain p where p: "fmlookup (tables e) name = Some p" "t_id (heap e ! p) = tid" "t_cols (heap e ! p) = cols"
      "t_rows (heap e ! p) = m" "tab_wf (heap e ! p)"
    using wf tab by (rule db_tab)
  obtain t' where r: "reserve_row rowID must (heap e ! p) = (Ok rowID, t')"
    using id must p(4) by (auto simp: reserve_row_def Let_def)
  have t': "t_cols t' = cols" "t_rows t' = m" "t_id t' = tid" "tab_wf t'"
    using reserve_row_Ok(1,3) [OF r] p tab_wf_cong [of t' "heap e ! p"] by (auto simp: abs_t_def)
  have "Engine_txn g (put_rec tid rowID row) (set_tab p t' e) = (Ok (), snd (Engine_txn g (put_rec tid rowID row) (set_tab p t' e)))"
    using Engine_txn_clean [of "set_tab p t' e" g "put_rec tid rowID row"] clean id(2) log
    by (simp add: encodable_put_loggable)
  then show ?thesis
    using p r t' id len uniq_conflict_iff [OF t'(4), of rowID row]
    by (auto simp: Engine_put_def Let_def split: prod.splits)
qed

text \<open>An engine with one table \<open>t (a int primary key auto_increment, b text unique)\<close> and one row.\<close>

definition sample_cols :: "column list" where
  "sample_cols =
     [\<lparr>col_name = ''a'', col_type = TypeInt, col_notnull = False, col_primary = True, col_autoinc = True,
       col_unique = False, col_fktable = [], col_fkcol = []\<rparr>,
      \<lparr>col_name = ''b'', col_type = TypeText, col_notnull = False, col_primary = False, col_autoinc = False,
       col_unique = True, col_fktable = [], col_fkcol = []\<rparr>]"

definition sample_rows :: rows where
  "sample_rows = fmupd 1 [VInt 1, VText ''x''] fmempty"

definition empty_dir :: datadir where
  "empty_dir = \<lparr>d_snaps = fmempty, d_manifest = None, d_meta = [], d_faults = []\<rparr>"

definition sample_engine :: engine where
  "sample_engine = (fresh_engine (empty_wal []) empty_dir)
     \<lparr>heap := [buildUniqLocked \<lparr>t_id = 0, t_name = ''t'', t_cols = sample_cols, t_rows = sample_rows,
                               t_nextID = 2, t_uniq = fmempty\<rparr>],
      tables := fmupd ''t'' 0 fmempty, byID := fmupd 0 0 fmempty, nextTableID := 1\<rparr>"

lemma sample_uniqCols: "uniqCols_of sample_cols = [1]"
  by (simp add: uniqCols_of_def sample_cols_def upt_rec)

lemma sample_tab_wf:
  "tab_wf (buildUniqLocked \<lparr>t_id = i, t_name = n, t_cols = sample_cols, t_rows = sample_rows, t_nextID = k, t_uniq = u\<rparr>)"
  by (rule tab_wf_buildUniq)
    (auto simp: unique_rows_def sample_uniqCols sample_rows_def has_key_def covers_def split: if_splits)

lemma sample_engine_wf [simp]: "eng_wf sample_engine"
  by (rule eng_wfI) (auto simp: sample_engine_def fresh_engine_def sample_tab_wf split: if_splits)

lemma sample_engine_db [simp]: "db_of sample_engine ''t'' = Some (0, sample_cols, sample_rows)"
  by (simp add: db_of_def tab_at_def sample_engine_def fresh_engine_def abs_t_def)

lemma sample_engine_clean [simp]: "io_clean (e_wal sample_engine)"
  by (simp add: sample_engine_def fresh_engine_def io_clean_def empty_wal_def)

lemma sample_rows_lookup [simp]:
  "fmlookup sample_rows i = (if i = 1 then Some [VInt 1, VText ''x''] else None)"
  by (simp add: sample_rows_def)

lemma sample_cols_length [simp]: "length sample_cols = 2"
  by (simp add: sample_cols_def)

lemma sample_loggable [simp]: "loggable sample_gob [VInt 2, VText ''y'']" "loggable sample_gob [VInt 1, VText ''y'']"
  by (simp_all add: loggable_def sample_gob_def maxPayload_def enc_char_def enc_int_def dec_digits.simps)

lemma sample_clash_free [simp]: "clash_free sample_cols sample_rows i [VInt j, VText ''y'']"
  by (simp add: clash_free_def sample_uniqCols sample_rows_def has_key_def)

lemma is_int64_lit [simp]: "is_int64 0" "is_int64 1" "is_int64 (numeral k) \<longleftrightarrow> numeral k \<le> max_int64"
  by (simp_all add: is_int64_def min_int64_def max_int64_def)

text \<open>
  C24: \<open>Put\<close> with an explicit row id inserts exactly when it should. On a table that has
  the row's arity, with a row that fits into a log record and no I/O error, it fails
  with \<open>ErrExists\<close> if the id is taken and with \<open>ErrUnique\<close> if some other row holds one of
  the row's keys; in both cases the database is unchanged. Otherwise it succeeds and
  the database is the old one with that row added.
\<close>

theorem put_spec:
  assumes "eng_wf e" and "db_of e name = Some (tid, cols, m)" and "length row = length cols"
    and "0 < rowID" and "is_int64 rowID" and "io_clean (e_wal e)" and "loggable g row"
    and "Engine_Put g name rowID row e = (res, e')"
  shows "if fmlookup m rowID \<noteq> None then res = Err ErrExists \<and> db_of e' = db_of e
    else if \<not> clash_free cols m rowID row then res = Err ErrUnique \<and> db_of e' = db_of e
    else res = Ok rowID \<and> db_of e' = db_upd name (fmupd rowID row) (db_of e)"
proof (cases "fmlookup m rowID = None")
  case True
  with Engine_put_clean [OF assms(1-7), of False] Engine_put_wf [OF assms(1) assms(8) [unfolded Engine_Put_def]] assms(8)
  show ?thesis by (auto simp: Engine_Put_def put_effect_def split: if_splits)
next
  case False
  obtain p where p: "fmlookup (tables e) name = Some p" "t_cols (heap e ! p) = cols" "t_rows (heap e ! p) = m"
    using assms(1,2) by (rule db_tab)
  then have "Engine_Put g name rowID row e = (Err ErrExists, e)"
    using False assms(3,4) reserve_row_Err [of rowID False "heap e ! p"]
    by (auto simp: Engine_Put_def Engine_put_def Let_def reserve_row_def)
  with False assms(8) show ?thesis by simp
qed

theorem put_spec_witness:
  "fst (Engine_Put sample_gob ''t'' 2 [VInt 2, VText ''y''] sample_engine) = Ok 2
   \<and> db_of (snd (Engine_Put sample_gob ''t'' 2 [VInt 2, VText ''y''] sample_engine))
       = db_upd ''t'' (fmupd 2 [VInt 2, VText ''y'']) (db_of sample_engine)"
  using put_spec [of sample_engine "''t''" 0 sample_cols sample_rows "[VInt 2, VText ''y'']" 2 sample_gob
      "fst (Engine_Put sample_gob ''t'' 2 [VInt 2, VText ''y''] sample_engine)"
      "snd (Engine_Put sample_gob ''t'' 2 [VInt 2, VText ''y''] sample_engine)"]
  by (simp add: max_int64_def)

text \<open>
  C25: \<open>Update\<close> replaces a row exactly when it should: \<open>ErrNoRow\<close> if the row does not exist,
  \<open>ErrUnique\<close> if some other row holds one of the new row's keys, both without effect;
  otherwise the row, and nothing else, is replaced.
\<close>

theorem update_spec:
  assumes "eng_wf e" and "db_of e name = Some (tid, cols, m)" and "length row = length cols"
    and "0 < rowID" and "is_int64 rowID" and "io_clean (e_wal e)" and "loggable g row"
    and "Engine_Update g name rowID row e = (res, e')"
  shows "if fmlookup m rowID = None then res = Err ErrNoRow \<and> db_of e' = db_of e
    else if \<not> clash_free cols m rowID row then res = Err ErrUnique \<and> db_of e' = db_of e
    else res = Ok () \<and> db_of e' = db_upd name (fmupd rowID row) (db_of e)"
proof -
  from assms(8) obtain r where r: "Engine_put g name (-1) rowID row True e = (r, e')"
      "res = (case r of Inl x \<Rightarrow> Err x | Inr _ \<Rightarrow> Ok ())"
    by (auto simp: Engine_Update_eq)
  show ?thesis
  proof (cases "fmlookup m rowID = None")
    case True
    obtain p where p: "fmlookup (tables e) name = Some p" "t_cols (heap e ! p) = cols" "t_rows (heap e ! p) = m"
      using assms(1,2) by (rule db_tab)
    then have "Engine_put g name (-1) rowID row True e = (Err ErrNoRow, e)"
      using True assms(3,4) by (auto simp: Engine_put_def Let_def reserve_row_def)
    with True r show ?thesis by auto
  next
    case False
    with Engine_put_clean [OF assms(1-7), of True] Engine_put_wf [OF assms(1) r(1)] r
    show ?thesis by (auto simp: put_effect_def split: if_splits)
  qed
qed

theorem update_spec_witness:
  "fst (Engine_Update sample_gob ''t'' 1 [VInt 1, VText ''y''] sample_engine) = Ok ()
   \<and> db_of (snd (Engine_Update sample_gob ''t'' 1 [VInt 1, VText ''y''] sample_engine))
       = db_upd ''t'' (fmupd 1 [VInt 1, VText ''y'']) (db_of sample_engine)"
  using update_spec [of sample_engine "''t''" 0 sample_cols sample_rows "[VInt 1, VText ''y'']" 1 sample_gob
      "fst (Engine_Update sample_gob ''t'' 1 [VInt 1, VText ''y''] sample_engine)"
      "snd (Engine_Update sample_gob ''t'' 1 [VInt 1, VText ''y''] sample_engine)"]
  by simp

text \<open>
  C26: \<open>Delete\<close> removes the row if it exists and fails with \<open>ErrNoRow\<close>, without effect, if
  it does not.
\<close>

theorem delete_spec:
  assumes "eng_wf e" and "db_of e name = Some (tid, cols, m)" and "is_int64 rowID" and "io_clean (e_wal e)"
    and "Engine_Delete g name rowID e = (res, e')"
  shows "if fmlookup m rowID = None then res = Err ErrNoRow \<and> db_of e' = db_of e
    else res = Ok () \<and> db_of e' = db_upd name (fmdrop rowID) (db_of e)"
proof -
  obtain p where p: "fmlookup (tables e) name = Some p" "t_id (heap e ! p) = tid" "t_rows (heap e ! p) = m"
    using assms(1,2) by (rule db_tab)
  have "fst (Engine_txn g (delete_rec tid rowID) e) = Ok ()"
    using Engine_txn_clean [of e g "delete_rec tid rowID"] assms(3,4) by (simp add: encodable_delete)
  then have "res = (if fmlookup m rowID = None then Err ErrNoRow else Ok ())"
    using p assms(5) by (auto simp: Engine_Delete_def Let_def split: prod.splits sum.splits if_splits)
  then show ?thesis
    using Engine_Delete_wf [OF assms(1,5)] by (auto simp: delete_effect_def)
qed

theorem delete_spec_witness:
  "fst (Engine_Delete sample_gob ''t'' 1 sample_engine) = Ok ()
   \<and> db_of (snd (Engine_Delete sample_gob ''t'' 1 sample_engine)) = db_upd ''t'' (fmdrop 1) (db_of sample_engine)"
  using delete_spec [of sample_engine "''t''" 0 sample_cols sample_rows 1 sample_gob
      "fst (Engine_Delete sample_gob ''t'' 1 sample_engine)" "snd (Engine_Delete sample_gob ''t'' 1 sample_engine)"]
  by simp


text \<open>
  C27: a write that reports an error leaves the database as it was, whatever made it
  fail: bad arguments, a constraint, or any I/O fault of the log.
\<close>

theorem failed_write_changes_nothing:
  assumes "eng_wf e"
  shows "(\<forall>x e'. Engine_Put g name rowID row e = (Err x, e') \<longrightarrow> db_of e' = db_of e)
    \<and> (\<forall>x e'. Engine_PutAuto g name pk row e = (Err x, e') \<longrightarrow> db_of e' = db_of e)
    \<and> (\<forall>x e'. Engine_Update g name rowID row e = (Err x, e') \<longrightarrow> db_of e' = db_of e)
    \<and> (\<forall>x e'. Engine_Delete g name rowID e = (Err x, e') \<longrightarrow> db_of e' = db_of e)"
proof -
  have put: "db_of e' = db_of e" if "Engine_put g name pk rowID row must e = (Err x, e')" for pk rowID must x e'
    using Engine_put_wf [OF assms that] by simp
  moreover have "db_of e' = db_of e" if "Engine_Delete g name rowID e = (Err x, e')" for x e'
    using Engine_Delete_wf [OF assms that] by simp
  ultimately show ?thesis
    using Engine_Update_Err by (metis Engine_Put_def Engine_PutAuto_def)
qed

theorem failed_write_changes_nothing_witness:
  "Engine_Put sample_gob ''t'' 1 [VInt 1, VText ''y''] sample_engine = (Err ErrExists, sample_engine)
   \<and> db_of sample_engine = db_of sample_engine"
proof -
  have *: "Engine_Put sample_gob ''t'' 1 [VInt 1, VText ''y''] sample_engine = (Err ErrExists, sample_engine)"
    by (simp add: Engine_Put_def Engine_put_def sample_engine_def fresh_engine_def Let_def sample_cols_def
        reserve_row_def sample_rows_def)
  with failed_write_changes_nothing [OF sample_engine_wf, of sample_gob "''t''" 1 "[VInt 1, VText ''y'']" 0]
  show ?thesis by blast
qed

section \<open>The invariant along every run\<close>

text \<open>
  One step of the engine: any public operation with any arguments, any outcome of its
  system calls, and the background checkpoint. A table can be created while table ids
  are left.
\<close>

inductive engine_step :: "gob \<Rightarrow> engine \<Rightarrow> engine \<Rightarrow> bool" for g where
  create: "Engine_CreateTable g name cols e = (res, e') \<Longrightarrow> nextTableID e + 1 \<noteq> 0 \<Longrightarrow> engine_step g e e'"
| drop: "Engine_DropTable g name e = (res, e') \<Longrightarrow> engine_step g e e'"
| put: "Engine_Put g name rowID row e = (res, e') \<Longrightarrow> engine_step g e e'"
| put_auto: "Engine_PutAuto g name pkIdx row e = (res, e') \<Longrightarrow> engine_step g e e'"
| update: "Engine_Update g name rowID row e = (res, e') \<Longrightarrow> engine_step g e e'"
| delete: "Engine_Delete g name rowID e = (res, e') \<Longrightarrow> engine_step g e e'"
| reserve: "Engine_ReserveID name e = (res, e') \<Longrightarrow> engine_step g e e'"
| checkpoint: "Engine_Checkpoint e = (res, e') \<Longrightarrow> engine_step g e e'"
| background: "checkpointing e \<Longrightarrow> engine_step g e (background_checkpoint e)"

lemma engine_step_wf: "engine_step g e e' \<Longrightarrow> eng_wf e \<Longrightarrow> eng_wf e'"
proof (induction rule: engine_step.induct)
  case (create name cols e res e')
  then show ?case using Engine_CreateTable_wf by blast
next
  case (drop name e res e')
  then show ?case using Engine_DropTable_wf by blast
next
  case (put name rowID row e res e')
  then show ?case using Engine_put_wf unfolding Engine_Put_def by blast
next
  case (put_auto name pkIdx row e res e')
  then show ?case using Engine_put_wf unfolding Engine_PutAuto_def by blast
next
  case (update name rowID row e res e')
  then show ?case using Engine_put_wf unfolding Engine_Update_eq by blast
next
  case (delete name rowID e res e')
  then show ?case using Engine_Delete_wf by blast
next
  case (reserve name e res e')
  then show ?case using Engine_ReserveID_wf by blast
next
  case (checkpoint e res e')
  then show ?case using same_tables_wf [OF Engine_Checkpoint_same] by blast
next
  case (background e)
  then show ?case using same_tables_wf [OF background_checkpoint_same] by blast
qed

text \<open>
  C1: the engine invariant holds along every run. Starting from a well-formed engine,
  after any sequence of operations and background checkpoints, with any I/O faults, the
  maps by name and by id agree, and the index of every table leads from each key
  exactly to the one row that holds it.
\<close>

theorem engine_invariant:
  assumes "eng_wf e" and "(engine_step g)\<^sup>*\<^sup>* e e'"
  shows "eng_wf e'"
  using assms(2,1) by (induction rule: rtranclp_induct) (auto intro: engine_step_wf)

theorem engine_invariant_witness:
  "eng_wf (background_checkpoint (sample_engine\<lparr>checkpointing := True\<rparr>))"
proof -
  have "eng_wf (sample_engine\<lparr>checkpointing := True\<rparr>)"
    by (rule same_tables_wf [THEN iffD2, OF _ sample_engine_wf]) (simp add: same_tables_def)
  moreover have "(engine_step sample_gob)\<^sup>*\<^sup>* (sample_engine\<lparr>checkpointing := True\<rparr>)
      (background_checkpoint (sample_engine\<lparr>checkpointing := True\<rparr>))"
    by (intro r_into_rtranclp engine_step.background) simp
  ultimately show ?thesis by (rule engine_invariant)
qed



end
