(* ===== verification/Txn.thy ===== *)
theory Txn
  imports Engine
begin

text \<open>
  \<open>internal/storage/txn.go\<close>: explicit transactions. Writes are checked against the
  committed rows overlaid with the transaction's own buffer and appended to the buffer;
  \<open>Commit\<close> validates again, logs the buffer with one fsync and applies it to the engine.

  A transaction and the engine it points to are passed together. The lemmas show what a
  transaction reads (the overlay), that nothing reaches the engine before \<open>Commit\<close>, that
  \<open>Commit\<close> refines the overlay of the whole buffer onto the database and keeps the engine
  invariant, and which errors it reports.
\<close>

section \<open>State\<close>

datatype txop = OpPut string int64 row | OpDelete string int64

fun op_name :: "txop \<Rightarrow> string" where
  "op_name (OpPut n i r) = n"
| "op_name (OpDelete n i) = n"

fun op_rowID :: "txop \<Rightarrow> int64" where
  "op_rowID (OpPut n i r) = i"
| "op_rowID (OpDelete n i) = i"

text \<open>\<open>inserts\<close> is the set of pairs (table, row id), as a list without repetitions.\<close>

record txn =
  x_id :: uint64
  x_done :: bool
  x_ops :: "txop list"
  x_inserts :: "(string \<times> int64) list"

definition Engine_Begin :: "engine \<Rightarrow> txn \<times> engine" where
  "Engine_Begin e = (let tx = txSeq e + 1 in
     (\<lparr>x_id = tx, x_done = False, x_ops = [], x_inserts = []\<rparr>, e\<lparr>txSeq := tx\<rparr>))"

section \<open>Reads\<close>

text \<open>The loop of \<open>Get\<close> from the last operation to the first; \<open>None\<close> if none concerns the row.\<close>

fun last_op :: "string \<Rightarrow> int64 \<Rightarrow> txop list \<Rightarrow> row option option" where
  "last_op name rowID [] = None"
| "last_op name rowID (o1 # os) =
     (if op_name o1 = name \<and> op_rowID o1 = rowID
      then Some (case o1 of OpPut n i r \<Rightarrow> Some r | OpDelete n i \<Rightarrow> None)
      else last_op name rowID os)"

definition Txn_Get :: "string \<Rightarrow> int64 \<Rightarrow> txn \<Rightarrow> engine \<Rightarrow> row option" where
  "Txn_Get name rowID x e =
     (if x_done x then Engine_Get name rowID e
      else case last_op name rowID (rev (x_ops x)) of
             Some r \<Rightarrow> r | None \<Rightarrow> Engine_Get name rowID e)"

definition overlay_op :: "string \<Rightarrow> txop \<Rightarrow> rows \<Rightarrow> rows" where
  "overlay_op name o1 m =
     (if op_name o1 \<noteq> name then m
      else case o1 of OpPut n i r \<Rightarrow> fmupd i r m | OpDelete n i \<Rightarrow> fmdrop i m)"

definition effMapLocked :: "string \<Rightarrow> txn \<Rightarrow> engine \<Rightarrow> (storage_error, rows) res" where
  "effMapLocked name x e =
     (case Engine_AllRows name e of
        Inl err \<Rightarrow> Err err
      | Inr (cids, grows) \<Rightarrow>
          Ok (fold (overlay_op name) (x_ops x)
                (fold (\<lambda>(i, r). fmupd i r) (zip cids grows) fmempty)))"

definition effRowsLocked :: "string \<Rightarrow> txn \<Rightarrow> engine \<Rightarrow> (storage_error, int64 list \<times> row list) res" where
  "effRowsLocked name x e =
     (case effMapLocked name x e of Inl err \<Rightarrow> Err err | Inr m \<Rightarrow> Ok (rows_list m))"

definition Txn_AllRows :: "string \<Rightarrow> txn \<Rightarrow> engine \<Rightarrow> (storage_error, int64 list \<times> row list) res" where
  "Txn_AllRows name x e = (if x_done x then Engine_AllRows name e else effRowsLocked name x e)"

fun scan_key :: "nat \<Rightarrow> string \<Rightarrow> (int64 \<times> row) list \<Rightarrow> int64 option" where
  "scan_key ci k [] = None"
| "scan_key ci k ((i, r) # rs) = (if length r > ci \<and> uniqKey (r ! ci) = k then Some i else scan_key ci k rs)"

definition Txn_UniqueGet :: "string \<Rightarrow> nat \<Rightarrow> val \<Rightarrow> txn \<Rightarrow> engine \<Rightarrow> int64 option" where
  "Txn_UniqueGet name colIdx v x e =
     (if IsNull v then None
      else if \<not> x_done x then
        (case effRowsLocked name x e of
           Inl _ \<Rightarrow> None | Inr (ids, rows) \<Rightarrow> scan_key colIdx (uniqKey v) (zip ids rows))
      else Engine_UniqueGet name colIdx v e)"

section \<open>Writes\<close>

definition Txn_tableDef :: "string \<Rightarrow> engine \<Rightarrow> (storage_error, tabledef) res" where
  "Txn_tableDef name e = (case find (\<lambda>d. td_name d = name) (Engine_Catalog e) of
     None \<Rightarrow> Err ErrNoTable | Some d \<Rightarrow> Ok d)"

text \<open>
  \<open>checkUnique\<close>, over the UNIQUE columns in order. Reading \<open>row[ci]\<close> beyond the row panics.
\<close>

fun check_unique_cols :: "nat list \<Rightarrow> int64 \<Rightarrow> row \<Rightarrow> rows \<Rightarrow> (storage_error, unit) res" where
  "check_unique_cols [] selfID row eff = Ok ()"
| "check_unique_cols (ci # cis) selfID row eff =
     (if length row \<le> ci then Err ErrPanic
      else if IsNull (row ! ci) then check_unique_cols cis selfID row eff
      else if list_ex (\<lambda>i. let r = the (fmlookup eff i) in
                i \<noteq> selfID \<and> ci < length r \<and> uniqKey (r ! ci) = uniqKey (row ! ci)) (fmkeys eff)
      then Err ErrUnique
      else check_unique_cols cis selfID row eff)"

definition checkUnique :: "tabledef \<Rightarrow> int64 \<Rightarrow> row \<Rightarrow> rows \<Rightarrow> (storage_error, unit) res" where
  "checkUnique def selfID row eff = check_unique_cols (uniqCols_of (td_cols def)) selfID row eff"

definition noteInsert :: "string \<Rightarrow> int64 \<Rightarrow> txn \<Rightarrow> txn" where
  "noteInsert name rowID x = x\<lparr>x_inserts := List.insert (name, rowID) (x_inserts x)\<rparr>"

definition add_op :: "txop \<Rightarrow> txn \<Rightarrow> txn" where
  "add_op o1 x = x\<lparr>x_ops := x_ops x @ [o1]\<rparr>"

definition Txn_Put ::
  "string \<Rightarrow> int64 \<Rightarrow> row \<Rightarrow> txn \<Rightarrow> engine \<Rightarrow> (storage_error, int64) res \<times> txn \<times> engine" where
  "Txn_Put name rowID row x e =
     (if x_done x then (Err ErrTxnDone, x, e)
      else case Txn_tableDef name e of
        Inl err \<Rightarrow> (Err err, x, e)
      | Inr def \<Rightarrow>
          if length row \<noteq> length (td_cols def)
          then (Err (ErrArity (length row) name (length (td_cols def))), x, e)
          else case effMapLocked name x e of
            Inl err \<Rightarrow> (Err err, x, e)
          | Inr eff \<Rightarrow>
              (case (if rowID = 0 then Engine_ReserveID name e else (Ok rowID, e)) of
                 (Inl err, e) \<Rightarrow> (Err err, x, e)
               | (Inr rid, e) \<Rightarrow>
                   if fmlookup eff rid \<noteq> None then (Err ErrExists, x, e)
                   else case checkUnique def rid row eff of
                          Inl err \<Rightarrow> (Err err, x, e)
                        | Inr _ \<Rightarrow> (Ok rid, add_op (OpPut name rid row) (noteInsert name rid x), e)))"

definition Txn_PutAuto ::
  "string \<Rightarrow> int \<Rightarrow> row \<Rightarrow> txn \<Rightarrow> engine \<Rightarrow> (storage_error, int64) res \<times> txn \<times> engine" where
  "Txn_PutAuto name pkIdx row x e =
     (if x_done x then (Err ErrTxnDone, x, e)
      else case Txn_tableDef name e of
        Inl err \<Rightarrow> (Err err, x, e)
      | Inr def \<Rightarrow>
          if length row \<noteq> length (td_cols def)
          then (Err (ErrArity (length row) name (length (td_cols def))), x, e)
          else case effMapLocked name x e of
            Inl err \<Rightarrow> (Err err, x, e)
          | Inr eff \<Rightarrow>
              (case Engine_ReserveID name e of
                 (Inl err, e) \<Rightarrow> (Err err, x, e)
               | (Inr rid, e) \<Rightarrow>
                   if fmlookup eff rid \<noteq> None then (Err ErrExists, x, e)
                   else if pkIdx < 0 \<or> int (length row) \<le> pkIdx then (Err ErrPanic, x, e)
                   else let row = row[nat pkIdx := VInt rid] in
                        case checkUnique def rid row eff of
                          Inl err \<Rightarrow> (Err err, x, e)
                        | Inr _ \<Rightarrow> (Ok rid, add_op (OpPut name rid row) (noteInsert name rid x), e)))"

definition Txn_Update ::
  "string \<Rightarrow> int64 \<Rightarrow> row \<Rightarrow> txn \<Rightarrow> engine \<Rightarrow> (storage_error, unit) res \<times> txn" where
  "Txn_Update name rowID row x e =
     (if x_done x then (Err ErrTxnDone, x)
      else case Txn_tableDef name e of
        Inl err \<Rightarrow> (Err err, x)
      | Inr def \<Rightarrow>
          if length row \<noteq> length (td_cols def)
          then (Err (ErrArity (length row) name (length (td_cols def))), x)
          else case effMapLocked name x e of
            Inl err \<Rightarrow> (Err err, x)
          | Inr eff \<Rightarrow>
              if fmlookup eff rowID = None then (Err ErrNoRow, x)
              else case checkUnique def rowID row eff of
                     Inl err \<Rightarrow> (Err err, x)
                   | Inr _ \<Rightarrow> (Ok (), add_op (OpPut name rowID row) x))"

definition Txn_Delete :: "string \<Rightarrow> int64 \<Rightarrow> txn \<Rightarrow> engine \<Rightarrow> (storage_error, unit) res \<times> txn" where
  "Txn_Delete name rowID x e =
     (if x_done x then (Err ErrTxnDone, x)
      else case Txn_tableDef name e of
        Inl err \<Rightarrow> (Err err, x)
      | Inr def \<Rightarrow>
          (case effMapLocked name x e of
             Inl err \<Rightarrow> (Err err, x)
           | Inr eff \<Rightarrow>
               if fmlookup eff rowID = None then (Err ErrNoRow, x)
               else (Ok (), add_op (OpDelete name rowID) x)))"

section \<open>Commit and rollback\<close>

text \<open>
  The validation of \<open>Commit\<close>. First every operation's table must exist; then, table by
  table, every buffered row (overwritten ones included) is checked against the effective
  rows; then the rows this transaction created must not have been committed by others.
  Go iterates over the tables in any order; here it is the order of the operations.
\<close>

fun check_puts :: "string \<Rightarrow> tabledef \<Rightarrow> rows \<Rightarrow> txop list \<Rightarrow> (storage_error, unit) res" where
  "check_puts name def eff [] = Ok ()"
| "check_puts name def eff (OpPut n i r # os) =
     (if n \<noteq> name then check_puts name def eff os
      else case checkUnique def i r eff of
             Inl err \<Rightarrow> Err err | Inr _ \<Rightarrow> check_puts name def eff os)"
| "check_puts name def eff (OpDelete n i # os) = check_puts name def eff os"

fun commit_check :: "string list \<Rightarrow> txn \<Rightarrow> engine \<Rightarrow> (storage_error, unit) res" where
  "commit_check [] x e = Ok ()"
| "commit_check (name # ns) x e =
     (case Txn_tableDef name e of
        Inl err \<Rightarrow> Err err
      | Inr def \<Rightarrow>
          (case effMapLocked name x e of
             Inl err \<Rightarrow> Err err
           | Inr eff \<Rightarrow>
               (case check_puts name def eff (x_ops x) of
                  Inl err \<Rightarrow> Err err | Inr _ \<Rightarrow> commit_check ns x e)))"

definition commit_validate :: "txn \<Rightarrow> engine \<Rightarrow> (storage_error, unit) res" where
  "commit_validate x e =
     (if list_ex (\<lambda>o1. Txn_tableDef (op_name o1) e = Err ErrNoTable) (x_ops x) then Err ErrNoTable
      else case commit_check (remdups (map op_name (x_ops x))) x e of
             Inl err \<Rightarrow> Err err
           | Inr _ \<Rightarrow>
               if list_ex (\<lambda>(n, i). Engine_Get n i e \<noteq> None) (x_inserts x) then Err ErrUnique else Ok ())"

fun op_recs :: "uint64 \<Rightarrow> txop list \<Rightarrow> engine \<Rightarrow> (storage_error, walrec list) res" where
  "op_recs tx [] e = Ok []"
| "op_recs tx (o1 # os) e =
     (case Engine_TableID (op_name o1) e of
        None \<Rightarrow> Err (ErrVanished (op_name o1))
      | Some tid \<Rightarrow>
          (case op_recs tx os e of
             Inl err \<Rightarrow> Err err
           | Inr rs \<Rightarrow> Ok ((case o1 of OpPut n i r \<Rightarrow> put_rec tid i r tx
                                      | OpDelete n i \<Rightarrow> delete_rec tid i tx) # rs)))"

fun append_recs :: "gob \<Rightarrow> walrec list \<Rightarrow> wal \<Rightarrow> (storage_error, unit) res \<times> wal" where
  "append_recs g [] w = (Ok (), w)"
| "append_recs g (r # rs) w =
     (case wal_Append g r (rec_type r = RecCommit) w of
        (Inl err, w) \<Rightarrow> (Err (ErrWal err), w)
      | (Inr _, w) \<Rightarrow> append_recs g rs w)"

fun apply_ops :: "txop list \<Rightarrow> engine \<Rightarrow> (storage_error, unit) res \<times> engine" where
  "apply_ops [] e = (Ok (), e)"
| "apply_ops (o1 # os) e =
     (case (case o1 of OpPut n i r \<Rightarrow> Engine_applyPut n i r e | OpDelete n i \<Rightarrow> Engine_applyDelete n i e) of
        (Inl err, e) \<Rightarrow> (Err err, e)
      | (Inr _, e) \<Rightarrow> apply_ops os e)"

definition commitTxn :: "gob \<Rightarrow> uint64 \<Rightarrow> txop list \<Rightarrow> engine \<Rightarrow> (storage_error, unit) res \<times> engine" where
  "commitTxn g tx ops e =
     (case op_recs tx ops e of
        Inl err \<Rightarrow> (Err err, e)
      | Inr recs \<Rightarrow>
          (case append_recs g (recs @ [empty_rec RecCommit tx]) (e_wal e) of
             (Inl err, w) \<Rightarrow> (Err err, e\<lparr>e_wal := w\<rparr>)
           | (Inr _, w) \<Rightarrow>
               (case apply_ops ops (e\<lparr>e_wal := w\<rparr>) of
                  (Inl err, e) \<Rightarrow> (Err err, e)
                | (Inr _, e) \<Rightarrow> (Ok (), noteWrite e))))"

definition Txn_Commit :: "gob \<Rightarrow> txn \<Rightarrow> engine \<Rightarrow> (storage_error, unit) res \<times> txn \<times> engine" where
  "Txn_Commit g x e =
     (if x_done x then (Ok (), x, e)
      else case commit_validate x e of
             Inl err \<Rightarrow> (Err err, x, e)
           | Inr _ \<Rightarrow>
               (let ops = x_ops x; x = x\<lparr>x_ops := [], x_done := True\<rparr> in
                if ops = [] then (Ok (), x, e)
                else case commitTxn g (x_id x) ops e of (r, e) \<Rightarrow> (r, x, e)))"

definition Txn_Rollback :: "txn \<Rightarrow> txn" where
  "Txn_Rollback x = (if x_done x then x else x\<lparr>x_ops := [], x_done := True\<rparr>)"

section \<open>The overlay\<close>

fun to_rowop :: "txop \<Rightarrow> rowop" where
  "to_rowop (OpPut n i r) = RPut i r"
| "to_rowop (OpDelete n i) = RDel i"

text \<open>The buffered operations on one table.\<close>

definition ops_on :: "string \<Rightarrow> txop list \<Rightarrow> rowop list" where
  "ops_on name ops = map to_rowop (filter (\<lambda>o1. op_name o1 = name) ops)"

lemma ops_on_simps [simp]:
  "ops_on n [] = []" "ops_on n (o1 # os) = (if op_name o1 = n then to_rowop o1 # ops_on n os else ops_on n os)"
  "ops_on n (os @ os') = ops_on n os @ ops_on n os'"
  by (simp_all add: ops_on_def)

lemma fold_overlay: "fold (overlay_op n) ops m = fold rowop_rows (ops_on n ops) m"
proof (induction ops arbitrary: m)
  case (Cons o1 ops)
  then show ?case by (cases o1) (auto simp: overlay_op_def)
qed simp

lemma fold_fmupd_lookup:
  "fmlookup (fold (\<lambda>(i, r). fmupd i r) (map (\<lambda>i. (i, f i)) ids) m) k = (if k \<in> set ids then Some (f k) else fmlookup m k)"
  by (induction ids arbitrary: m) auto

lemma zip_map_right: "zip ids (map f ids) = map (\<lambda>i. (i, f i)) ids"
  by (induction ids) auto

lemma rows_list_rebuild: "rows_list m = (ids, rs) \<Longrightarrow> fold (\<lambda>(i, r). fmupd i r) (zip ids rs) fmempty = m"
  by (rule fmap_ext) (auto simp: rows_list_def Let_def zip_map_right fold_fmupd_lookup)

lemma tab_at_db: "tab_at e n = Some t \<Longrightarrow> db_of e n = Some (t_id t, t_cols t, t_rows t)"
  by (simp add: db_of_def abs_t_def)

lemma db_of_None: "db_of e n = None \<longleftrightarrow> tab_at e n = None"
  by (simp add: db_of_def)

text \<open>What the transaction sees of each table.\<close>

definition txn_view :: "txn \<Rightarrow> engine \<Rightarrow> string \<Rightarrow> (column list \<times> rows) option" where
  "txn_view x e n = map_option (\<lambda>(i, c, m). (c, fold rowop_rows (ops_on n (x_ops x)) m)) (db_of e n)"

lemma effMap_view:
  "effMapLocked n x e = (case txn_view x e n of None \<Rightarrow> Err ErrNoTable | Some (c, m) \<Rightarrow> Ok m)"
proof (cases "tab_at e n")
  case None
  then show ?thesis by (simp add: effMapLocked_def Engine_AllRows_def txn_view_def db_of_def)
next
  case (Some t)
  obtain ids rs where r: "rows_list (t_rows t) = (ids, rs)" by fastforce
  from Some rows_list_rebuild [OF r] show ?thesis
    by (simp add: effMapLocked_def Engine_AllRows_def txn_view_def tab_at_db r fold_overlay)
qed

lemma last_op_append:
  "last_op n i (os @ os') = (case last_op n i os of Some r \<Rightarrow> Some r | None \<Rightarrow> last_op n i os')"
  by (induction os) auto

lemma last_op_lookup:
  "fmlookup (fold rowop_rows (ops_on n ops) m) i =
     (case last_op n i (rev ops) of Some r \<Rightarrow> r | None \<Rightarrow> fmlookup m i)"
proof (induction ops arbitrary: m)
  case (Cons o1 ops)
  show ?case by (cases o1) (auto simp: Cons last_op_append split: option.split)
qed simp

lemma Engine_Get_db: "Engine_Get n i e = (case db_of e n of None \<Rightarrow> None | Some (_, _, m) \<Rightarrow> fmlookup m i)"
  by (simp add: Engine_Get_def db_of_def abs_t_def split: option.split)

lemma Txn_Get_view:
  assumes "\<not> x_done x" "txn_view x e n = Some (c, m)"
  shows "Txn_Get n i x e = fmlookup m i"
  using assms
  by (auto simp: Txn_Get_def txn_view_def Engine_Get_db last_op_lookup split: option.splits)

lemma Txn_AllRows_view:
  "\<not> x_done x \<Longrightarrow> Txn_AllRows n x e = (case txn_view x e n of None \<Rightarrow> Err ErrNoTable | Some (c, m) \<Rightarrow> Ok (rows_list m))"
  by (auto simp: Txn_AllRows_def effRowsLocked_def effMap_view split: option.split)

section \<open>Catalog lookup\<close>

lemma find_unique:
  assumes "d \<in> set xs" "P d" "\<And>d'. d' \<in> set xs \<Longrightarrow> P d' \<Longrightarrow> d' = d"
  shows "find P xs = Some d"
proof (cases "find P xs")
  case None
  with assms(1,2) show ?thesis by (simp add: find_None_iff)
next
  case (Some y)
  then have "y \<in> set xs" "P y" by (auto simp: find_Some_iff)
  with assms(3) Some show ?thesis by blast
qed

lemma tableDef_db:
  assumes wf: "eng_wf e"
  shows "Txn_tableDef n e = (case db_of e n of None \<Rightarrow> Err ErrNoTable | Some (i, c, m) \<Rightarrow> Ok \<lparr>td_name = n, td_cols = c\<rparr>)"
proof -
  let ?d = "\<lambda>n. let t = heap e ! the (fmlookup (tables e) n) in \<lparr>td_name = t_name t, td_cols = t_cols t\<rparr>"
  have name: "td_name (?d m) = m" if "m \<in> fmdom' (tables e)" for m
    using that eng_wf_tabD(2) [OF wf] by (auto simp: Let_def)
  show ?thesis
  proof (cases "fmlookup (tables e) n")
    case None
    have "find (\<lambda>d. td_name d = n) (catalogLocked e) = None"
      unfolding find_None_iff catalogLocked_def using None name by auto
    with None show ?thesis by (simp add: Txn_tableDef_def Engine_Catalog_def db_of_def tab_at_def)
  next
    case (Some p)
    then have n: "n \<in> fmdom' (tables e)" by simp
    have "find (\<lambda>d. td_name d = n) (catalogLocked e) = Some (?d n)"
    proof (rule find_unique)
      show "?d n \<in> set (catalogLocked e)" using n by (simp only: catalogLocked_def set_sort set_map set_fmkeys image_eqI)
      show "td_name (?d n) = n" by (rule name [OF n])
      fix d' assume "d' \<in> set (catalogLocked e)" "td_name d' = n"
      then obtain m where m: "m \<in> fmdom' (tables e)" "d' = ?d m"
        by (auto simp only: catalogLocked_def set_sort set_map set_fmkeys)
      have "m = n" using name [OF m(1)] \<open>td_name d' = n\<close> unfolding m(2) by (rule trans [OF sym])
      then show "d' = ?d n" by (simp only: m(2))
    qed
    with Some name [OF n] show ?thesis
      by (simp add: Txn_tableDef_def Engine_Catalog_def db_of_def tab_at_def abs_t_def Let_def)
  qed
qed

section \<open>The uniqueness check\<close>

definition rows_cover :: "column list \<Rightarrow> rows \<Rightarrow> bool" where
  "rows_cover cols m \<longleftrightarrow> (\<forall>i r. fmlookup m i = Some r \<longrightarrow> covers cols r)"

lemma uniqKey_null: "uniqKey v = uniqKey w \<Longrightarrow> IsNull v \<longleftrightarrow> IsNull w"
  by (cases v; cases w) (auto split: if_splits)

lemma check_cols_covers: "check_unique_cols cis i row eff = Ok () \<Longrightarrow> list_all (\<lambda>ci. ci < length row) cis"
  by (induction cis) (auto split: if_splits)

lemma check_cols_iff:
  assumes "list_all (\<lambda>ci. ci < length row) cis"
    and "\<And>j r ci. fmlookup eff j = Some r \<Longrightarrow> ci \<in> set cis \<Longrightarrow> ci < length r"
  shows "check_unique_cols cis i row eff =
    (if \<forall>ci \<in> set cis. \<not> IsNull (row ! ci) \<longrightarrow> (\<forall>j. has_key eff ci (uniqKey (row ! ci)) j \<longrightarrow> j = i)
     then Ok () else Err ErrUnique)"
  using assms
proof (induction cis)
  case Nil
  then show ?case by simp
next
  case (Cons ci cis)
  let ?P = "\<lambda>j. let r = the (fmlookup eff j) in j \<noteq> i \<and> ci < length r \<and> uniqKey (r ! ci) = uniqKey (row ! ci)"
  have "list_ex ?P (fmkeys eff) \<longleftrightarrow> (\<exists>j. has_key eff ci (uniqKey (row ! ci)) j \<and> j \<noteq> i)" if "\<not> IsNull (row ! ci)"
  proof -
    have "?P j \<longleftrightarrow> has_key eff ci (uniqKey (row ! ci)) j \<and> j \<noteq> i" if "fmlookup eff j = Some r" for j r
      using that Cons.prems(2) [OF that, of ci] uniqKey_null [of "r ! ci" "row ! ci"] \<open>\<not> IsNull (row ! ci)\<close>
      by (auto simp: has_key_def)
    moreover have "\<exists>r. fmlookup eff j = Some r" if "has_key eff ci k j" for j k
      using that by (simp add: has_key_def split: option.splits)
    ultimately show ?thesis
      unfolding list_ex_iff set_fmkeys Bex_def fmdom'_lookup not_None_eq by blast
  qed
  moreover have "check_unique_cols cis i row eff =
      (if \<forall>ci \<in> set cis. \<not> IsNull (row ! ci) \<longrightarrow> (\<forall>j. has_key eff ci (uniqKey (row ! ci)) j \<longrightarrow> j = i)
       then Ok () else Err ErrUnique)"
    using Cons.prems by (intro Cons.IH) auto
  ultimately show ?case using Cons.prems(1) by auto
qed

lemma checkUnique_covers: "checkUnique def i row eff = Ok () \<Longrightarrow> covers (td_cols def) row"
  by (auto simp: checkUnique_def covers_def dest: check_cols_covers)

lemma checkUnique_iff:
  assumes "covers (td_cols def) row" "rows_cover (td_cols def) eff"
  shows "checkUnique def i row eff = (if clash_free (td_cols def) eff i row then Ok () else Err ErrUnique)"
  unfolding checkUnique_def clash_free_def
  using assms by (intro check_cols_iff) (auto simp: covers_def rows_cover_def list_all_iff)

lemma unique_rows_upd:
  "unique_rows c m \<Longrightarrow> clash_free c m i r \<Longrightarrow> unique_rows c (fmupd i r m)"
  unfolding unique_rows_def clash_free_def has_key_upd by metis

lemma unique_rows_drop: "unique_rows c m \<Longrightarrow> unique_rows c (fmdrop i m)"
  by (auto simp: unique_rows_def has_key_drop)

lemma rows_cover_upd: "rows_cover c m \<Longrightarrow> covers c r \<Longrightarrow> rows_cover c (fmupd i r m)"
  by (auto simp: rows_cover_def)

lemma rows_cover_drop: "rows_cover c m \<Longrightarrow> rows_cover c (fmdrop i m)"
  by (auto simp: rows_cover_def)

lemma rows_cover_rowops:
  "rows_cover c m \<Longrightarrow> (\<And>i r. RPut i r \<in> set ps \<Longrightarrow> covers c r) \<Longrightarrow> rows_cover c (fold rowop_rows ps m)"
proof (induction ps arbitrary: m)
  case (Cons p ps)
  then show ?case by (cases p) (auto intro!: Cons.IH rows_cover_upd rows_cover_drop)
qed simp

lemma tab_wf_rows_cover: "tab_wf t \<Longrightarrow> rows_cover (t_cols t) (t_rows t)"
  by (auto simp: tab_wf_def index_shape_def rows_cover_def)

section \<open>Buffered writes\<close>

text \<open>An open transaction on a well-formed engine whose view of every table has unique keys.\<close>

definition txn_inv :: "txn \<Rightarrow> engine \<Rightarrow> bool" where
  "txn_inv x e \<longleftrightarrow> \<not> x_done x \<and> eng_wf e
     \<and> (\<forall>n c m. txn_view x e n = Some (c, m) \<longrightarrow> rows_cover c m \<and> unique_rows c m)"

lemma txn_view_cong: "x_ops x = x_ops x' \<Longrightarrow> db_of e = db_of e' \<Longrightarrow> txn_view x e = txn_view x' e'"
  by (simp add: txn_view_def fun_eq_iff)

lemma x_ops_add [simp]: "x_ops (add_op o1 x) = x_ops x @ [o1]" "x_done (add_op o1 x) = x_done x"
  "x_id (add_op o1 x) = x_id x"
  by (simp_all add: add_op_def)

lemma x_ops_note [simp]: "x_ops (noteInsert n i x) = x_ops x" "x_done (noteInsert n i x) = x_done x"
  "x_id (noteInsert n i x) = x_id x"
  by (simp_all add: noteInsert_def)

lemma txn_view_add:
  assumes "x_ops x' = x_ops x @ [o1]" "db_of e' = db_of e" "txn_view x e (op_name o1) = Some (c, m)"
  shows "txn_view x' e' = (txn_view x e)(op_name o1 \<mapsto> (c, rowop_rows (to_rowop o1) m))"
  using assms by (auto simp: txn_view_def fun_eq_iff split: option.splits prod.splits)

lemma txn_inv_begin:
  assumes "eng_wf e" "Engine_Begin e = (x, e')"
  shows "txn_inv x e' \<and> db_of e' = db_of e \<and> same_tables e e'"
proof -
  have s: "same_tables e e'" "x_ops x = []" "\<not> x_done x"
    using assms(2) by (auto simp: Engine_Begin_def Let_def same_tables_def)
  have "rows_cover c m \<and> unique_rows c m" if "txn_view x e' n = Some (c, m)" for n c m
  proof -
    from that s(2) obtain i where "db_of e' n = Some (i, c, m)" by (auto simp: txn_view_def)
    then obtain p where "t_cols (heap e' ! p) = c" "t_rows (heap e' ! p) = m" "tab_wf (heap e' ! p)"
      using same_tables_wf [OF s(1)] assms(1) db_tab by metis
    then show ?thesis using tab_wf_rows_cover tab_wf_unique_rows by blast
  qed
  then show ?thesis
    using s assms(1) same_tables_wf [OF s(1)] same_tables_db [OF s(1)] by (simp add: txn_inv_def)
qed

text \<open>Adding a row that does not clash, or removing one, keeps the invariant.\<close>

lemma txn_inv_put:
  assumes "txn_inv x e" "txn_view x e n = Some (c, m)" "covers c r" "clash_free c m i r"
    and "x_ops x' = x_ops x @ [OpPut n i r]" "\<not> x_done x'" "eng_wf e'" "db_of e' = db_of e"
  shows "txn_inv x' e' \<and> txn_view x' e' = (txn_view x e)(n \<mapsto> (c, fmupd i r m))"
proof -
  have v: "txn_view x' e' = (txn_view x e)(n \<mapsto> (c, fmupd i r m))"
    using txn_view_add [OF assms(5,8), where c = c and m = m] assms(2) by simp
  show ?thesis
    using assms unfolding txn_inv_def v
    by (auto intro: rows_cover_upd unique_rows_upd split: if_splits)
qed

lemma txn_inv_del:
  assumes "txn_inv x e" "txn_view x e n = Some (c, m)" "x_ops x' = x_ops x @ [OpDelete n i]" "\<not> x_done x'"
  shows "txn_inv x' e \<and> txn_view x' e = (txn_view x e)(n \<mapsto> (c, fmdrop i m))"
proof -
  have v: "txn_view x' e = (txn_view x e)(n \<mapsto> (c, fmdrop i m))"
    using txn_view_add [OF assms(3) refl, where c = c and m = m] assms(2) by simp
  show ?thesis
    using assms unfolding txn_inv_def v
    by (auto intro: rows_cover_drop unique_rows_drop split: if_splits)
qed

lemma tableDef_view:
  "eng_wf e \<Longrightarrow> Txn_tableDef n e = (case txn_view x e n of None \<Rightarrow> Err ErrNoTable | Some (c, m) \<Rightarrow> Ok \<lparr>td_name = n, td_cols = c\<rparr>)"
  by (auto simp: tableDef_db txn_view_def split: option.split)

lemma Engine_ReserveID_Ok:
  "eng_wf e \<Longrightarrow> txn_view x e n = Some cm \<Longrightarrow> \<exists>rid e'. Engine_ReserveID n e = (Ok rid, e') \<and> eng_wf e' \<and> db_of e' = db_of e"
  using Engine_ReserveID_wf [of e n]
  by (auto simp: Engine_ReserveID_def txn_view_def db_of_def tab_at_def Let_def)


definition txn_put_effect ::
  "string \<Rightarrow> int64 \<Rightarrow> (int64 \<Rightarrow> row) \<Rightarrow> (string \<Rightarrow> (column list \<times> rows) option) \<Rightarrow> int64 \<Rightarrow> (string \<Rightarrow> (column list \<times> rows) option) \<Rightarrow> bool" where
  "txn_put_effect n i f v j v' \<longleftrightarrow> (\<exists>c m. v n = Some (c, m) \<and> length (f j) = length c \<and> (i \<noteq> 0 \<longrightarrow> j = i)
     \<and> fmlookup m j = None \<and> clash_free c m j (f j) \<and> v' = v(n \<mapsto> (c, fmupd j (f j) m)))"

text \<open>The common tail of \<open>Put\<close> and \<open>PutAuto\<close>.\<close>

lemma buffer_put_inv:
  assumes inv: "txn_inv x e" and v: "txn_view x e n = Some (c, m)" and len: "length r = length c"
    and e1: "eng_wf e1" "db_of e1 = db_of e"
    and res: "(res, x', e') = (if fmlookup m rid \<noteq> None then (Err ErrExists, x, e1)
      else case checkUnique \<lparr>td_name = n, td_cols = c\<rparr> rid r m of
             Inl err \<Rightarrow> (Err err, x, e1)
           | Inr _ \<Rightarrow> (Ok rid, add_op (OpPut n rid r) (noteInsert n rid x), e1))"
  shows "txn_inv x' e' \<and> db_of e' = db_of e \<and> (case res of Inl _ \<Rightarrow> txn_view x' e' = txn_view x e
     | Inr j \<Rightarrow> j = rid \<and> fmlookup m j = None \<and> clash_free c m j r
         \<and> txn_view x' e' = (txn_view x e)(n \<mapsto> (c, fmupd j r m)))"
proof -
  have nd: "\<not> x_done x" and cov: "rows_cover c m" using inv v by (auto simp: txn_inv_def)
  have cu: "checkUnique \<lparr>td_name = n, td_cols = c\<rparr> rid r m = (if clash_free c m rid r then Ok () else Err ErrUnique)"
    using checkUnique_iff [of "\<lparr>td_name = n, td_cols = c\<rparr>" r m rid] len cov by (simp add: covers_length)
  have same: "txn_inv x e1 \<and> txn_view x e1 = txn_view x e"
    using inv e1 txn_view_cong [of x x e1 e] by (simp add: txn_inv_def)
  show ?thesis
  proof (cases "fmlookup m rid = None \<and> clash_free c m rid r")
    case False
    with res same e1 cu show ?thesis by (auto split: if_splits)
  next
    case True
    then have x': "x' = add_op (OpPut n rid r) (noteInsert n rid x)" "e' = e1" "res = Ok rid"
      using res cu by auto
    have "txn_inv x' e' \<and> txn_view x' e' = (txn_view x e)(n \<mapsto> (c, fmupd rid r m))"
      using inv v covers_length [OF len] conjunct2 [OF True] by (rule txn_inv_put) (use x' nd e1 in simp_all)
    with x' True e1 show ?thesis by simp
  qed
qed

lemma Txn_Put_inv:
  assumes inv: "txn_inv x e" and put: "Txn_Put n i r x e = (res, x', e')"
  shows "txn_inv x' e' \<and> db_of e' = db_of e \<and> (case res of Inl _ \<Rightarrow> txn_view x' e' = txn_view x e
     | Inr j \<Rightarrow> txn_put_effect n i (\<lambda>_. r) (txn_view x e) j (txn_view x' e'))"
proof (cases "txn_view x e n")
  case None
  with put inv have "(res, x', e') = (Err ErrNoTable, x, e)"
    by (auto simp: Txn_Put_def txn_inv_def tableDef_view [where x = x])
  with inv show ?thesis by simp
next
  case (Some cm)
  obtain c m where cm: "cm = (c, m)" by fastforce
  have wf: "eng_wf e" and nd: "\<not> x_done x" using inv by (auto simp: txn_inv_def)
  obtain rid e1 where r1: "(if i = 0 then Engine_ReserveID n e else (Ok i, e)) = (Ok rid, e1)"
      and e1: "eng_wf e1" "db_of e1 = db_of e" and rid: "i \<noteq> 0 \<longrightarrow> rid = i"
    using Engine_ReserveID_Ok [OF wf Some] wf by (cases "i = 0") auto
  show ?thesis
  proof (cases "length r = length c")
    case False
    with put inv Some cm have "e' = e" "x' = x" "res = Err (ErrArity (length r) n (length c))"
      by (auto simp: Txn_Put_def txn_inv_def tableDef_view [where x = x])
    with inv show ?thesis by simp
  next
    case True
    with put nd r1 Some cm have "(res, x', e') = (if fmlookup m rid \<noteq> None then (Err ErrExists, x, e1)
        else case checkUnique \<lparr>td_name = n, td_cols = c\<rparr> rid r m of
               Inl err \<Rightarrow> (Err err, x, e1)
             | Inr _ \<Rightarrow> (Ok rid, add_op (OpPut n rid r) (noteInsert n rid x), e1))"
      by (simp add: Txn_Put_def tableDef_view [OF wf, where x = x] effMap_view)
    from buffer_put_inv [OF inv Some [unfolded cm] True e1 this] show ?thesis
      using Some cm True rid by (cases res) (auto simp: txn_put_effect_def)
  qed
qed

lemma Txn_PutAuto_inv:
  assumes inv: "txn_inv x e" and put: "Txn_PutAuto n pk r x e = (res, x', e')"
  shows "txn_inv x' e' \<and> db_of e' = db_of e \<and> (case res of Inl _ \<Rightarrow> txn_view x' e' = txn_view x e
     | Inr j \<Rightarrow> txn_put_effect n 0 (\<lambda>j. stamp pk j r) (txn_view x e) j (txn_view x' e'))"
proof (cases "txn_view x e n")
  case None
  with put inv have "(res, x', e') = (Err ErrNoTable, x, e)"
    by (auto simp: Txn_PutAuto_def txn_inv_def tableDef_view [where x = x])
  with inv show ?thesis by simp
next
  case (Some cm)
  obtain c m where cm: "cm = (c, m)" by fastforce
  have wf: "eng_wf e" and nd: "\<not> x_done x" using inv by (auto simp: txn_inv_def)
  obtain rid e1 where r1: "Engine_ReserveID n e = (Ok rid, e1)" and e1: "eng_wf e1" "db_of e1 = db_of e"
    using Engine_ReserveID_Ok [OF wf Some] by auto
  show ?thesis
  proof (cases "length r = length c")
    case False
    with put inv Some cm have "e' = e" "x' = x" "res = Err (ErrArity (length r) n (length c))"
      by (auto simp: Txn_PutAuto_def txn_inv_def tableDef_view [where x = x])
    with inv show ?thesis by simp
  next
    case len: True
    show ?thesis
    proof (cases "fmlookup m rid = None \<and> (pk < 0 \<or> int (length r) \<le> pk)")
      case True
      with put nd r1 Some cm len have "(res, x', e') = (Err ErrPanic, x, e1)"
        by (simp add: Txn_PutAuto_def tableDef_view [OF wf, where x = x] effMap_view)
      with inv e1 txn_view_cong [of x x e1 e] show ?thesis by (simp add: txn_inv_def)
    next
      case False
      then have st: "fmlookup m rid = None \<Longrightarrow> stamp pk rid r = r[nat pk := VInt rid] \<and> 0 \<le> pk \<and> pk < int (length r)"
        by (simp add: stamp_def not_less not_le)
      with put nd r1 Some cm len have "(res, x', e') = (if fmlookup m rid \<noteq> None then (Err ErrExists, x, e1)
          else case checkUnique \<lparr>td_name = n, td_cols = c\<rparr> rid (stamp pk rid r) m of
                 Inl err \<Rightarrow> (Err err, x, e1)
               | Inr _ \<Rightarrow> (Ok rid, add_op (OpPut n rid (stamp pk rid r)) (noteInsert n rid x), e1))"
        by (cases "fmlookup m rid") (simp_all add: Txn_PutAuto_def tableDef_view [OF wf, where x = x] effMap_view Let_def cong: sum.case_cong)
      from buffer_put_inv [OF inv Some [unfolded cm] _ e1 this] show ?thesis
        using Some cm len by (cases res) (auto simp: txn_put_effect_def)
    qed
  qed
qed

lemma Txn_Update_inv:
  assumes inv: "txn_inv x e" and up: "Txn_Update n i r x e = (res, x')"
  shows "txn_inv x' e \<and> (case res of Inl _ \<Rightarrow> txn_view x' e = txn_view x e
     | Inr _ \<Rightarrow> \<exists>c m. txn_view x e n = Some (c, m) \<and> length r = length c \<and> fmlookup m i \<noteq> None
         \<and> clash_free c m i r \<and> txn_view x' e = (txn_view x e)(n \<mapsto> (c, fmupd i r m)))"
proof (cases "txn_view x e n")
  case None
  with up inv have "(res, x') = (Err ErrNoTable, x)"
    by (auto simp: Txn_Update_def txn_inv_def tableDef_view [where x = x])
  with inv show ?thesis by simp
next
  case (Some cm)
  obtain c m where cm: "cm = (c, m)" by fastforce
  have wf: "eng_wf e" and nd: "\<not> x_done x" and cov: "rows_cover c m"
    using inv Some cm by (auto simp: txn_inv_def)
  show ?thesis
  proof (cases "length r = length c")
    case False
    with up inv Some cm have "x' = x" "res = Err (ErrArity (length r) n (length c))"
      by (auto simp: Txn_Update_def txn_inv_def tableDef_view [where x = x])
    with inv show ?thesis by simp
  next
    case len: True
    have cu: "checkUnique \<lparr>td_name = n, td_cols = c\<rparr> i r m = (if clash_free c m i r then Ok () else Err ErrUnique)"
      using checkUnique_iff [of "\<lparr>td_name = n, td_cols = c\<rparr>" r m i] len cov by (simp add: covers_length)
    have res: "(res, x') = (if fmlookup m i = None then (Err ErrNoRow, x)
        else if clash_free c m i r then (Ok (), add_op (OpPut n i r) x) else (Err ErrUnique, x))"
      using up nd len Some cm cu by (auto simp: Txn_Update_def tableDef_view [OF wf, where x = x] effMap_view)
    show ?thesis
    proof (cases "fmlookup m i \<noteq> None \<and> clash_free c m i r")
      case False
      with res inv show ?thesis by (auto split: if_splits)
    next
      case True
      then have x': "x' = add_op (OpPut n i r) x" "res = Ok ()" using res by auto
      have "txn_inv x' e \<and> txn_view x' e = (txn_view x e)(n \<mapsto> (c, fmupd i r m))"
        using inv Some [unfolded cm] covers_length [OF len] conjunct2 [OF True]
        by (rule txn_inv_put) (use x' nd wf in simp_all)
      with x' True Some cm len show ?thesis by simp
    qed
  qed
qed

lemma Txn_Delete_inv:
  assumes inv: "txn_inv x e" and del: "Txn_Delete n i x e = (res, x')"
  shows "txn_inv x' e \<and> (case res of Inl _ \<Rightarrow> txn_view x' e = txn_view x e
     | Inr _ \<Rightarrow> \<exists>c m. txn_view x e n = Some (c, m) \<and> fmlookup m i \<noteq> None
         \<and> txn_view x' e = (txn_view x e)(n \<mapsto> (c, fmdrop i m)))"
proof (cases "txn_view x e n")
  case None
  with del inv have "(res, x') = (Err ErrNoTable, x)"
    by (auto simp: Txn_Delete_def txn_inv_def tableDef_view [where x = x])
  with inv show ?thesis by simp
next
  case (Some cm)
  obtain c m where cm: "cm = (c, m)" by fastforce
  have wf: "eng_wf e" and nd: "\<not> x_done x" using inv by (auto simp: txn_inv_def)
  have res: "(res, x') = (if fmlookup m i = None then (Err ErrNoRow, x) else (Ok (), add_op (OpDelete n i) x))"
    using del nd Some cm by (auto simp: Txn_Delete_def tableDef_view [OF wf, where x = x] effMap_view)
  show ?thesis
  proof (cases "fmlookup m i = None")
    case True
    with res inv show ?thesis by simp
  next
    case False
    then have x': "x' = add_op (OpDelete n i) x" "res = Ok ()" using res by auto
    have "txn_inv x' e \<and> txn_view x' e = (txn_view x e)(n \<mapsto> (c, fmdrop i m))"
      using inv Some [unfolded cm] by (rule txn_inv_del) (use x' nd in simp_all)
    with x' False Some cm show ?thesis by simp
  qed
qed

section \<open>Commit\<close>

text \<open>The specification of a commit: the whole buffer overlaid on every table.\<close>

definition db_overlay :: "txop list \<Rightarrow> db \<Rightarrow> db" where
  "db_overlay ops d = (\<lambda>n. map_option (\<lambda>(i, c, m). (i, c, fold rowop_rows (ops_on n ops) m)) (d n))"

lemma db_overlay_Nil: "db_overlay [] d = d"
  by (auto simp: db_overlay_def fun_eq_iff map_option_case split: option.split)

lemma check_puts_Ok:
  "check_puts n def eff ops = Ok () \<longleftrightarrow> (\<forall>i r. RPut i r \<in> set (ops_on n ops) \<longrightarrow> checkUnique def i r eff = Ok ())"
proof (induction ops)
  case (Cons o1 ops)
  show ?case
  proof (cases o1)
    case (OpPut n' i r)
    then show ?thesis by (cases "checkUnique def i r eff") (auto simp: Cons)
  qed (auto simp: Cons)
qed simp

lemma commit_check_Ok:
  assumes "commit_check ns x e = Ok ()" "n \<in> set ns" "eng_wf e"
  obtains c m where "txn_view x e n = Some (c, m)"
    "check_puts n \<lparr>td_name = n, td_cols = c\<rparr> m (x_ops x) = Ok ()"
  using assms
proof (induction ns)
  case (Cons n' ns)
  then show ?case
    by (auto simp: tableDef_view [where x = x] effMap_view split: option.splits prod.splits sum.splits)
qed simp

lemma ops_on_nonempty: "ops_on n ops \<noteq> [] \<longleftrightarrow> n \<in> op_name ` set ops"
  by (induction ops) auto

lemma validate_tables:
  assumes "commit_validate x e = Ok ()" "eng_wf e" "o1 \<in> set (x_ops x)"
  shows "fmlookup (tables e) (op_name o1) \<noteq> None"
  using assms
  by (auto simp: commit_validate_def list_ex_iff tableDef_db db_of_def tab_at_def split: if_splits option.splits)

text \<open>
  What validation establishes: every buffered row fits its table and clashes with none
  of the rows the table will have.
\<close>

lemma validate_puts:
  assumes val: "commit_validate x e = Ok ()" and wf: "eng_wf e" and db: "db_of e n = Some (i, c, m)"
    and put: "RPut j r \<in> set (ops_on n (x_ops x))"
  shows "covers c r \<and> clash_free c (fold rowop_rows (ops_on n (x_ops x)) m) j r"
proof -
  let ?F = "fold rowop_rows (ops_on n (x_ops x)) m"
  have "n \<in> set (remdups (map op_name (x_ops x)))"
    using put ops_on_nonempty [of n "x_ops x"] by fastforce
  moreover have "commit_check (remdups (map op_name (x_ops x))) x e = Ok ()"
    using val by (auto simp: commit_validate_def split: if_splits sum.splits)
  ultimately obtain c' m' where v: "txn_view x e n = Some (c', m')"
      "check_puts n \<lparr>td_name = n, td_cols = c'\<rparr> m' (x_ops x) = Ok ()"
    using wf commit_check_Ok by metis
  from v(1) db have [simp]: "c' = c" "m' = ?F" by (auto simp: txn_view_def)
  have chk: "checkUnique \<lparr>td_name = n, td_cols = c\<rparr> j r ?F = Ok ()" if "RPut j r \<in> set (ops_on n (x_ops x))" for j r
    using v(2) that by (simp add: check_puts_Ok)
  have cov: "covers c r" if "RPut j r \<in> set (ops_on n (x_ops x))" for j r
    using checkUnique_covers [OF chk [OF that]] by simp
  obtain p where "t_cols (heap e ! p) = c" "t_rows (heap e ! p) = m" "tab_wf (heap e ! p)"
    using wf db by (rule db_tab)
  then have "rows_cover c m" using tab_wf_rows_cover by blast
  then have "rows_cover c ?F" using cov by (rule rows_cover_rowops) blast
  with cov [OF put] checkUnique_iff [of "\<lparr>td_name = n, td_cols = c\<rparr>" r ?F j] chk [OF put]
  show ?thesis by (simp split: if_splits)
qed

lemma eng_wf_heap:
  assumes wf: "eng_wf e" and len: "length h = length (heap e)"
    and h: "\<And>n p. fmlookup (tables e) n = Some p \<Longrightarrow>
      t_id (h ! p) = t_id (heap e ! p) \<and> t_name (h ! p) = t_name (heap e ! p) \<and> tab_wf (h ! p)"
  shows "eng_wf (e\<lparr>heap := h\<rparr>)"
proof (rule eng_wfI)
  fix n p assume "fmlookup (tables (e\<lparr>heap := h\<rparr>)) n = Some p"
  then have n: "fmlookup (tables e) n = Some p" by simp
  show "p < length (heap (e\<lparr>heap := h\<rparr>)) \<and> t_name (heap (e\<lparr>heap := h\<rparr>) ! p) = n
      \<and> fmlookup (byID (e\<lparr>heap := h\<rparr>)) (t_id (heap (e\<lparr>heap := h\<rparr>) ! p)) = Some p
      \<and> tab_wf (heap (e\<lparr>heap := h\<rparr>) ! p) \<and> t_id (heap (e\<lparr>heap := h\<rparr>) ! p) < nextTableID (e\<lparr>heap := h\<rparr>)"
    using eng_wf_tabD [OF wf n] h [OF n] len by simp
next
  fix i p assume "fmlookup (byID (e\<lparr>heap := h\<rparr>)) i = Some p"
  then have i: "fmlookup (byID e) i = Some p" by simp
  show "p < length (heap (e\<lparr>heap := h\<rparr>)) \<and> t_id (heap (e\<lparr>heap := h\<rparr>) ! p) = i
      \<and> fmlookup (tables (e\<lparr>heap := h\<rparr>)) (t_name (heap (e\<lparr>heap := h\<rparr>) ! p)) = Some p"
    using eng_wf_idD [OF wf i] h [OF eng_wf_idD(3) [OF wf i]] len by simp
qed

definition ptr_ok :: "engine \<Rightarrow> bool" where
  "ptr_ok e \<longleftrightarrow> (\<forall>n p. fmlookup (tables e) n = Some p \<longrightarrow> p < length (heap e) \<and> t_name (heap e ! p) = n)"

lemma eng_wf_ptr_ok: "eng_wf e \<Longrightarrow> ptr_ok e"
  by (auto simp: ptr_ok_def dest: eng_wf_tabD)

lemma ptr_ok_set_tab:
  assumes "ptr_ok e" "fmlookup (tables e) n = Some p" "t_name t = n"
  shows "ptr_ok (set_tab p t e)"
  unfolding ptr_ok_def
proof (intro allI impI)
  fix m q assume "fmlookup (tables (set_tab p t e)) m = Some q"
  then have m: "fmlookup (tables e) m = Some q" by simp
  have "q = p \<Longrightarrow> m = n" using assms(1,2) m unfolding ptr_ok_def by blast
  with m assms show "q < length (heap (set_tab p t e)) \<and> t_name (heap (set_tab p t e) ! q) = m"
    by (cases "q = p") (auto simp: ptr_ok_def)
qed

text \<open>One operation applied: the table it names changes, and no other.\<close>

lemma apply_op:
  assumes "ptr_ok e" "fmlookup (tables e) (op_name o1) = Some p"
    and "\<And>n i r. o1 = OpPut n i r \<Longrightarrow> covers (t_cols (heap e ! p)) r"
  shows "(case o1 of OpPut n i r \<Rightarrow> Engine_applyPut n i r e | OpDelete n i \<Rightarrow> Engine_applyDelete n i e)
    = (Ok (), set_tab p (rowop_table (to_rowop o1) (heap e ! p)) e)"
  using assms by (cases o1) (simp_all add: Engine_applyPut_def Engine_applyDelete_def Let_def)

lemma apply_ops_heap:
  assumes "ptr_ok e" "\<And>o1. o1 \<in> set ops \<Longrightarrow> fmlookup (tables e) (op_name o1) \<noteq> None"
    and "\<And>n i r p. OpPut n i r \<in> set ops \<Longrightarrow> fmlookup (tables e) n = Some p \<Longrightarrow> covers (t_cols (heap e ! p)) r"
  shows "\<exists>h. apply_ops ops e = (Ok (), e\<lparr>heap := h\<rparr>) \<and> length h = length (heap e)
    \<and> (\<forall>n p. fmlookup (tables e) n = Some p \<longrightarrow> h ! p = fold rowop_table (ops_on n ops) (heap e ! p))"
  using assms
proof (induction ops arbitrary: e)
  case Nil
  then show ?case by (intro exI [of _ "heap e"]) simp
next
  case (Cons o1 ops)
  obtain p where p: "fmlookup (tables e) (op_name o1) = Some p" using Cons.prems(2) [of o1] by auto
  define e1 where "e1 = set_tab p (rowop_table (to_rowop o1) (heap e ! p)) e"
  have step: "(case o1 of OpPut n i r \<Rightarrow> Engine_applyPut n i r e | OpDelete n i \<Rightarrow> Engine_applyDelete n i e) = (Ok (), e1)"
    unfolding e1_def using Cons.prems(1) p Cons.prems(3) by (intro apply_op) (auto simp: p)
  have p': "p < length (heap e)" "t_name (heap e ! p) = op_name o1"
    using Cons.prems(1) p by (auto simp: ptr_ok_def)
  have heap1: "heap e1 ! q = (if q = p then rowop_table (to_rowop o1) (heap e ! p) else heap e ! q)" for q
    using p' by (simp add: e1_def)
  have "ptr_ok e1" unfolding e1_def using Cons.prems(1) p p' by (intro ptr_ok_set_tab) auto
  moreover have t1: "tables e1 = tables e" "length (heap e1) = length (heap e)" by (simp_all add: e1_def)
  moreover have "covers (t_cols (heap e1 ! q)) r" if "OpPut n i r \<in> set ops" "fmlookup (tables e1) n = Some q" for n i r q
    using Cons.prems(3) [of n i r q] that by (auto simp: heap1 t1)
  moreover have "fmlookup (tables e1) (op_name o2) \<noteq> None" if "o2 \<in> set ops" for o2
    using Cons.prems(2) [of o2] that by (simp add: t1)
  ultimately obtain h where h: "apply_ops ops e1 = (Ok (), e1\<lparr>heap := h\<rparr>)" "length h = length (heap e1)"
      "\<And>n q. fmlookup (tables e1) n = Some q \<Longrightarrow> h ! q = fold rowop_table (ops_on n ops) (heap e1 ! q)"
    using Cons.IH [of e1] by blast
  have "h ! q = fold rowop_table (ops_on n (o1 # ops)) (heap e ! q)" if n: "fmlookup (tables e) n = Some q" for n q
  proof -
    have "q = p \<longleftrightarrow> n = op_name o1" using Cons.prems(1) p p' n by (auto simp: ptr_ok_def)
    with h(3) [of n q] n t1 show ?thesis by (auto simp: heap1)
  qed
  moreover have "e1\<lparr>heap := h\<rparr> = e\<lparr>heap := h\<rparr>" by (simp add: e1_def set_tab_def)
  ultimately show ?case using step h t1 by (intro exI [of _ h]) simp
qed

lemma append_recs_frame: "append_recs g rs w = (res, w') \<Longrightarrow> res = Ok () \<or> (\<exists>err. res = Err (ErrWal err))"
  by (induction rs arbitrary: w) (auto split: prod.splits sum.splits)

lemma op_recs_Ok:
  "(\<And>o1. o1 \<in> set ops \<Longrightarrow> fmlookup (tables e) (op_name o1) \<noteq> None) \<Longrightarrow> \<exists>rs. op_recs tx ops e = Ok rs"
  by (induction ops) (fastforce simp: Engine_TableID_def tab_at_def)+

lemma db_wal [simp]: "db_of (e\<lparr>e_wal := w\<rparr>) = db_of e"
  by (simp add: db_of_def tab_at_def)

lemma eng_wf_wal [simp]: "eng_wf (e\<lparr>e_wal := w\<rparr>) = eng_wf e"
  by (simp add: eng_wf_def)

lemma apply_ops_overlay:
  assumes wf: "eng_wf e" and ops: "\<And>o1. o1 \<in> set ops \<Longrightarrow> fmlookup (tables e) (op_name o1) \<noteq> None"
    and puts: "\<And>n i c m j r. db_of e n = Some (i, c, m) \<Longrightarrow> RPut j r \<in> set (ops_on n ops) \<Longrightarrow>
      covers c r \<and> clash_free c (fold rowop_rows (ops_on n ops) m) j r"
  shows "\<exists>h. apply_ops ops e = (Ok (), e\<lparr>heap := h\<rparr>) \<and> eng_wf (e\<lparr>heap := h\<rparr>)
    \<and> db_of (e\<lparr>heap := h\<rparr>) = db_overlay ops (db_of e)"
proof -
  have db: "db_of e n = Some (t_id (heap e ! p), t_cols (heap e ! p), t_rows (heap e ! p))"
    if "fmlookup (tables e) n = Some p" for n p
    using that by (simp add: db_of_def tab_at_def abs_t_def)
  have in_on: "RPut i r \<in> set (ops_on n ops)" if "OpPut n i r \<in> set ops" for n i r
    using that by (force simp: ops_on_def)
  obtain h where h: "apply_ops ops e = (Ok (), e\<lparr>heap := h\<rparr>)" "length h = length (heap e)"
      "\<And>n p. fmlookup (tables e) n = Some p \<Longrightarrow> h ! p = fold rowop_table (ops_on n ops) (heap e ! p)"
    using apply_ops_heap [OF eng_wf_ptr_ok [OF wf], of ops] ops puts [OF db in_on] by auto
  have "tab_wf (h ! p)" if n: "fmlookup (tables e) n = Some p" for n p
    unfolding h(3) [OF n] using eng_wf_tabD(4) [OF wf n] puts [OF db [OF n]] by (rule tab_wf_rowops)
  then have "eng_wf (e\<lparr>heap := h\<rparr>)" using h(2,3) by (intro eng_wf_heap [OF wf]) auto
  moreover have "db_of (e\<lparr>heap := h\<rparr>) = db_overlay ops (db_of e)"
    using h(3) by (auto simp: db_of_def db_overlay_def tab_at_def abs_t_def fun_eq_iff option.map_comp
        intro!: option.map_cong split: option.splits)
  ultimately show ?thesis using h(1) by blast
qed

lemma Txn_Commit_refines:
  assumes wf: "eng_wf e" and nd: "\<not> x_done x" and com: "Txn_Commit g x e = (res, x', e')"
  shows "eng_wf e' \<and> (case res of Inl _ \<Rightarrow> db_of e' = db_of e
     | Inr _ \<Rightarrow> x_done x' \<and> db_of e' = db_overlay (x_ops x) (db_of e))"
proof (cases "commit_validate x e")
  case (Inl err)
  with com nd have "res = Err err" "e' = e" by (auto simp: Txn_Commit_def)
  with wf show ?thesis by simp
next
  case (Inr u)
  then have val: "commit_validate x e = Ok ()" by simp
  show ?thesis
  proof (cases "x_ops x = []")
    case True
    with com nd val have "res = Ok ()" "e' = e" "x_done x'" by (auto simp: Txn_Commit_def Let_def)
    with wf True show ?thesis by (simp add: db_overlay_Nil)
  next
    case False
    note tabs = validate_tables [OF val wf]
    obtain rs where rs: "op_recs (x_id x) (x_ops x) e = Ok rs" using op_recs_Ok tabs by blast
    obtain r1 w where w: "append_recs g (rs @ [empty_rec RecCommit (x_id x)]) (e_wal e) = (r1, w)" by fastforce
    have cm: "(res, x', e') = (case commitTxn g (x_id x) (x_ops x) e of (r, e) \<Rightarrow> (r, x\<lparr>x_ops := [], x_done := True\<rparr>, e))"
      using com nd val False by (simp add: Txn_Commit_def Let_def)
    show ?thesis
    proof (cases r1)
      case (Inl err)
      with cm rs w have "res = Err err" "e' = e\<lparr>e_wal := w\<rparr>" by (auto simp: commitTxn_def)
      with wf show ?thesis by simp
    next
      case (Inr u)
      obtain h where h: "apply_ops (x_ops x) (e\<lparr>e_wal := w\<rparr>) = (Ok (), e\<lparr>e_wal := w, heap := h\<rparr>)"
          "eng_wf (e\<lparr>e_wal := w, heap := h\<rparr>)" "db_of (e\<lparr>e_wal := w, heap := h\<rparr>) = db_overlay (x_ops x) (db_of e)"
        using apply_ops_overlay [of "e\<lparr>e_wal := w\<rparr>" "x_ops x"] wf tabs validate_puts [OF val wf] by auto
      with cm rs w Inr show ?thesis by (simp add: commitTxn_def)
    qed
  qed
qed


section \<open>Properties\<close>


definition sample_txn :: txn where
  "sample_txn = \<lparr>x_id = 1, x_done = False, x_ops = [OpPut ''t'' 2 [VInt 2, VText ''y''], OpDelete ''t'' 1],
     x_inserts = [(''t'', 2)]\<rparr>"


text \<open>
  C7: no dirty writes. Whatever an open transaction does before \<open>Commit\<close>, successfully
  or not, the committed database that everyone else reads is unchanged, and so it is
  after \<open>Rollback\<close>; the transaction's own view keeps unique keys.
\<close>

theorem txn_isolated:
  assumes "txn_inv x e"
  shows "(\<forall>r x' e'. Txn_Put n i row x e = (r, x', e') \<longrightarrow> db_of e' = db_of e \<and> txn_inv x' e')
    \<and> (\<forall>r x' e'. Txn_PutAuto n pk row x e = (r, x', e') \<longrightarrow> db_of e' = db_of e \<and> txn_inv x' e')
    \<and> (\<forall>r x'. Txn_Update n i row x e = (r, x') \<longrightarrow> txn_inv x' e)
    \<and> (\<forall>r x'. Txn_Delete n i x e = (r, x') \<longrightarrow> txn_inv x' e)
    \<and> x_ops (Txn_Rollback x) = [] \<and> x_done (Txn_Rollback x)"
  using Txn_Put_inv [OF assms] Txn_PutAuto_inv [OF assms] Txn_Update_inv [OF assms] Txn_Delete_inv [OF assms] assms
  by (auto simp: Txn_Rollback_def txn_inv_def)

theorem txn_isolated_witness:
  "db_of (snd (snd (Txn_Put ''t'' 2 [VInt 2, VText ''y''] (fst (Engine_Begin sample_engine)) (snd (Engine_Begin sample_engine)))))
     = db_of (snd (Engine_Begin sample_engine))"
proof -
  have "txn_inv (fst (Engine_Begin sample_engine)) (snd (Engine_Begin sample_engine))"
    using txn_inv_begin [OF sample_engine_wf] by simp
  from txn_isolated [OF this, of "''t''" 2 "[VInt 2, VText ''y'']" 0] show ?thesis
    by (metis prod.collapse)
qed

text \<open>
  C5: \<open>Commit\<close> refines its specification. If it succeeds, the new database is the old one
  with the whole buffer overlaid on each table; if it fails, whatever the reason (a
  vanished table, a conflict, any I/O fault), the database is unchanged. Either way the
  engine invariant holds again, although the rows of a buffer may clash on the way.
\<close>

theorem commit_refines_overlay:
  assumes "eng_wf e" and "\<not> x_done x" and "Txn_Commit g x e = (res, x', e')"
  shows "eng_wf e' \<and> (case res of Inl _ \<Rightarrow> db_of e' = db_of e
     | Inr _ \<Rightarrow> x_done x' \<and> db_of e' = db_overlay (x_ops x) (db_of e))"
  by (rule Txn_Commit_refines [OF assms])

lemma rec_type_simps [simp]:
  "rec_type (put_rec tid i r tx) = RecPut" "rec_type (delete_rec tid i tx) = RecDelete"
  "rec_type (create_rec n c tx) = RecCreate" "rec_type (drop_rec n tx) = RecDrop"
  "rec_txn (put_rec tid i r tx) = tx" "rec_txn (delete_rec tid i tx) = tx"
  "rec_txn (create_rec n c tx) = tx" "rec_txn (drop_rec n tx) = tx"
  by (simp_all add: put_rec_def delete_rec_def create_rec_def drop_rec_def)

text \<open>The buffered records of a commit, written without I/O errors.\<close>

lemma append_recs_clean:
  assumes "io_clean w" "list_all (encodable g) rs" "list_all (\<lambda>r. rec_type r \<noteq> RecCommit) rs"
  shows "append_recs g (rs @ [empty_rec RecCommit tx]) w =
    (Ok (), wal_logged g (rs @ [empty_rec RecCommit tx]) w)"
  using assms
proof (induction rs arbitrary: w)
  case Nil
  then show ?case by (simp add: wal_Append_clean encodable_mark wal_logged_def)
next
  case (Cons r rs)
  then show ?case by (simp add: wal_Append_clean wal_logged_def add.assoc)
qed

theorem commit_refines_overlay_witness:
  "fst (Txn_Commit sample_gob sample_txn sample_engine) = Ok ()
   \<and> db_of (snd (snd (Txn_Commit sample_gob sample_txn sample_engine))) = db_overlay (x_ops sample_txn) (db_of sample_engine)"
proof -
  have tab: "Txn_tableDef ''t'' sample_engine = Ok \<lparr>td_name = ''t'', td_cols = sample_cols\<rparr>"
    by (simp add: tableDef_db)
  have eff: "effMapLocked ''t'' sample_txn sample_engine = Ok (fmdrop 1 (fmupd 2 [VInt 2, VText ''y''] sample_rows))"
    by (simp add: effMap_view txn_view_def sample_txn_def)
  have chk: "checkUnique \<lparr>td_name = ''t'', td_cols = sample_cols\<rparr> 2 [VInt 2, VText ''y'']
      (fmdrop 1 (fmupd 2 [VInt 2, VText ''y''] sample_rows)) = Ok ()"
    by (subst checkUnique_iff)
      (auto simp: covers_def sample_uniqCols rows_cover_def clash_free_def has_key_def split: if_splits)
  have val: "commit_validate sample_txn sample_engine = Ok ()"
    using tab eff chk by (simp add: commit_validate_def sample_txn_def Engine_Get_db)
  have rs: "op_recs 1 (x_ops sample_txn) sample_engine = Ok [put_rec 0 2 [VInt 2, VText ''y''] 1, delete_rec 0 1 1]"
    by (simp add: sample_txn_def Engine_TableID_def sample_engine_def fresh_engine_def tab_at_def)
  have wal: "fst (append_recs sample_gob ([put_rec 0 2 [VInt 2, VText ''y''] 1, delete_rec 0 1 1] @ [empty_rec RecCommit 1])
      (e_wal sample_engine)) = Ok ()"
    by (subst append_recs_clean)
      (simp_all add: encodable_put_loggable encodable_delete max_int64_def)
  obtain res x' e' where c: "Txn_Commit sample_gob sample_txn sample_engine = (res, x', e')"
    by (metis prod.collapse)
  have "res = Ok ()"
    using c val rs wal
      apply_ops_overlay [of "sample_engine\<lparr>e_wal := snd (append_recs sample_gob ([put_rec 0 2 [VInt 2, VText ''y''] 1, delete_rec 0 1 1]
        @ [empty_rec RecCommit 1]) (e_wal sample_engine))\<rparr>" "x_ops sample_txn"]
      validate_tables [OF val] validate_puts [OF val]
    by (auto simp: Txn_Commit_def Let_def commitTxn_def sample_txn_def split: prod.splits)
  with c commit_refines_overlay [OF sample_engine_wf _ c] show ?thesis by (simp add: sample_txn_def)
qed



end
