(* ===== verification/Accessor.thy ===== *)
theory Accessor
  imports Txn
begin

text \<open>
  The interface \<open>Accessor\<close> of \<open>internal/storage/txn.go\<close>, through which the executor reads
  and writes tables. A Go interface value is a record of the operations; the state they
  work on is the engine for autocommit, and a transaction with its engine inside an
  explicit transaction.

  \<open>accessor_laws\<close> states what the executor relies on, over an abstract view (the columns
  and rows of each table) and an invariant. Both implementations are interpreted.
\<close>

record 's accessor =
  ac_Catalog :: "'s \<Rightarrow> tabledef list"
  ac_AllRows :: "string \<Rightarrow> 's \<Rightarrow> (storage_error, int64 list \<times> row list) res"
  ac_Get :: "string \<Rightarrow> int64 \<Rightarrow> 's \<Rightarrow> row option"
  ac_UniqueGet :: "string \<Rightarrow> nat \<Rightarrow> val \<Rightarrow> 's \<Rightarrow> int64 option"
  ac_Put :: "string \<Rightarrow> int64 \<Rightarrow> row \<Rightarrow> 's \<Rightarrow> (storage_error, int64) res \<times> 's"
  ac_PutAuto :: "string \<Rightarrow> int \<Rightarrow> row \<Rightarrow> 's \<Rightarrow> (storage_error, int64) res \<times> 's"
  ac_Update :: "string \<Rightarrow> int64 \<Rightarrow> row \<Rightarrow> 's \<Rightarrow> (storage_error, unit) res \<times> 's"
  ac_Delete :: "string \<Rightarrow> int64 \<Rightarrow> 's \<Rightarrow> (storage_error, unit) res \<times> 's"

definition engine_accessor :: "gob \<Rightarrow> engine accessor" where
  "engine_accessor g =
     \<lparr>ac_Catalog = Engine_Catalog, ac_AllRows = Engine_AllRows, ac_Get = Engine_Get,
      ac_UniqueGet = Engine_UniqueGet, ac_Put = Engine_Put g, ac_PutAuto = Engine_PutAuto g,
      ac_Update = Engine_Update g, ac_Delete = Engine_Delete g\<rparr>"

definition txn_accessor :: "(txn \<times> engine) accessor" where
  "txn_accessor =
     \<lparr>ac_Catalog = (\<lambda>(x, e). Engine_Catalog e),
      ac_AllRows = (\<lambda>n (x, e). Txn_AllRows n x e),
      ac_Get = (\<lambda>n i (x, e). Txn_Get n i x e),
      ac_UniqueGet = (\<lambda>n ci v (x, e). Txn_UniqueGet n ci v x e),
      ac_Put = (\<lambda>n i r (x, e). Txn_Put n i r x e),
      ac_PutAuto = (\<lambda>n pk r (x, e). Txn_PutAuto n pk r x e),
      ac_Update = (\<lambda>n i r (x, e). case Txn_Update n i r x e of (res, x') \<Rightarrow> (res, x', e)),
      ac_Delete = (\<lambda>n i (x, e). case Txn_Delete n i x e of (res, x') \<Rightarrow> (res, x', e))\<rparr>"

section \<open>The contract\<close>

type_synonym view = "string \<Rightarrow> (column list \<times> rows) option"

locale accessor_laws =
  fixes a :: "'s accessor" and inv :: "'s \<Rightarrow> bool" and view :: "'s \<Rightarrow> view"
  assumes catalog: "inv s \<Longrightarrow> find (\<lambda>d. td_name d = n) (ac_Catalog a s) =
        map_option (\<lambda>(c, m). \<lparr>td_name = n, td_cols = c\<rparr>) (view s n)"
    and all_rows: "inv s \<Longrightarrow> ac_AllRows a n s =
        (case view s n of None \<Rightarrow> Err ErrNoTable | Some (c, m) \<Rightarrow> Ok (rows_list m))"
    and get: "inv s \<Longrightarrow> view s n = Some (c, m) \<Longrightarrow> ac_Get a n i s = fmlookup m i"
    and unique_get: "inv s \<Longrightarrow> view s n = Some (c, m) \<Longrightarrow> ci \<in> set (uniqCols_of c) \<Longrightarrow> \<not> IsNull v \<Longrightarrow>
        ac_UniqueGet a n ci v s = Some i \<longleftrightarrow> has_key m ci (uniqKey v) i"
    and put: "inv s \<Longrightarrow> ac_Put a n i r s = (res, s') \<Longrightarrow> inv s' \<and> (case res of Inl _ \<Rightarrow> view s' = view s
        | Inr j \<Rightarrow> \<exists>c m. view s n = Some (c, m) \<and> length r = length c \<and> clash_free c m j r
            \<and> (i \<noteq> 0 \<longrightarrow> j = i \<and> fmlookup m i = None) \<and> view s' = (view s)(n \<mapsto> (c, fmupd j r m)))"
    and put_auto: "inv s \<Longrightarrow> ac_PutAuto a n pk r s = (res, s') \<Longrightarrow> inv s' \<and> (case res of Inl _ \<Rightarrow> view s' = view s
        | Inr j \<Rightarrow> \<exists>c m. view s n = Some (c, m) \<and> length r = length c \<and> clash_free c m j (stamp pk j r)
            \<and> view s' = (view s)(n \<mapsto> (c, fmupd j (stamp pk j r) m)))"
    and update: "inv s \<Longrightarrow> ac_Update a n i r s = (res2, s') \<Longrightarrow> inv s' \<and> (case res2 of Inl _ \<Rightarrow> view s' = view s
        | Inr _ \<Rightarrow> \<exists>c m. view s n = Some (c, m) \<and> length r = length c \<and> fmlookup m i \<noteq> None
            \<and> clash_free c m i r \<and> view s' = (view s)(n \<mapsto> (c, fmupd i r m)))"
    and delete: "inv s \<Longrightarrow> ac_Delete a n i s = (res2, s') \<Longrightarrow> inv s' \<and> (case res2 of Inl _ \<Rightarrow> view s' = view s
        | Inr _ \<Rightarrow> \<exists>c m. view s n = Some (c, m) \<and> fmlookup m i \<noteq> None
            \<and> view s' = (view s)(n \<mapsto> (c, fmdrop i m)))"
begin

text \<open>Other tables never change.\<close>

lemma put_other: "inv s \<Longrightarrow> ac_Put a n i r s = (res, s') \<Longrightarrow> n' \<noteq> n \<Longrightarrow> view s' n' = view s n'"
  using put [of s n i r res s'] by (cases res) auto

lemma put_auto_other: "inv s \<Longrightarrow> ac_PutAuto a n pk r s = (res, s') \<Longrightarrow> n' \<noteq> n \<Longrightarrow> view s' n' = view s n'"
  using put_auto [of s n pk r res s'] by (cases res) auto

lemma update_other: "inv s \<Longrightarrow> ac_Update a n i r s = (res, s') \<Longrightarrow> n' \<noteq> n \<Longrightarrow> view s' n' = view s n'"
  using update [of s n i r res s'] by (cases res) auto

lemma delete_other: "inv s \<Longrightarrow> ac_Delete a n i s = (res, s') \<Longrightarrow> n' \<noteq> n \<Longrightarrow> view s' n' = view s n'"
  using delete [of s n i res s'] by (cases res) auto

text \<open>A stored row is read back.\<close>

lemma put_get:
  assumes "inv s" "ac_Put a n i r s = (Ok j, s')"
  shows "ac_Get a n j s' = Some r"
  using put [OF assms] get [of s' n _ _ j] by auto

lemma delete_get:
  assumes "inv s" "ac_Delete a n i s = (Ok u, s')"
  shows "ac_Get a n i s' = None"
  using delete [OF assms] get [of s' n _ _ i] by auto

text \<open>After any write, each key still belongs to at most one row.\<close>

lemma unique_key:
  assumes "inv s" "view s n = Some (c, m)" "ci \<in> set (uniqCols_of c)" "\<not> IsNull v"
    and "has_key m ci (uniqKey v) i" "has_key m ci (uniqKey v) j"
  shows "i = j"
  using unique_get [OF assms(1-4)] assms(5,6) by (metis option.inject)

end

section \<open>The implementations\<close>

definition engine_view :: "engine \<Rightarrow> view" where
  "engine_view e n = map_option (\<lambda>(i, c, m). (c, m)) (db_of e n)"

lemma engine_view_upd:
  "db_of e n = Some (i, c, m) \<Longrightarrow> db_of e' = db_upd n f (db_of e) \<Longrightarrow> engine_view e' = (engine_view e)(n \<mapsto> (c, f m))"
  by (auto simp: engine_view_def db_upd_def fun_eq_iff)

lemma engine_view_same: "db_of e' = db_of e \<Longrightarrow> engine_view e' = engine_view e"
  by (simp add: engine_view_def fun_eq_iff)

lemma find_catalog:
  assumes "eng_wf e"
  shows "find (\<lambda>d. td_name d = n) (Engine_Catalog e) = map_option (\<lambda>(i, c, m). \<lparr>td_name = n, td_cols = c\<rparr>) (db_of e n)"
  using tableDef_db [OF assms, of n]
  by (auto simp: Txn_tableDef_def split: option.splits)

lemma engine_unique_get:
  assumes "eng_wf e" "engine_view e n = Some (c, m)" "ci \<in> set (uniqCols_of c)" "\<not> IsNull v"
  shows "Engine_UniqueGet n ci v e = Some i \<longleftrightarrow> has_key m ci (uniqKey v) i"
proof -
  from assms(2) obtain tid where "db_of e n = Some (tid, c, m)" by (auto simp: engine_view_def)
  with assms(1) obtain p where p: "fmlookup (tables e) n = Some p" "t_cols (heap e ! p) = c" "t_rows (heap e ! p) = m"
      "tab_wf (heap e ! p)"
    by (rule db_tab)
  have "Engine_UniqueGet n ci v e = fmlookup (u_at (t_uniq (heap e ! p)) ci) (uniqKey v)"
    using p(1) assms(4) by (auto simp: Engine_UniqueGet_def tab_at_def u_at_def split: option.split)
  then show ?thesis using tab_wf_lookup [OF p(4), of ci "uniqKey v" i] p(2,3) assms(3) by (simp add: uniqCols_def)
qed

lemma engine_put_view:
  assumes "eng_wf e" "Engine_put g n pk i r must e = (res, e')"
  shows "eng_wf e' \<and> (case res of Inl _ \<Rightarrow> engine_view e' = engine_view e
    | Inr j \<Rightarrow> \<exists>c m. engine_view e n = Some (c, m) \<and> length r = length c \<and> clash_free c m j (stamp pk j r)
        \<and> (i \<noteq> 0 \<longrightarrow> j = i \<and> (fmlookup m i \<noteq> None \<longleftrightarrow> must)) \<and> engine_view e' = (engine_view e)(n \<mapsto> (c, fmupd j (stamp pk j r) m)))"
proof (cases res)
  case (Inl err)
  with Engine_put_wf [OF assms] have "eng_wf e'" "db_of e' = db_of e" by simp_all
  with Inl engine_view_same [OF this(2)] show ?thesis by simp
next
  case (Inr j)
  with Engine_put_wf [OF assms] have e': "eng_wf e'" "put_effect n pk i r must (db_of e) j (db_of e')" by simp_all
  then obtain tid c m where *: "db_of e n = Some (tid, c, m)" "length r = length c"
      "clash_free c m j (stamp pk j r)" "i \<noteq> 0 \<longrightarrow> j = i \<and> (fmlookup m i \<noteq> None \<longleftrightarrow> must)"
      "db_of e' = db_upd n (fmupd j (stamp pk j r)) (db_of e)"
    unfolding put_effect_def by blast
  have "engine_view e n = Some (c, m)" using *(1) by (simp add: engine_view_def)
  then have "\<exists>c m. engine_view e n = Some (c, m) \<and> length r = length c \<and> clash_free c m j (stamp pk j r)
        \<and> (i \<noteq> 0 \<longrightarrow> j = i \<and> (fmlookup m i \<noteq> None \<longleftrightarrow> must))
        \<and> engine_view e' = (engine_view e)(n \<mapsto> (c, fmupd j (stamp pk j r) m))"
    using *(2-4) engine_view_upd [OF *(1,5)] by blast
  with Inr e'(1) show ?thesis by simp
qed

lemma engine_delete_view:
  assumes "eng_wf e" "Engine_Delete g n i e = (res, e')"
  shows "eng_wf e' \<and> (case res of Inl _ \<Rightarrow> engine_view e' = engine_view e
    | Inr _ \<Rightarrow> \<exists>c m. engine_view e n = Some (c, m) \<and> fmlookup m i \<noteq> None
        \<and> engine_view e' = (engine_view e)(n \<mapsto> (c, fmdrop i m)))"
proof (cases res)
  case (Inl err)
  with Engine_Delete_wf [OF assms] have "eng_wf e'" "db_of e' = db_of e" by simp_all
  with Inl engine_view_same [OF this(2)] show ?thesis by simp
next
  case (Inr u)
  with Engine_Delete_wf [OF assms] have e': "eng_wf e'" "delete_effect n i (db_of e) (db_of e')" by simp_all
  then obtain tid c m where *: "db_of e n = Some (tid, c, m)" "fmlookup m i \<noteq> None" "db_of e' = db_upd n (fmdrop i) (db_of e)"
    unfolding delete_effect_def by blast
  have "engine_view e n = Some (c, m)" using *(1) by (simp add: engine_view_def)
  then have "\<exists>c m. engine_view e n = Some (c, m) \<and> fmlookup m i \<noteq> None \<and> engine_view e' = (engine_view e)(n \<mapsto> (c, fmdrop i m))"
    using *(2) engine_view_upd [OF *(1,3)] by blast
  with Inr e'(1) show ?thesis by simp
qed

interpretation ea: accessor_laws "engine_accessor g" eng_wf engine_view
proof (unfold_locales, goal_cases)
  case (1 s n)
  then show ?case by (auto simp: engine_accessor_def find_catalog engine_view_def option.map_comp intro!: option.map_cong)
next
  case (2 s n)
  then show ?case by (auto simp: engine_accessor_def Engine_AllRows_def engine_view_def db_of_def abs_t_def split: option.split)
next
  case (3 s n c m i)
  then show ?case by (auto simp: engine_accessor_def Engine_Get_db engine_view_def)
next
  case (4 s n c m ci v i)
  then show ?case by (simp add: engine_accessor_def engine_unique_get)
next
  case (5 s n i r res s')
  then have "Engine_put g n (-1) i r False s = (res, s')" by (simp add: engine_accessor_def Engine_Put_def)
  from engine_put_view [OF 5(1) this] show ?case by (cases res) simp_all
next
  case (6 s n pk r res s')
  then have "Engine_put g n pk 0 r False s = (res, s')" by (simp add: engine_accessor_def Engine_PutAuto_def)
  from engine_put_view [OF 6(1) this] show ?case by (cases res) simp_all
next
  case (7 s n i r res s')
  then obtain q where q: "Engine_put g n (-1) i r True s = (q, s')" "res = (case q of Inl x \<Rightarrow> Err x | Inr _ \<Rightarrow> Ok ())"
    by (auto simp: engine_accessor_def Engine_Update_eq)
  have "i \<noteq> 0" if "q = Ok j" for j using q(1) that by (auto simp: Engine_put_def split: if_splits)
  with q(2) engine_put_view [OF 7(1) q(1)] show ?case by (cases q) auto
next
  case (8 s n i res s')
  then have "Engine_Delete g n i s = (res, s')" by (simp add: engine_accessor_def)
  from engine_delete_view [OF 8(1) this] show ?case .
qed

lemma scan_key_unique:
  assumes "\<And>i j. i \<in> set ids \<Longrightarrow> j \<in> set ids \<Longrightarrow> P i \<Longrightarrow> P j \<Longrightarrow> i = j"
    and "\<And>i. i \<in> set ids \<Longrightarrow> ci < length (f i) \<and> uniqKey (f i ! ci) = k \<longleftrightarrow> P i"
  shows "scan_key ci k (map (\<lambda>i. (i, f i)) ids) = Some i \<longleftrightarrow> i \<in> set ids \<and> P i"
  using assms by (induction ids) (auto split: if_splits)

lemma txn_unique_get:
  assumes inv: "txn_inv x e" and v: "txn_view x e n = Some (c, m)" and ci: "ci \<in> set (uniqCols_of c)"
    and nn: "\<not> IsNull v"
  shows "Txn_UniqueGet n ci v x e = Some i \<longleftrightarrow> has_key m ci (uniqKey v) i"
proof -
  have nd: "\<not> x_done x" and cov: "rows_cover c m" and un: "unique_rows c m"
    using inv v by (auto simp: txn_inv_def)
  let ?f = "\<lambda>i. the (fmlookup m i)"
  have "Txn_UniqueGet n ci v x e = scan_key ci (uniqKey v) (map (\<lambda>i. (i, ?f i)) (fmkeys m))"
    using nd nn v by (simp add: Txn_UniqueGet_def effRowsLocked_def effMap_view rows_list_def Let_def zip_map_right)
  moreover have "ci < length (?f j) \<and> uniqKey (?f j ! ci) = uniqKey v \<longleftrightarrow> has_key m ci (uniqKey v) j"
    if "j \<in> set (fmkeys m)" for j
  proof -
    from that obtain r where r: "fmlookup m j = Some r" by auto
    then have "ci < length r" using cov ci by (auto simp: rows_cover_def covers_def list_all_iff)
    with r nn show ?thesis using uniqKey_null [of "r ! ci" v] by (auto simp: has_key_def)
  qed
  moreover have "has_key m ci (uniqKey v) i \<Longrightarrow> i \<in> set (fmkeys m)" by (auto simp: has_key_def split: option.splits)
  ultimately show ?thesis
    using un ci scan_key_unique [of "fmkeys m" "has_key m ci (uniqKey v)" ci ?f "uniqKey v" i]
    unfolding unique_rows_def by metis
qed

interpretation ta: accessor_laws txn_accessor "\<lambda>(x, e). txn_inv x e" "\<lambda>(x, e). txn_view x e"
proof (unfold_locales, goal_cases)
  case (1 s n)
  then show ?case
    by (auto simp: txn_accessor_def txn_inv_def find_catalog txn_view_def option.map_comp intro!: option.map_cong)
next
  case (2 s n)
  then show ?case by (auto simp: txn_accessor_def txn_inv_def Txn_AllRows_view)
next
  case (3 s n c m i)
  then show ?case by (auto simp: txn_accessor_def txn_inv_def Txn_Get_view)
next
  case (4 s n c m ci v i)
  then show ?case by (auto simp: txn_accessor_def txn_unique_get)
next
  case (5 s n i r res s')
  obtain x e x' e' where s: "s = (x, e)" "s' = (x', e')" by fastforce
  with 5 Txn_Put_inv [of x e n i r res x' e'] show ?case
    by (cases res) (auto simp: txn_accessor_def txn_put_effect_def)
next
  case (6 s n pk r res s')
  obtain x e x' e' where s: "s = (x, e)" "s' = (x', e')" by fastforce
  with 6 Txn_PutAuto_inv [of x e n pk r res x' e'] show ?case
    by (cases res) (auto simp: txn_accessor_def txn_put_effect_def)
next
  case (7 s n i r res s')
  obtain x e x' e' where s: "s = (x, e)" "s' = (x', e')" by fastforce
  with 7 Txn_Update_inv [of x e n i r res x'] show ?case
    by (cases res) (auto simp: txn_accessor_def split: prod.splits)
next
  case (8 s n i res s')
  obtain x e x' e' where s: "s = (x, e)" "s' = (x', e')" by fastforce
  with 8 Txn_Delete_inv [of x e n i res x'] show ?case
    by (cases res) (auto simp: txn_accessor_def split: prod.splits)
qed

text \<open>
  C18: a written row is read back, in autocommit and inside a transaction: after a
  successful \<open>Put\<close> the \<open>Get\<close> of the returned id yields the row, and after a successful
  \<open>Delete\<close> it yields nothing.
\<close>

theorem accessor_read_back:
  "(\<forall>e j e'. eng_wf e \<longrightarrow> Engine_Put g n i r e = (Ok j, e') \<longrightarrow> Engine_Get n j e' = Some r)
   \<and> (\<forall>e e'. eng_wf e \<longrightarrow> Engine_Delete g n i e = (Ok (), e') \<longrightarrow> Engine_Get n i e' = None)
   \<and> (\<forall>x e j x' e'. txn_inv x e \<longrightarrow> Txn_Put n i r x e = (Ok j, x', e') \<longrightarrow> Txn_Get n j x' e' = Some r)
   \<and> (\<forall>x e x'. txn_inv x e \<longrightarrow> Txn_Delete n i x e = (Ok (), x') \<longrightarrow> Txn_Get n i x' e = None)"
proof (intro conjI allI impI)
  fix e j e' assume "eng_wf e" "Engine_Put g n i r e = (Ok j, e')"
  then show "Engine_Get n j e' = Some r" using ea.put_get [of e g n i r j e'] by (simp add: engine_accessor_def)
next
  fix e e' assume "eng_wf e" "Engine_Delete g n i e = (Ok (), e')"
  then show "Engine_Get n i e' = None" using ea.delete_get [of e g n i "()" e'] by (simp add: engine_accessor_def)
next
  fix x e j x' e' assume "txn_inv x e" "Txn_Put n i r x e = (Ok j, x', e')"
  then show "Txn_Get n j x' e' = Some r" using ta.put_get [of "(x, e)" n i r j "(x', e')"] by (simp add: txn_accessor_def)
next
  fix x e x' assume "txn_inv x e" "Txn_Delete n i x e = (Ok (), x')"
  then show "Txn_Get n i x' e = None" using ta.delete_get [of "(x, e)" n i "()" "(x', e)"] by (simp add: txn_accessor_def)
qed

theorem accessor_read_back_witness:
  "Engine_Get ''t'' 2 (snd (Engine_Put sample_gob ''t'' 2 [VInt 2, VText ''y''] sample_engine)) = Some [VInt 2, VText ''y'']"
proof -
  have "Engine_Put sample_gob ''t'' 2 [VInt 2, VText ''y''] sample_engine =
      (Ok 2, snd (Engine_Put sample_gob ''t'' 2 [VInt 2, VText ''y''] sample_engine))"
    using Engine_put_clean [of sample_engine "''t''" 0 sample_cols sample_rows "[VInt 2, VText ''y'']" 2 sample_gob False]
    by (simp add: Engine_Put_def max_int64_def prod_eq_iff)
  with accessor_read_back [of sample_gob "''t''" 2 "[VInt 2, VText ''y'']"] sample_engine_wf show ?thesis by blast
qed

end
