(* ===== verification/Recovery.thy ===== *)
theory Recovery
  imports Accessor
begin

text \<open>
  Durability and crash recovery: what \<open>Open\<close> makes of the log that the operations of the
  engine and of transactions have written.

  An \<open>action\<close> is the content of one committed transaction. \<open>logged\<close> relates a list of log
  records to the database it stands for: segments of committed actions, and records
  without a commit in between. The lemmas show that every operation extends the log by
  such a segment exactly when it changes the database, and that replaying a log, or any
  part of it that a crash leaves, rebuilds the database of its last complete commit.
\<close>

section \<open>The log as a sequence of actions\<close>

datatype action = ACreate string "column list" | ADrop string | AOps "txop list"

type_synonym dbstate = "db \<times> uint32"

definition st :: "engine \<Rightarrow> dbstate" where
  "st e = (db_of e, nextTableID e)"

definition id_of :: "db \<Rightarrow> string \<Rightarrow> uint32" where
  "id_of d n = (case d n of Some (i, c, m) \<Rightarrow> i | None \<Rightarrow> 0)"

fun op_rec :: "uint64 \<Rightarrow> (string \<Rightarrow> uint32) \<Rightarrow> txop \<Rightarrow> walrec" where
  "op_rec tx idf (OpPut n i r) = put_rec (idf n) i r tx"
| "op_rec tx idf (OpDelete n i) = delete_rec (idf n) i tx"

fun act_recs :: "uint64 \<Rightarrow> action \<Rightarrow> dbstate \<Rightarrow> walrec list" where
  "act_recs tx (ACreate n c) s = [create_rec n c tx]"
| "act_recs tx (ADrop n) s = [drop_rec n tx]"
| "act_recs tx (AOps ops) s = map (op_rec tx (id_of (fst s))) ops"

fun act_db :: "action \<Rightarrow> dbstate \<Rightarrow> dbstate" where
  "act_db (ACreate n c) (d, k) = (d(n \<mapsto> (k, c, fmempty)), k + 1)"
| "act_db (ADrop n) (d, k) = (d(n := None), k)"
| "act_db (AOps ops) (d, k) = (db_overlay ops d, k)"

fun act_ok :: "action \<Rightarrow> dbstate \<Rightarrow> bool" where
  "act_ok (ACreate n c) (d, k) \<longleftrightarrow> d n = None \<and> k + 1 \<noteq> 0"
| "act_ok (ADrop n) (d, k) \<longleftrightarrow> d n \<noteq> None"
| "act_ok (AOps ops) (d, k) \<longleftrightarrow> (\<forall>o1 \<in> set ops. d (op_name o1) \<noteq> None)
     \<and> (\<forall>n i c m j r. d n = Some (i, c, m) \<longrightarrow> RPut j r \<in> set (ops_on n ops) \<longrightarrow>
          covers c r \<and> clash_free c (fold rowop_rows (ops_on n ops) m) j r)"

definition quiet :: "walrec list \<Rightarrow> bool" where
  "quiet rs \<longleftrightarrow> list_all (\<lambda>r. rec_type r \<noteq> RecCommit) rs"

inductive logged :: "dbstate \<Rightarrow> walrec list \<Rightarrow> dbstate \<Rightarrow> bool" for s0 where
  start: "logged s0 [] s0"
| uncommitted: "logged s0 rs s \<Longrightarrow> quiet rs' \<Longrightarrow> logged s0 (rs @ rs') s"
| committed: "logged s0 rs s \<Longrightarrow> tx \<notin> rec_txn ` set rs \<Longrightarrow> act_ok a s \<Longrightarrow>
    pre = [] \<or> pre = [empty_rec RecBegin tx] \<Longrightarrow>
    logged s0 (rs @ pre @ act_recs tx a s @ [empty_rec RecCommit tx]) (act_db a s)"

section \<open>Replay of one action\<close>

lemma tables_db: "fmlookup (tables e) n = Some p \<Longrightarrow> db_of e n = Some (t_id (heap e ! p), t_cols (heap e ! p), t_rows (heap e ! p))"
  by (simp add: db_of_def tab_at_def abs_t_def)

lemma tables_None: "fmlookup (tables e) n = None \<longleftrightarrow> db_of e n = None"
  by (simp add: db_of_def tab_at_def)

definition ids_ok :: "(string \<Rightarrow> uint32) \<Rightarrow> engine \<Rightarrow> bool" where
  "ids_ok idf e \<longleftrightarrow> (\<forall>n p. fmlookup (tables e) n = Some p \<longrightarrow> fmlookup (byID e) (idf n) = Some p)"

lemma ids_ok_db: "eng_wf e \<Longrightarrow> ids_ok (id_of (db_of e)) e"
  by (auto simp: ids_ok_def id_of_def tables_db dest: eng_wf_tabD(3))

lemma applyRecord_op:
  assumes "fmlookup (tables e) (op_name o1) = Some p" "ids_ok idf e"
  shows "applyRecord (op_rec tx idf o1) e =
    (case (case o1 of OpPut n i r \<Rightarrow> Engine_applyPut n i r e | OpDelete n i \<Rightarrow> Engine_applyDelete n i e) of
       (Inl x, e) \<Rightarrow> Err x | (Inr _, e) \<Rightarrow> Ok e)"
  using assms
  by (cases o1) (auto simp: ids_ok_def applyRecord_def put_rec_def delete_rec_def Engine_applyPut_def
      Engine_applyDelete_def Let_def empty_rec_def)

lemma apply_one_frame:
  assumes "(case o1 of OpPut n i r \<Rightarrow> Engine_applyPut n i r e | OpDelete n i \<Rightarrow> Engine_applyDelete n i e) = (res, e1)"
  shows "tables e1 = tables e" "byID e1 = byID e"
  using assms by (cases o1; auto simp: Engine_applyPut_def Engine_applyDelete_def Let_def split: option.splits if_splits)+

lemma apply_all_ops:
  assumes "\<And>o1. o1 \<in> set ops \<Longrightarrow> fmlookup (tables e) (op_name o1) \<noteq> None" "ids_ok idf e"
  shows "apply_all (map (op_rec tx idf) ops) e = (case apply_ops ops e of (Inl x, e) \<Rightarrow> Err x | (Inr _, e) \<Rightarrow> Ok e)"
  using assms
proof (induction ops arbitrary: e)
  case (Cons o1 ops)
  obtain p where p: "fmlookup (tables e) (op_name o1) = Some p" using Cons.prems(1) [of o1] by auto
  obtain r1 e1 where r1: "(case o1 of OpPut n i r \<Rightarrow> Engine_applyPut n i r e | OpDelete n i \<Rightarrow> Engine_applyDelete n i e) = (r1, e1)"
    by fastforce
  note fr = apply_one_frame [OF r1]
  have "apply_all (map (op_rec tx idf) ops) e1 = (case apply_ops ops e1 of (Inl x, e) \<Rightarrow> Err x | (Inr _, e) \<Rightarrow> Ok e)"
    using Cons.prems fr by (intro Cons.IH) (auto simp: ids_ok_def)
  with applyRecord_op [OF p Cons.prems(2), of tx] r1 show ?case by (cases r1) simp_all
qed simp

text \<open>What replay leaves alone.\<close>

definition same_files :: "engine \<Rightarrow> engine \<Rightarrow> bool" where
  "same_files e e' \<longleftrightarrow> e_wal e' = e_wal e \<and> e_dir e' = e_dir e \<and> txSeq e' = txSeq e"

lemma apply_action:
  assumes wf: "eng_wf e" and ok: "act_ok a (st e)"
  shows "\<exists>e'. apply_all (act_recs tx a (st e)) e = Ok e' \<and> eng_wf e' \<and> st e' = act_db a (st e) \<and> same_files e e'"
proof (cases a)
  case (ACreate n c)
  with ok have n: "fmlookup (tables e) n = None" "nextTableID e + 1 \<noteq> 0"
    by (simp_all add: st_def tables_None)
  then show ?thesis
    using ACreate eng_wf_addTable [OF wf n, of c] db_addTable [OF wf, of n c]
    by (simp add: applyRecord_def create_rec_def st_def same_files_def empty_rec_def)
next
  case (ADrop n)
  with ok obtain p where p: "fmlookup (tables e) n = Some p" by (auto simp: st_def db_of_def tab_at_def)
  then show ?thesis
    using ADrop eng_wf_dropTable [OF wf p] db_dropTable [OF wf p]
    by (simp add: applyRecord_def drop_rec_def st_def same_files_def empty_rec_def) (simp add: dropTableLocked_def Let_def)
next
  case (AOps ops)
  with ok have tabs: "\<And>o1. o1 \<in> set ops \<Longrightarrow> fmlookup (tables e) (op_name o1) \<noteq> None"
    by (auto simp: st_def tables_None)
  from ok AOps have puts: "\<And>n i c m j r. db_of e n = Some (i, c, m) \<Longrightarrow> RPut j r \<in> set (ops_on n ops) \<Longrightarrow>
      covers c r \<and> clash_free c (fold rowop_rows (ops_on n ops) m) j r"
    unfolding st_def AOps act_ok.simps by blast
  obtain h where h: "apply_ops ops e = (Ok (), e\<lparr>heap := h\<rparr>)" "eng_wf (e\<lparr>heap := h\<rparr>)"
      "db_of (e\<lparr>heap := h\<rparr>) = db_overlay ops (db_of e)"
    using apply_ops_overlay [OF wf tabs, of ops] puts by blast
  with AOps apply_all_ops [OF tabs ids_ok_db [OF wf], of ops tx] show ?thesis
    by (simp add: st_def same_files_def)
qed

section \<open>Replay of a log\<close>

lemma replay_append:
  "replay P (rs @ rs') e = (case replay P rs e of Inl x \<Rightarrow> Err x | Inr (P', e') \<Rightarrow> replay P' rs' e')"
proof (induction rs arbitrary: P e)
  case (Cons r rs)
  then show ?case by (cases "applyPendingLocked P (rec_txn r) e") (auto simp: fun_upd_def)
qed simp

lemma replay_quiet:
  "quiet rs \<Longrightarrow> \<exists>P'. replay P rs e = Ok (P', e) \<and> (\<forall>tx. tx \<notin> rec_txn ` set rs \<longrightarrow> P' tx = P tx)"
proof (induction rs arbitrary: P)
  case (Cons r rs)
  then show ?case by (cases "rec_type r = RecBegin") (fastforce simp: quiet_def)+
qed simp

definition pends :: "walrec \<Rightarrow> bool" where
  "pends r \<longleftrightarrow> rec_type r \<noteq> RecBegin \<and> rec_type r \<noteq> RecCommit"

lemma replay_pending:
  "list_all (\<lambda>r. pends r \<and> rec_txn r = tx) rs \<Longrightarrow> replay P rs e = Ok (P(tx := P tx @ rs), e)"
  by (induction rs arbitrary: P) (auto simp: pends_def)

lemma act_recs_pend: "list_all (\<lambda>r. pends r \<and> rec_txn r = tx) (act_recs tx a s)"
proof (cases a)
  case (AOps ops)
  have "pends (op_rec tx idf o1) \<and> rec_txn (op_rec tx idf o1) = tx" for idf o1
    by (cases o1) (simp_all add: pends_def)
  with AOps show ?thesis by (simp add: list_all_iff)
qed (simp_all add: pends_def)

lemma replay_segment:
  assumes "P tx = []" "apply_all rs e = Ok e'" "list_all (\<lambda>r. pends r \<and> rec_txn r = tx) rs"
    and "pre = [] \<or> pre = [empty_rec RecBegin tx]"
  shows "replay P (pre @ rs @ [empty_rec RecCommit tx]) e = Ok (P, e')"
proof -
  have "replay P (rs @ [empty_rec RecCommit tx]) e = Ok (P, e')"
    using assms(1,2) by (simp add: replay_append replay_pending [OF assms(3)] applyPendingLocked_def fun_upd_idem)
  with assms(4) show ?thesis by auto
qed

lemma replay_logged:
  assumes "logged s0 rs s" "eng_wf e0" "st e0 = s0"
  shows "\<exists>P e'. replay (\<lambda>_. []) rs e0 = Ok (P, e') \<and> eng_wf e' \<and> st e' = s \<and> same_files e0 e'
    \<and> (\<forall>tx. tx \<notin> rec_txn ` set rs \<longrightarrow> P tx = [])"
  using assms(1)
proof induction
  case start
  then show ?case using assms(2,3) by (simp add: same_files_def)
next
  case (uncommitted rs s rs')
  then obtain P e' where *: "replay (\<lambda>_. []) rs e0 = Ok (P, e')" "eng_wf e'" "st e' = s" "same_files e0 e'"
      "\<forall>tx. tx \<notin> rec_txn ` set rs \<longrightarrow> P tx = []" by blast
  from replay_quiet [OF uncommitted(2), of P e'] obtain P' where
    "replay P rs' e' = Ok (P', e')" "\<forall>tx. tx \<notin> rec_txn ` set rs' \<longrightarrow> P' tx = P tx" by blast
  with * show ?case by (simp add: replay_append image_Un)
next
  case (committed rs s tx a pre)
  then obtain P e' where *: "replay (\<lambda>_. []) rs e0 = Ok (P, e')" "eng_wf e'" "st e' = s" "same_files e0 e'"
      "\<forall>tx. tx \<notin> rec_txn ` set rs \<longrightarrow> P tx = []" by blast
  obtain e2 where e2: "apply_all (act_recs tx a s) e' = Ok e2" "eng_wf e2" "st e2 = act_db a s" "same_files e' e2"
    using apply_action [of e' a tx] *(2,3) committed(3) by auto
  have "replay P (pre @ act_recs tx a s @ [empty_rec RecCommit tx]) e' = Ok (P, e2)"
    using replay_segment [OF _ e2(1) act_recs_pend committed(4)] *(5) committed(2) by blast
  then have "replay (\<lambda>_. []) (rs @ pre @ act_recs tx a s @ [empty_rec RecCommit tx]) e0 = Ok (P, e2)"
    using *(1) by (simp only: replay_append [of _ rs]) simp
  moreover have "same_files e0 e2" using *(4) e2(4) by (simp add: same_files_def)
  moreover have "\<forall>t. t \<notin> rec_txn ` set (rs @ pre @ act_recs tx a s @ [empty_rec RecCommit tx]) \<longrightarrow> P t = []"
    using *(5) by auto
  ultimately show ?case using e2(2,3) by blast
qed

section \<open>Opening a directory\<close>

definition snap_of :: "datadir \<Rightarrow> snapshotData option" where
  "snap_of d = (case d_manifest d of None \<Rightarrow> None | Some q \<Rightarrow> fmlookup (d_snaps d) q)"

definition base_engine :: "snapshotData option \<Rightarrow> wal \<Rightarrow> datadir \<Rightarrow> engine" where
  "base_engine snap w d = (case snap of None \<Rightarrow> fresh_engine w d | Some sd \<Rightarrow> load_snapshot sd (fresh_engine w d))"

text \<open>\<open>base_ok d s0\<close>: without a log, the directory opens to a well-formed engine in state \<open>s0\<close>.\<close>

definition base_ok :: "datadir \<Rightarrow> dbstate \<Rightarrow> bool" where
  "base_ok d s0 \<longleftrightarrow> d_faults d = [] \<and> (\<forall>sd. snap_of d = Some sd \<longrightarrow> \<not> snapshot_panics sd)
     \<and> (\<forall>w d'. eng_wf (base_engine (snap_of d) w d') \<and> st (base_engine (snap_of d) w d') = s0)"

definition same_dir :: "datadir \<Rightarrow> datadir \<Rightarrow> bool" where
  "same_dir d d' \<longleftrightarrow> d_snaps d' = d_snaps d \<and> d_manifest d' = d_manifest d \<and> d_faults d' = d_faults d"

lemma base_ok_same: "same_dir d d' \<Longrightarrow> base_ok d' s0 = base_ok d s0"
proof -
  assume "same_dir d d'"
  then have "snap_of d' = snap_of d" "d_faults d' = d_faults d" by (auto simp: same_dir_def snap_of_def split: option.split)
  then show ?thesis by (simp add: base_ok_def)
qed

lemma base_ok_empty: "base_ok empty_dir (\<lambda>_. None, 0)"
proof -
  have "eng_wf (fresh_engine w d)" for w d by (rule eng_wfI) (simp_all add: fresh_engine_def)
  then show ?thesis
    by (simp add: base_ok_def snap_of_def base_engine_def empty_dir_def st_def)
      (simp add: fresh_engine_def db_of_def tab_at_def)
qed

lemma OpenWAL_clean:
  assumes "ReadRecords g bs 0 = (rs, len)"
  shows "\<exists>w. OpenWAL g bs [] = Ok (w, rs)"
  using assms by (simp add: OpenWAL_def take_io_def Let_def)

lemma LoadLatestSnapshot_clean: "d_faults d = [] \<Longrightarrow> LoadLatestSnapshot d = (Ok (snap_of d), d)"
  by (simp add: LoadLatestSnapshot_def dir_io_def snap_of_def numeral_2_eq_2 split: option.split)

lemma Open_logged:
  assumes base: "base_ok d s0" and read: "ReadRecords g bs 0 = (rs, len)" and log: "logged s0 rs s"
  shows "\<exists>e. Engine_Open g bs [] d = Ok e \<and> eng_wf e \<and> st e = s"
proof -
  obtain w where w: "OpenWAL g bs [] = Ok (w, rs)" using OpenWAL_clean [OF read] by blast
  let ?e0 = "base_engine (snap_of d) w d"
  have "eng_wf ?e0" "st ?e0 = s0" "d_faults d = []" using base by (simp_all add: base_ok_def)
  moreover from replay_logged [OF log this(1,2)] obtain P e' where
    "replay (\<lambda>_. []) rs ?e0 = Ok (P, e')" "eng_wf e'" "st e' = s" by blast
  moreover have "\<not> (case snap_of d of None \<Rightarrow> False | Some sd \<Rightarrow> snapshot_panics sd)"
    using base by (auto simp: base_ok_def split: option.split)
  ultimately show ?thesis
    using w by (auto simp: Engine_Open_def dir_io_def LoadLatestSnapshot_clean base_engine_def Let_def split: option.splits)
qed

section \<open>The state of the log\<close>

definition wal_unsynced :: "gob \<Rightarrow> walrec list \<Rightarrow> wal \<Rightarrow> wal" where
  "wal_unsynced g rs w = w\<lparr>w_file := w_file w @ log_bytes g rs, w_seq := w_seq w + word_of_nat (length rs)\<rparr>"

lemma wal_unsynced_Nil [simp]: "wal_unsynced g [] w = w"
  by (simp add: wal_unsynced_def)

definition nextIDs_ok :: "engine \<Rightarrow> bool" where
  "nextIDs_ok e \<longleftrightarrow> (\<forall>t \<in> set (heap e). is_int64 (t_nextID t))"

text \<open>
  \<open>log_state\<close>: the file is the log \<open>rs1 @ rs2\<close>, of which \<open>rs1\<close> is on stable storage and stands
  for the current database, and \<open>rs2\<close> holds no commit.
\<close>

definition log_state :: "gob \<Rightarrow> dbstate \<Rightarrow> engine \<Rightarrow> walrec list \<Rightarrow> walrec list \<Rightarrow> bool" where
  "log_state g s0 e rs1 rs2 \<longleftrightarrow> eng_wf e \<and> nextIDs_ok e \<and> io_clean (e_wal e)
     \<and> w_file (e_wal e) = log_bytes g (rs1 @ rs2) \<and> w_synced (e_wal e) = length (log_bytes g rs1)
     \<and> list_all (encodable g) (rs1 @ rs2) \<and> quiet rs2 \<and> logged s0 rs1 (st e)
     \<and> (\<forall>r \<in> set (rs1 @ rs2). rec_txn r \<le> txSeq e)"

text \<open>
  \<open>step_log\<close>: what an operation with transaction id \<open>tx\<close> does to the database and the log
  together: nothing to the database and no commit to the log, or one action to both.
\<close>

definition step_log :: "gob \<Rightarrow> uint64 \<Rightarrow> engine \<Rightarrow> engine \<Rightarrow> bool" where
  "step_log g tx e e' \<longleftrightarrow> eng_wf e' \<and> nextIDs_ok e' \<and> same_dir (e_dir e) (e_dir e')
     \<and> txSeq e \<le> txSeq e'
     \<and> ((\<exists>rs. st e' = st e \<and> quiet rs \<and> list_all (encodable g) rs
          \<and> (\<forall>r \<in> set rs. rec_txn r = tx \<and> tx \<le> txSeq e')
          \<and> e_wal e' = wal_unsynced g rs (e_wal e))
      \<or> (\<exists>a pre. tx \<le> txSeq e' \<and> act_ok a (st e) \<and> st e' = act_db a (st e) \<and> (pre = [] \<or> pre = [empty_rec RecBegin tx])
          \<and> list_all (encodable g) (act_recs tx a (st e))
          \<and> e_wal e' = wal_logged g (pre @ act_recs tx a (st e) @ [empty_rec RecCommit tx]) (e_wal e)))"

lemma io_clean_unsynced [simp]: "io_clean (wal_unsynced g rs w) = io_clean w"
  by (simp add: io_clean_def wal_unsynced_def)

lemma quiet_append [simp]: "quiet (rs @ rs') \<longleftrightarrow> quiet rs \<and> quiet rs'"
  by (simp add: quiet_def)

lemma quiet_take: "quiet rs \<Longrightarrow> quiet (take n rs)"
  by (auto simp: quiet_def list_all_iff dest: in_set_takeD)

lemma quiet_segment: "pre = [] \<or> pre = [empty_rec RecBegin tx] \<Longrightarrow> quiet (pre @ act_recs tx a s)"
  using act_recs_pend [of tx a s] by (auto simp: quiet_def list_all_iff pends_def)

lemma segment_txn: "r \<in> set (act_recs tx a s) \<Longrightarrow> rec_txn r = tx"
  using act_recs_pend [of tx a s] by (auto simp: list_all_iff)

lemma log_state_step:
  assumes ls: "log_state g s0 e rs1 rs2" and step: "step_log g tx e e'" and fresh: "tx \<notin> rec_txn ` set (rs1 @ rs2)"
  obtains rs1' rs2' where "log_state g s0 e' rs1' rs2'" "rec_txn ` set (rs1' @ rs2') \<subseteq> insert tx (rec_txn ` set (rs1 @ rs2))"
proof -
  have old: "\<And>r. r \<in> set (rs1 @ rs2) \<Longrightarrow> rec_txn r \<le> txSeq e'"
    using ls step by (force simp: log_state_def step_log_def)
  from step consider
    (silent) rs where "st e' = st e" "quiet rs" "list_all (encodable g) rs"
      "\<forall>r \<in> set rs. rec_txn r = tx \<and> tx \<le> txSeq e'" "e_wal e' = wal_unsynced g rs (e_wal e)"
  | (act) a pre where "act_ok a (st e)" "st e' = act_db a (st e)" "pre = [] \<or> pre = [empty_rec RecBegin tx]"
      "list_all (encodable g) (act_recs tx a (st e))"
      "e_wal e' = wal_logged g (pre @ act_recs tx a (st e) @ [empty_rec RecCommit tx]) (e_wal e)" "tx \<le> txSeq e'"
    unfolding step_log_def by blast
  then show thesis
  proof cases
    case silent
    have "log_state g s0 e' rs1 (rs2 @ rs)"
      using ls step silent old by (auto simp: log_state_def step_log_def wal_unsynced_def io_clean_def)
    with silent(4) show thesis by (intro that) auto
  next
    case act
    let ?seg = "pre @ act_recs tx a (st e) @ [empty_rec RecCommit tx]"
    have "logged s0 (rs1 @ rs2) (st e)" using ls by (auto simp: log_state_def intro: logged.uncommitted)
    then have "logged s0 ((rs1 @ rs2) @ ?seg) (st e')"
      using logged.committed [of s0 "rs1 @ rs2" "st e" tx a pre] fresh act(1-3) by simp
    moreover have "list_all (encodable g) ?seg" using act(3,4) by (auto simp: encodable_mark)
    moreover have "\<forall>r \<in> set ?seg. rec_txn r = tx" using act(3) by (auto simp: segment_txn)
    ultimately have "log_state g s0 e' ((rs1 @ rs2) @ ?seg) []"
      using ls step act(5,6) old by (auto simp: log_state_def step_log_def wal_logged_def io_clean_def quiet_def)
    moreover have "rec_txn ` set (((rs1 @ rs2) @ ?seg) @ []) \<subseteq> insert tx (rec_txn ` set (rs1 @ rs2))"
      using \<open>\<forall>r \<in> set ?seg. rec_txn r = tx\<close> by auto
    ultimately show thesis by (rule that)
  qed
qed

section \<open>Crashes\<close>

lemma length_log_take_mono: "n \<le> m \<Longrightarrow> length (log_bytes g (take n rs)) \<le> length (log_bytes g (take m rs))"
  by (metis length_append le_add1 log_bytes_simps(3) take_add le_Suc_ex)

text \<open>Reading a part of a log that contains all of \<open>rs\<close>.\<close>

lemma read_after_prefix:
  assumes g: "gob_ok g" and enc: "list_all (encodable g) (rs @ rs')" and k: "length (log_bytes g rs) \<le> k"
  obtains j where "j \<le> length rs'" "ReadRecords g (take k (log_bytes g (rs @ rs'))) 0
      = (rs @ take j rs', int (length (log_bytes g (rs @ take j rs'))))"
    "length (log_bytes g (rs @ rs')) \<le> k \<longrightarrow> j = length rs'"
proof -
  obtain n where n: "n \<le> length (rs @ rs')"
      "ReadRecords g (take k (log_bytes g (rs @ rs'))) 0 = (take n (rs @ rs'), int (length (log_bytes g (take n (rs @ rs')))))"
      "n < length (rs @ rs') \<longrightarrow> k < length (log_bytes g (take (Suc n) (rs @ rs')))"
    using ReadRecords_prefix [OF g enc, of k 0] by auto
  have "length rs \<le> n"
  proof (rule ccontr)
    assume "\<not> length rs \<le> n"
    then have "k < length (log_bytes g (take (Suc n) (rs @ rs')))" "Suc n \<le> length rs" using n(3) by auto
    with length_log_take_mono [of "Suc n" "length rs" g "rs @ rs'"] k show False by simp
  qed
  then have "take n (rs @ rs') = rs @ take (n - length rs) rs'" by simp
  moreover have "length (log_bytes g (rs @ rs')) \<le> k \<longrightarrow> n = length (rs @ rs')"
    using n(1,3) length_log_take_mono [of "Suc n" "length (rs @ rs')" g "rs @ rs'"] by fastforce
  ultimately show thesis
    using n(1,2) by (intro that [of "n - length rs"]) auto
qed

lemma crash_step:
  assumes g: "gob_ok g" and base: "base_ok (e_dir e) s0"
    and ls: "log_state g s0 e rs1 rs2" and step: "step_log g tx e e'" and fresh: "tx \<notin> rec_txn ` set (rs1 @ rs2)"
    and k: "w_synced (e_wal e) \<le> k"
  shows "\<exists>er. Engine_Open g (take k (w_file (e_wal e'))) [] (e_dir e') = Ok er \<and> eng_wf er
    \<and> (st er = st e \<or> st er = st e') \<and> (w_synced (e_wal e') \<le> k \<longrightarrow> st er = st e')"
proof -
  have dir: "base_ok (e_dir e') s0" using base_ok_same [of "e_dir e" "e_dir e'"] step base by (simp add: step_log_def)
  have k': "length (log_bytes g rs1) \<le> k" and enc: "list_all (encodable g) (rs1 @ rs2)" and log: "logged s0 rs1 (st e)"
      and fl: "w_file (e_wal e) = log_bytes g (rs1 @ rs2)" and q2: "quiet rs2"
    using ls k by (auto simp: log_state_def)
  from step consider
    (silent) rs where "st e' = st e" "quiet rs" "list_all (encodable g) rs" "e_wal e' = wal_unsynced g rs (e_wal e)"
  | (act) a pre where "act_ok a (st e)" "st e' = act_db a (st e)" "pre = [] \<or> pre = [empty_rec RecBegin tx]"
      "list_all (encodable g) (act_recs tx a (st e))"
      "e_wal e' = wal_logged g (pre @ act_recs tx a (st e) @ [empty_rec RecCommit tx]) (e_wal e)"
    unfolding step_log_def by blast
  then show ?thesis
  proof cases
    case silent
    have "w_file (e_wal e') = log_bytes g (rs1 @ rs2 @ rs)" using silent(4) fl by (simp add: wal_unsynced_def)
    moreover obtain j where "ReadRecords g (take k (log_bytes g (rs1 @ rs2 @ rs))) 0
        = (rs1 @ take j (rs2 @ rs), int (length (log_bytes g (rs1 @ take j (rs2 @ rs)))))"
      using read_after_prefix [OF g _ k', of "rs2 @ rs"] enc silent(3) by auto
    moreover have "logged s0 (rs1 @ take j (rs2 @ rs)) (st e)"
      using log q2 silent(2) by (intro logged.uncommitted quiet_take) simp_all
    ultimately show ?thesis using Open_logged [OF dir] silent(1) by metis
  next
    case act
    let ?seg = "pre @ act_recs tx a (st e)" and ?c = "empty_rec RecCommit tx"
    have f': "w_file (e_wal e') = log_bytes g (rs1 @ rs2 @ ?seg @ [?c])" "w_synced (e_wal e') = length (log_bytes g (rs1 @ rs2 @ ?seg @ [?c]))"
      using act(5) fl by (simp_all add: wal_logged_def)
    have "list_all (encodable g) (rs1 @ rs2 @ ?seg @ [?c])" using enc act(3,4) by (auto simp: encodable_mark)
    then obtain j where j: "j \<le> length (rs2 @ ?seg @ [?c])"
        "ReadRecords g (take k (log_bytes g (rs1 @ rs2 @ ?seg @ [?c]))) 0
          = (rs1 @ take j (rs2 @ ?seg @ [?c]), int (length (log_bytes g (rs1 @ take j (rs2 @ ?seg @ [?c])))))"
        "length (log_bytes g (rs1 @ rs2 @ ?seg @ [?c])) \<le> k \<longrightarrow> j = length (rs2 @ ?seg @ [?c])"
      using read_after_prefix [OF g _ k'] by metis
    show ?thesis
    proof (cases "j = length (rs2 @ ?seg @ [?c])")
      case True
      have "logged s0 (rs1 @ rs2) (st e)" using log q2 by (rule logged.uncommitted)
      then have "logged s0 (rs1 @ take j (rs2 @ ?seg @ [?c])) (st e')"
        using logged.committed [of s0 "rs1 @ rs2" "st e" tx a pre] fresh act(1-3) True by simp
      from Open_logged [OF dir j(2) this] show ?thesis unfolding f'(1) by blast
    next
      case False
      then have "take j (rs2 @ ?seg @ [?c]) = take j (rs2 @ ?seg)" using j(1) by simp
      moreover have "quiet (take j (rs2 @ ?seg))" using q2 quiet_segment [OF act(3)] by (intro quiet_take) simp
      ultimately have "logged s0 (rs1 @ take j (rs2 @ ?seg @ [?c])) (st e)"
        using log by (simp add: logged.uncommitted)
      from Open_logged [OF dir j(2) this] show ?thesis unfolding f' using j(3) False by blast
    qed
  qed
qed

section \<open>The operations and the log\<close>

text \<open>A record that the reader accepts if it can be encoded at all.\<close>

definition writable :: "gob \<Rightarrow> walrec \<Rightarrow> bool" where
  "writable g r \<longleftrightarrow> canonical r \<and> (\<forall>p. encode_payload g r = Ok p \<longrightarrow> int (length p) \<le> maxPayload)"

definition small_row :: "gob \<Rightarrow> row \<Rightarrow> bool" where
  "small_row g row \<longleftrightarrow> (\<forall>bs. enc_row g row = Some bs \<longrightarrow> int (length bs) + 12 \<le> maxPayload)"

definition small_ddl :: "gob \<Rightarrow> schemachange \<Rightarrow> bool" where
  "small_ddl g d \<longleftrightarrow> (\<forall>bs. enc_ddl g d = Some bs \<longrightarrow> int (length bs) \<le> maxPayload)"

lemma writable_put: "is_int64 i \<Longrightarrow> small_row g r \<Longrightarrow> writable g (put_rec tid i r tx)"
  by (auto simp: writable_def small_row_def canonical_def put_rec_def empty_rec_def encode_payload_def
      split: option.splits)

lemma writable_delete: "is_int64 i \<Longrightarrow> writable g (delete_rec tid i tx)"
  by (auto simp: writable_def canonical_def delete_rec_def empty_rec_def encode_payload_def maxPayload_def)

lemma writable_ddl:
  "small_ddl g \<lparr>sc_create = True, sc_name = n, sc_cols = c\<rparr> \<Longrightarrow> writable g (create_rec n c tx)"
  "small_ddl g \<lparr>sc_create = False, sc_name = n, sc_cols = []\<rparr> \<Longrightarrow> writable g (drop_rec n tx)"
  by (auto simp: writable_def small_ddl_def canonical_def create_rec_def drop_rec_def empty_rec_def encode_payload_def
      split: option.splits)

lemma writable_cases:
  assumes "writable g r"
  obtains (ok) "encodable g r" | (fail) err where "encodeRecord g r = Err err"
  using assms by (cases "encode_payload g r") (auto simp: writable_def encodable_def encodeRecord_def)

lemma Engine_txn_log:
  assumes "io_clean (e_wal e)" "writable g (fn (txSeq e + 1))"
  obtains (ok) "encodable g (fn (txSeq e + 1))" "Engine_txn g fn e = (Ok (), e\<lparr>txSeq := txSeq e + 1,
      e_wal := wal_logged g (txn_recs (txSeq e + 1) (fn (txSeq e + 1))) (e_wal e)\<rparr>)"
  | (fail) err where "Engine_txn g fn e = (Err err, e\<lparr>txSeq := txSeq e + 1,
      e_wal := wal_unsynced g [empty_rec RecBegin (txSeq e + 1)] (e_wal e)\<rparr>)"
  using assms(2)
proof (cases rule: writable_cases)
  case ok
  with Engine_txn_clean [of e g fn, OF assms(1) ok] show thesis by (intro that(1))
next
  case (fail err)
  have "wal_Append g (fn (txSeq e + 1)) False w = (Err err, w)" for w using fail by (simp add: wal_Append_def)
  with assms(1) show thesis
    by (intro that(2) [of "ErrWal err"])
      (simp add: Engine_txn_def Let_def wal_Append_clean encodable_mark wal_unsynced_def)
qed

lemma st_upd [simp]: "st (e\<lparr>e_wal := w\<rparr>) = st e" "st (e\<lparr>txSeq := tx\<rparr>) = st e" "st (noteWrite e) = st e"
  by (simp_all add: st_def db_of_def tab_at_def noteWrite_def Let_def)

lemma eng_wf_txSeq [simp]: "eng_wf (e\<lparr>txSeq := tx\<rparr>) = eng_wf e"
  by (simp add: eng_wf_def)

lemma nextIDs_upd [simp]:
  "nextIDs_ok (e\<lparr>e_wal := w\<rparr>) = nextIDs_ok e" "nextIDs_ok (e\<lparr>txSeq := tx\<rparr>) = nextIDs_ok e"
  "nextIDs_ok (noteWrite e) = nextIDs_ok e" "nextIDs_ok (writeMetaLocked e) = nextIDs_ok e"
  by (simp_all add: nextIDs_ok_def noteWrite_def writeMetaLocked_def Let_def split: prod.split)

lemma noteWrite_fields [simp]:
  "e_wal (noteWrite e) = e_wal e" "e_dir (noteWrite e) = e_dir e" "txSeq (noteWrite e) = txSeq e"
  by (simp_all add: noteWrite_def Let_def)

lemma same_dir_refl [simp]: "same_dir d d"
  by (simp add: same_dir_def)

lemma nextIDs_set_tab: "nextIDs_ok e \<Longrightarrow> is_int64 (t_nextID t) \<Longrightarrow> nextIDs_ok (set_tab p t e)"
  using set_update_subset_insert [of "heap e" p t] by (auto simp: nextIDs_ok_def)

lemma reserve_row_int64:
  assumes "reserve_row rowID must t = (Ok rid, t')" "is_int64 (t_nextID t)" "is_int64 rowID"
  shows "is_int64 rid \<and> is_int64 (t_nextID t')"
  using assms by (auto simp: reserve_row_def Let_def bump_nextID_def split: if_splits)

lemma db_overlay_put: "db_overlay [OpPut n i r] d = db_upd n (fmupd i r) d"
  by (auto simp: db_overlay_def db_upd_def fun_eq_iff map_option_case split: option.split)

lemma db_overlay_delete: "db_overlay [OpDelete n i] d = db_upd n (fmdrop i) d"
  by (auto simp: db_overlay_def db_upd_def fun_eq_iff map_option_case split: option.split)

lemma act_ok_put:
  "d n = Some (tid, c, m) \<Longrightarrow> covers c r \<Longrightarrow> clash_free c m i r \<Longrightarrow> act_ok (AOps [OpPut n i r]) (d, k)"
  by (simp add: clash_free_cong)

text \<open>
  The three shapes of a step: the log untouched, only a begin record written, and one
  action committed.
\<close>

lemma step_log_silent:
  assumes "eng_wf e'" "nextIDs_ok e'" "st e' = st e" "e_wal e' = e_wal e" "same_dir (e_dir e) (e_dir e')" "txSeq e \<le> txSeq e'"
  shows "step_log g tx e e'"
proof -
  have "\<exists>rs. st e' = st e \<and> quiet rs \<and> list_all (encodable g) rs \<and> (\<forall>r \<in> set rs. rec_txn r = tx \<and> tx \<le> txSeq e')
      \<and> e_wal e' = wal_unsynced g rs (e_wal e)"
    using assms(3,4) by (intro exI [of _ "[]"]) (simp add: quiet_def)
  with assms show ?thesis unfolding step_log_def by blast
qed

lemma step_log_begun:
  assumes "eng_wf e'" "nextIDs_ok e'" "st e' = st e" "same_dir (e_dir e) (e_dir e')" "txSeq e \<le> txSeq e'" "tx \<le> txSeq e'"
    and "e_wal e' = wal_unsynced g [empty_rec RecBegin tx] (e_wal e)"
  shows "step_log g tx e e'"
proof -
  have "\<exists>rs. st e' = st e \<and> quiet rs \<and> list_all (encodable g) rs \<and> (\<forall>r \<in> set rs. rec_txn r = tx \<and> tx \<le> txSeq e')
      \<and> e_wal e' = wal_unsynced g rs (e_wal e)"
    using assms(3,6,7) by (intro exI [of _ "[empty_rec RecBegin tx]"]) (simp add: quiet_def encodable_mark)
  with assms show ?thesis unfolding step_log_def by blast
qed

lemma step_log_act:
  assumes "eng_wf e'" "nextIDs_ok e'" "same_dir (e_dir e) (e_dir e')" "txSeq e \<le> txSeq e'" "tx \<le> txSeq e'"
    and "act_ok a (st e)" "st e' = act_db a (st e)" "pre = [] \<or> pre = [empty_rec RecBegin tx]"
      "list_all (encodable g) (act_recs tx a (st e))"
      "e_wal e' = wal_logged g (pre @ act_recs tx a (st e) @ [empty_rec RecCommit tx]) (e_wal e)"
  shows "step_log g tx e e'"
  using assms unfolding step_log_def by blast

text \<open>The engine under a log: what the operations below start from.\<close>

definition ready :: "engine \<Rightarrow> bool" where
  "ready e \<longleftrightarrow> eng_wf e \<and> nextIDs_ok e \<and> io_clean (e_wal e) \<and> d_faults (e_dir e) = [] \<and> txSeq e \<le> txSeq e + 1"

lemma step_log_txn:
  assumes rd: "ready e" and w: "writable g (fn (txSeq e + 1))" and txn: "Engine_txn g fn e = (r, e1)"
    and fail: "\<And>x. r = Err x \<Longrightarrow> e' = e1"
    and act: "act_recs (txSeq e + 1) a (st e) = [fn (txSeq e + 1)]" "r = Ok () \<Longrightarrow> act_ok a (st e)"
      "r = Ok () \<Longrightarrow> eng_wf e' \<and> nextIDs_ok e' \<and> st e' = act_db a (st e) \<and> e_wal e' = e_wal e1
        \<and> same_dir (e_dir e) (e_dir e') \<and> txSeq e' = txSeq e1"
  shows "step_log g (txSeq e + 1) e e'"
proof -
  have e: "eng_wf e" "nextIDs_ok e" "io_clean (e_wal e)" "txSeq e \<le> txSeq e + 1" using rd by (simp_all add: ready_def)
  from e(3) w show ?thesis
  proof (cases rule: Engine_txn_log)
    case ok
    then have r: "r = Ok ()" and e1: "e1 = e\<lparr>txSeq := txSeq e + 1,
        e_wal := wal_logged g (txn_recs (txSeq e + 1) (fn (txSeq e + 1))) (e_wal e)\<rparr>" using txn by simp_all
    show ?thesis
      by (rule step_log_act [where a = a and pre = "[empty_rec RecBegin (txSeq e + 1)]"])
        (use act(2,3) [OF r] act(1) ok(1) e1 e(4) in auto)
  next
    case (fail err)
    then have "e' = e\<lparr>txSeq := txSeq e + 1, e_wal := wal_unsynced g [empty_rec RecBegin (txSeq e + 1)] (e_wal e)\<rparr>"
      using txn assms(4) by simp
    then show ?thesis using e by (intro step_log_begun) simp_all
  qed
qed

lemma ready_set_tab:
  assumes "ready e" "fmlookup (tables e) n = Some p" "t_id t = t_id (heap e ! p)" "t_name t = t_name (heap e ! p)"
    "tab_wf t" "is_int64 (t_nextID t)"
  shows "ready (set_tab p t e)"
  using assms eng_wf_set_tab [OF _ assms(2), of t] nextIDs_set_tab by (simp add: ready_def)

lemma nextID_at: "nextIDs_ok e \<Longrightarrow> p < length (heap e) \<Longrightarrow> is_int64 (t_nextID (heap e ! p))"
  by (simp add: nextIDs_ok_def)

lemma step_log_put:
  assumes rd: "ready e" and args: "is_int64 rowID" "\<And>i. small_row g (stamp pk i row)"
    and put: "Engine_put g n pk rowID row must e = (res, e')"
  shows "step_log g (txSeq e + 1) e e'"
proof -
  have wf: "eng_wf e" and ids: "nextIDs_ok e" using rd by (simp_all add: ready_def)
  have silent: "step_log g (txSeq e + 1) e e" using wf ids by (intro step_log_silent) simp_all
  from put consider (unchanged) "e' = e"
    | (reserved) p rid t' where "fmlookup (tables e) n = Some p" "length row = length (t_cols (heap e ! p))"
        "reserve_row rowID must (heap e ! p) = (Ok rid, t')"
        "e' = (if uniq_conflict t' rid (stamp pk rid row) then set_tab p t' e
          else case Engine_txn g (put_rec (t_id t') rid (stamp pk rid row)) (set_tab p t' e) of
            (Inl x, e) \<Rightarrow> e | (Inr _, e) \<Rightarrow> noteWrite (set_tab p (store_row rid (stamp pk rid row) t') e))"
    by (auto simp: Engine_put_def Let_def split: if_splits option.splits prod.splits sum.splits)
  then show ?thesis
  proof cases
    case unchanged
    with silent show ?thesis by simp
  next
    case reserved
    let ?t = "heap e ! p" and ?row = "stamp pk rid row" and ?e = "set_tab p t' e"
    have p: "p < length (heap e)" "tab_wf ?t" using eng_wf_tabD [OF wf reserved(1)] by simp_all
    have i64: "is_int64 rid" "is_int64 (t_nextID t')"
      using reserve_row_int64 [OF reserved(3) nextID_at [OF ids p(1)] args(1)] by simp_all
    have t': "t_cols t' = t_cols ?t" "t_rows t' = t_rows ?t" "t_id t' = t_id ?t" "t_name t' = t_name ?t" "tab_wf t'"
      using reserve_row_Ok(1-3) [OF reserved(3)] p(2) tab_wf_cong [of t' ?t] by (auto simp: abs_t_def)
    have rd': "ready ?e" using ready_set_tab [OF rd reserved(1)] t' i64 by simp
    have st': "st ?e = st e" using db_set_tab_same [OF wf reserved(1), of t'] t' by (simp add: st_def abs_t_def)
    have quiet_step: "step_log g (txSeq e + 1) e ?e" using rd' st' by (intro step_log_silent) (simp_all add: ready_def)
    show ?thesis
    proof (cases "uniq_conflict t' rid ?row")
      case True
      with reserved(4) quiet_step show ?thesis by simp
    next
      case False
      then have cf: "clash_free (t_cols ?t) (t_rows ?t) rid ?row" using uniq_conflict_iff [OF t'(5)] t' by simp
      obtain r e1 where e1: "Engine_txn g (put_rec (t_id t') rid ?row) ?e = (r, e1)" by fastforce
      have e': "e' = (case r of Inl x \<Rightarrow> e1 | Inr _ \<Rightarrow> noteWrite (set_tab p (store_row rid ?row t') e1))"
        using reserved(4) False e1 by simp
      obtain w where w: "e1 = ?e\<lparr>txSeq := txSeq ?e + 1, e_wal := w\<rparr>" using Engine_txn_frame [OF e1] by blast
      let ?s = "set_tab p (store_row rid ?row t') e"
      have "tab_wf (store_row rid ?row t')" using t' cf reserved(2) by (intro tab_wf_store) (simp_all add: covers_length)
      then have "eng_wf ?s" using t' by (intro eng_wf_set_tab [OF wf reserved(1)]) simp_all
      moreover have "nextIDs_ok ?s" using nextIDs_set_tab [OF ids] i64 by simp
      moreover have "db_of ?s = db_upd n (fmupd rid ?row) (db_of e)"
        using t' by (intro db_set_tab [OF wf reserved(1)]) (simp add: abs_t_def)
      ultimately have s: "eng_wf ?s \<and> nextIDs_ok ?s \<and> st ?s = act_db (AOps [OpPut n rid ?row]) (st ?e)"
        using st' by (simp add: st_def db_overlay_put)
      have s1: "set_tab p (store_row rid ?row t') e1 = ?s\<lparr>txSeq := txSeq e + 1, e_wal := w\<rparr>"
        by (simp add: w set_tab_def)
      have db: "db_of e n = Some (t_id ?t, t_cols ?t, t_rows ?t)" using tables_db [OF reserved(1)] .
      have "step_log g (txSeq ?e + 1) ?e e'"
      proof (rule step_log_txn [OF rd' _ e1, where a = "AOps [OpPut n rid ?row]"])
        show "writable g (put_rec (t_id t') rid ?row (txSeq ?e + 1))" using writable_put i64(1) args(2) by blast
        show "act_recs (txSeq ?e + 1) (AOps [OpPut n rid ?row]) (st ?e) = [put_rec (t_id t') rid ?row (txSeq ?e + 1)]"
          unfolding st' using db t' by (simp add: st_def id_of_def)
        show "act_ok (AOps [OpPut n rid ?row]) (st ?e)"
          unfolding st' using act_ok_put [of "db_of e" n, OF db _ cf] reserved(2) by (simp add: st_def covers_length)
      qed (use e' s s1 w in auto)
      then show ?thesis using st' by (simp add: step_log_def)
    qed
  qed
qed

lemma step_log_delete:
  assumes rd: "ready e" and arg: "is_int64 rowID" and del: "Engine_Delete g n rowID e = (res, e')"
  shows "step_log g (txSeq e + 1) e e'"
proof -
  have wf: "eng_wf e" and ids: "nextIDs_ok e" using rd by (simp_all add: ready_def)
  from del consider (unchanged) "e' = e"
    | (txn) p where "fmlookup (tables e) n = Some p" "fmlookup (t_rows (heap e ! p)) rowID \<noteq> None"
        "e' = (case Engine_txn g (delete_rec (t_id (heap e ! p)) rowID) e of
            (Inl x, e) \<Rightarrow> e | (Inr _, e1) \<Rightarrow> noteWrite (set_tab p (drop_row rowID (heap e ! p)) e1))"
    by (auto simp: Engine_Delete_def Let_def split: if_splits option.splits prod.splits sum.splits)
  then show ?thesis
  proof cases
    case unchanged
    with wf ids show ?thesis by (intro step_log_silent) simp_all
  next
    case txn
    let ?t = "heap e ! p" and ?s = "set_tab p (drop_row rowID (heap e ! p)) e"
    obtain r e1 where e1: "Engine_txn g (delete_rec (t_id ?t) rowID) e = (r, e1)" by fastforce
    have e': "e' = (case r of Inl x \<Rightarrow> e1 | Inr _ \<Rightarrow> noteWrite (set_tab p (drop_row rowID ?t) e1))"
      using txn(3) e1 by simp
    obtain w where w: "e1 = e\<lparr>txSeq := txSeq e + 1, e_wal := w\<rparr>" using Engine_txn_frame [OF e1] by blast
    have "eng_wf ?s" using eng_wf_tabD(4) [OF wf txn(1)] by (intro eng_wf_set_tab [OF wf txn(1)]) auto
    moreover have "nextIDs_ok ?s" using nextIDs_set_tab [OF ids] nextID_at [OF ids] eng_wf_tabD(1) [OF wf txn(1)] by simp
    moreover have "db_of ?s = db_upd n (fmdrop rowID) (db_of e)" by (intro db_set_tab [OF wf txn(1)]) (simp add: abs_t_def)
    ultimately have s: "eng_wf ?s \<and> nextIDs_ok ?s \<and> st ?s = act_db (AOps [OpDelete n rowID]) (st e)"
      by (simp add: st_def db_overlay_delete)
    have s1: "set_tab p (drop_row rowID ?t) e1 = ?s\<lparr>txSeq := txSeq e + 1, e_wal := w\<rparr>" by (simp add: w set_tab_def)
    note db = tables_db [OF txn(1)]
    show ?thesis
    proof (rule step_log_txn [OF rd _ e1, where a = "AOps [OpDelete n rowID]"])
      show "writable g (delete_rec (t_id ?t) rowID (txSeq e + 1))" by (rule writable_delete [OF arg])
      show "act_recs (txSeq e + 1) (AOps [OpDelete n rowID]) (st e) = [delete_rec (t_id ?t) rowID (txSeq e + 1)]"
        using db by (simp add: st_def id_of_def)
      show "act_ok (AOps [OpDelete n rowID]) (st e)" using db by (simp add: st_def)
    qed (use e' s s1 w in auto)
  qed
qed

lemma writeMeta_fields:
  "e_wal (writeMetaLocked e) = e_wal e" "txSeq (writeMetaLocked e) = txSeq e" "st (writeMetaLocked e) = st e"
  "d_faults (e_dir e) = [] \<Longrightarrow> same_dir (e_dir e) (e_dir (writeMetaLocked e))"
  by (simp_all add: writeMetaLocked_def st_def db_of_def tab_at_def same_dir_def dir_io_def split: prod.split)

lemma same_dir_trans: "same_dir a b \<Longrightarrow> same_dir b c \<Longrightarrow> same_dir a c"
  by (simp add: same_dir_def)

lemma step_log_create:
  assumes rd: "ready e" and room: "nextTableID e + 1 \<noteq> 0"
    and arg: "\<And>td. Validate \<lparr>td_name = n, td_cols = c\<rparr> = Ok td \<Longrightarrow> small_ddl g \<lparr>sc_create = True, sc_name = n, sc_cols = td_cols td\<rparr>"
    and cr: "Engine_CreateTable g n c e = (res, e')"
  shows "step_log g (txSeq e + 1) e e'"
proof -
  have wf: "eng_wf e" and ids: "nextIDs_ok e" and fl: "d_faults (e_dir e) = []" using rd by (simp_all add: ready_def)
  from cr consider (unchanged) "e' = e"
    | (txn) td where "Validate \<lparr>td_name = n, td_cols = c\<rparr> = Ok td" "fmlookup (tables e) n = None"
        "e' = (case Engine_txn g (create_rec n (td_cols td)) e of
            (Inl x, e) \<Rightarrow> e | (Inr _, e1) \<Rightarrow> writeMetaLocked (addTableLocked n (td_cols td) e1))"
    by (auto simp: Engine_CreateTable_def split: if_splits prod.splits sum.splits)
  then show ?thesis
  proof cases
    case unchanged
    with wf ids show ?thesis by (intro step_log_silent) simp_all
  next
    case txn
    let ?c = "td_cols td"
    obtain r e1 where e1: "Engine_txn g (create_rec n ?c) e = (r, e1)" by fastforce
    have e': "e' = (case r of Inl x \<Rightarrow> e1 | Inr _ \<Rightarrow> writeMetaLocked (addTableLocked n ?c e1))" using txn(3) e1 by simp
    obtain w where w: "e1 = e\<lparr>txSeq := txSeq e + 1, e_wal := w\<rparr>" using Engine_txn_frame [OF e1] by blast
    have e1': "eng_wf e1" "fmlookup (tables e1) n = None" "nextTableID e1 + 1 \<noteq> 0" "nextIDs_ok e1" "st e1 = st e"
      "nextTableID e1 = nextTableID e"
      using w wf ids txn(2) room by simp_all
    have "eng_wf (addTableLocked n ?c e1)" by (rule eng_wf_addTable [OF e1'(1-3)])
    moreover have "nextIDs_ok (addTableLocked n ?c e1)"
      using e1'(4) by (auto simp: nextIDs_ok_def addTableLocked_def Let_def)
    moreover have "st (addTableLocked n ?c e1) = act_db (ACreate n ?c) (st e)"
      using db_addTable [OF e1'(1)] e1'(5) by (simp add: st_def)
    ultimately have s: "eng_wf (writeMetaLocked (addTableLocked n ?c e1))" "nextIDs_ok (writeMetaLocked (addTableLocked n ?c e1))"
      "st (writeMetaLocked (addTableLocked n ?c e1)) = act_db (ACreate n ?c) (st e)"
      by (simp_all add: writeMeta_fields)
    have d: "same_dir (e_dir e) (e_dir (writeMetaLocked (addTableLocked n ?c e1)))"
      using writeMeta_fields(4) [of "addTableLocked n ?c e1"] w fl by simp
    show ?thesis
    proof (rule step_log_txn [OF rd _ e1, where a = "ACreate n ?c"])
      show "writable g (create_rec n ?c (txSeq e + 1))" by (rule writable_ddl(1) [OF arg [OF txn(1)]])
      show "act_ok (ACreate n ?c) (st e)" using txn(2) room by (simp add: st_def tables_None)
      show "eng_wf e' \<and> nextIDs_ok e' \<and> st e' = act_db (ACreate n ?c) (st e) \<and> e_wal e' = e_wal e1
          \<and> same_dir (e_dir e) (e_dir e') \<and> txSeq e' = txSeq e1" if "r = Ok ()"
        using that e' s d by (simp add: writeMeta_fields(1,2))
    qed (use e' in auto)
  qed
qed

lemma step_log_drop:
  assumes rd: "ready e" and arg: "small_ddl g \<lparr>sc_create = False, sc_name = n, sc_cols = []\<rparr>"
    and dr: "Engine_DropTable g n e = (res, e')"
  shows "step_log g (txSeq e + 1) e e'"
proof -
  have wf: "eng_wf e" and ids: "nextIDs_ok e" and fl: "d_faults (e_dir e) = []" using rd by (simp_all add: ready_def)
  from dr consider (unchanged) "e' = e"
    | (txn) p where "fmlookup (tables e) n = Some p"
        "e' = (case Engine_txn g (drop_rec n) e of (Inl x, e) \<Rightarrow> e | (Inr _, e1) \<Rightarrow> writeMetaLocked (dropTableLocked p e1))"
    by (auto simp: Engine_DropTable_def split: option.splits prod.splits sum.splits)
  then show ?thesis
  proof cases
    case unchanged
    with wf ids show ?thesis by (intro step_log_silent) simp_all
  next
    case txn
    obtain r e1 where e1: "Engine_txn g (drop_rec n) e = (r, e1)" by fastforce
    have e': "e' = (case r of Inl x \<Rightarrow> e1 | Inr _ \<Rightarrow> writeMetaLocked (dropTableLocked p e1))" using txn(2) e1 by simp
    obtain w where w: "e1 = e\<lparr>txSeq := txSeq e + 1, e_wal := w\<rparr>" using Engine_txn_frame [OF e1] by blast
    have e1': "eng_wf e1" "fmlookup (tables e1) n = Some p" "nextIDs_ok e1" "st e1 = st e"
      using w wf ids txn(1) by simp_all
    have dt: "heap (dropTableLocked p e1) = heap e1" "e_dir (dropTableLocked p e1) = e_dir e1" "e_wal (dropTableLocked p e1) = e_wal e1"
      "txSeq (dropTableLocked p e1) = txSeq e1" "nextTableID (dropTableLocked p e1) = nextTableID e1"
      by (simp_all add: dropTableLocked_def Let_def)
    have s: "eng_wf (dropTableLocked p e1)" "nextIDs_ok (dropTableLocked p e1)" "st (dropTableLocked p e1) = act_db (ADrop n) (st e)"
      using eng_wf_dropTable [OF e1'(1,2)] db_dropTable [OF e1'(1,2)] e1'(3,4) dt by (simp_all add: st_def nextIDs_ok_def)
    have d: "same_dir (e_dir e) (e_dir (writeMetaLocked (dropTableLocked p e1)))"
      using writeMeta_fields(4) [of "dropTableLocked p e1"] w fl dt by simp
    show ?thesis
    proof (rule step_log_txn [OF rd _ e1, where a = "ADrop n"])
      show "writable g (drop_rec n (txSeq e + 1))" by (rule writable_ddl(2) [OF arg])
      show "act_ok (ADrop n) (st e)" using tables_db [OF txn(1)] by (simp add: st_def)
      show "eng_wf e' \<and> nextIDs_ok e' \<and> st e' = act_db (ADrop n) (st e) \<and> e_wal e' = e_wal e1
          \<and> same_dir (e_dir e) (e_dir e') \<and> txSeq e' = txSeq e1" if "r = Ok ()"
        using that e' s d dt by (simp add: writeMeta_fields(1,2,3))
    qed (use e' in auto)
  qed
qed

section \<open>Commit and the log\<close>

lemma op_recs_eq: "op_recs tx ops e = Ok rs \<Longrightarrow> rs = map (op_rec tx (id_of (db_of e))) ops"
proof (induction ops arbitrary: rs)
  case (Cons o1 ops)
  then show ?case
    by (cases o1)
      (auto simp: Engine_TableID_def id_of_def db_of_def abs_t_def split: option.splits sum.splits)
qed simp

lemma append_recs_log:
  assumes "io_clean w" "list_all (writable g) rs" "quiet rs"
  shows "(list_all (encodable g) rs \<and> append_recs g (rs @ [empty_rec RecCommit tx]) w
        = (Ok (), wal_logged g (rs @ [empty_rec RecCommit tx]) w))
    \<or> (\<exists>j err. list_all (encodable g) (take j rs) \<and> append_recs g (rs @ [empty_rec RecCommit tx]) w
        = (Err err, wal_unsynced g (take j rs) w))"
  using assms
proof (induction rs arbitrary: w)
  case Nil
  then show ?case using append_recs_clean [of w g "[]" tx] by simp
next
  case (Cons r rs)
  have wr: "writable g r" and nc: "rec_type r \<noteq> RecCommit" and q: "quiet rs" using Cons.prems by (simp_all add: quiet_def)
  from wr show ?case
  proof (cases rule: writable_cases)
    case ok
    let ?w = "wal_unsynced g [r] w"
    have step: "append_recs g ((r # rs) @ [empty_rec RecCommit tx]) w = append_recs g (rs @ [empty_rec RecCommit tx]) ?w"
      using wal_Append_clean [OF Cons.prems(1) ok, of False] nc by (simp add: wal_unsynced_def)
    have "wal_logged g (rs @ [empty_rec RecCommit tx]) ?w = wal_logged g ((r # rs) @ [empty_rec RecCommit tx]) w"
      "wal_unsynced g (take j rs) ?w = wal_unsynced g (take (Suc j) (r # rs)) w" for j
      by (simp_all add: wal_logged_def wal_unsynced_def)
    note fold_wal = this
    have "io_clean ?w" "list_all (writable g) rs" using Cons.prems by simp_all
    from Cons.IH [OF this q] show ?thesis
    proof
      assume "list_all (encodable g) rs \<and> append_recs g (rs @ [empty_rec RecCommit tx]) ?w
          = (Ok (), wal_logged g (rs @ [empty_rec RecCommit tx]) ?w)"
      with ok show ?thesis unfolding step fold_wal(1) by simp
    next
      assume "\<exists>j err. list_all (encodable g) (take j rs) \<and> append_recs g (rs @ [empty_rec RecCommit tx]) ?w
          = (Err err, wal_unsynced g (take j rs) ?w)"
      then obtain j err where j: "list_all (encodable g) (take j rs)"
          "append_recs g (rs @ [empty_rec RecCommit tx]) ?w = (Err err, wal_unsynced g (take j rs) ?w)" by blast
      have "list_all (encodable g) (take (Suc j) (r # rs))" using ok j(1) by simp
      with j(2) show ?thesis unfolding step fold_wal(2) by blast
    qed
  next
    case (fail err)
    then have "append_recs g ((r # rs) @ [empty_rec RecCommit tx]) w = (Err (ErrWal err), wal_unsynced g (take 0 (r # rs)) w)"
      by (simp add: wal_Append_def)
    then show ?thesis by (intro disjI2 exI [of _ 0] exI [of _ "ErrWal err"]) simp
  qed
qed

lemma apply_ops_nextIDs:
  "apply_ops ops e = (res, e') \<Longrightarrow> nextIDs_ok e \<Longrightarrow> \<forall>n p. fmlookup (tables e) n = Some p \<longrightarrow> p < length (heap e) \<Longrightarrow> nextIDs_ok e'"
proof (induction ops arbitrary: e)
  case (Cons o1 ops)
  obtain r1 e1 where r1: "(case o1 of OpPut n i r \<Rightarrow> Engine_applyPut n i r e | OpDelete n i \<Rightarrow> Engine_applyDelete n i e) = (r1, e1)"
    by fastforce
  have at: "is_int64 (t_nextID (heap e ! p))" if "fmlookup (tables e) n = Some p" for n p
    using Cons.prems(2,3) that nextID_at by blast
  have "nextIDs_ok e1 \<and> tables e1 = tables e \<and> length (heap e1) = length (heap e)"
  proof (cases o1)
    case (OpPut n i r)
    have "is_int64 (t_nextID (bump_nextID i (store_row i r t)))" if "is_int64 (t_nextID t)" for t
      using that by (simp add: bump_nextID_def)
    with OpPut r1 Cons.prems(2) at show ?thesis
      by (auto simp: Engine_applyPut_def Let_def intro!: nextIDs_set_tab split: option.splits if_splits)
  next
    case (OpDelete n i)
    with r1 Cons.prems(2) at show ?thesis
      by (auto simp: Engine_applyDelete_def intro!: nextIDs_set_tab split: option.splits)
  qed
  with Cons r1 show ?case by (cases r1) auto
qed simp

definition ops_writable :: "gob \<Rightarrow> txop list \<Rightarrow> bool" where
  "ops_writable g ops \<longleftrightarrow> (\<forall>o1 \<in> set ops. is_int64 (op_rowID o1) \<and> (\<forall>n i r. o1 = OpPut n i r \<longrightarrow> small_row g r))"

lemma ops_writable_recs: "ops_writable g ops \<Longrightarrow> list_all (writable g) (map (op_rec tx idf) ops)"
proof -
  have "writable g (op_rec tx idf o1)" if "is_int64 (op_rowID o1)" "\<And>n i r. o1 = OpPut n i r \<Longrightarrow> small_row g r" for o1
    using that by (cases o1) (auto intro: writable_put writable_delete)
  then show "ops_writable g ops \<Longrightarrow> ?thesis" by (auto simp: ops_writable_def list_all_iff)
qed

lemma fst_st [simp]: "fst (st e) = db_of e" "snd (st e) = nextTableID e"
  by (simp_all add: st_def)

lemma step_log_commit:
  assumes rd: "ready e" and nd: "\<not> x_done x" and ow: "ops_writable g (x_ops x)" and id: "x_id x \<le> txSeq e"
    and com: "Txn_Commit g x e = (res, x', e')"
  shows "step_log g (x_id x) e e'"
proof -
  have wf: "eng_wf e" and ids: "nextIDs_ok e" and clean: "io_clean (e_wal e)" using rd by (simp_all add: ready_def)
  have silent: "step_log g (x_id x) e e" using wf ids by (intro step_log_silent) simp_all
  show ?thesis
  proof (cases "commit_validate x e = Ok () \<and> x_ops x \<noteq> []")
    case False
    then have "e' = e" using com nd by (cases "commit_validate x e") (auto simp: Txn_Commit_def Let_def)
    with silent show ?thesis by simp
  next
    case True
    then have val: "commit_validate x e = Ok ()" by simp
    let ?ops = "x_ops x" and ?tx = "x_id x"
    let ?rs = "map (op_rec ?tx (id_of (db_of e))) ?ops"
    note tabs = validate_tables [OF val wf]
    obtain rs where "op_recs ?tx ?ops e = Ok rs" using op_recs_Ok tabs by blast
    then have rs: "op_recs ?tx ?ops e = Ok ?rs" using op_recs_eq by metis
    have e': "e' = snd (commitTxn g ?tx ?ops e)"
      using com nd val True by (auto simp: Txn_Commit_def Let_def split: prod.splits)
    have act: "act_recs ?tx (AOps ?ops) (st e) = ?rs" by (simp add: st_def)
    have q: "quiet ?rs" using quiet_segment [of "[]" ?tx "AOps ?ops" "st e"] unfolding act by simp
    from append_recs_log [OF clean ops_writable_recs [OF ow] q, of ?tx] show ?thesis
    proof (elim disjE exE conjE)
      fix j err
      assume j: "list_all (encodable g) (take j ?rs)"
        "append_recs g (?rs @ [empty_rec RecCommit ?tx]) (e_wal e) = (Err err, wal_unsynced g (take j ?rs) (e_wal e))"
      then have e2: "e' = e\<lparr>e_wal := wal_unsynced g (take j ?rs) (e_wal e)\<rparr>"
        using e' rs by (simp add: commitTxn_def)
      have "\<forall>r \<in> set (take j ?rs). rec_txn r = ?tx \<and> ?tx \<le> txSeq e'"
        using segment_txn [of _ ?tx "AOps ?ops" "st e"] act id e2 by (auto dest: in_set_takeD)
      with j(1) e2 quiet_take [OF q, of j] wf ids show ?thesis
        unfolding step_log_def by (intro conjI disjI1 exI [of _ "take j ?rs"]) simp_all
    next
      let ?w = "wal_logged g (?rs @ [empty_rec RecCommit ?tx]) (e_wal e)"
      assume a: "list_all (encodable g) ?rs" "append_recs g (?rs @ [empty_rec RecCommit ?tx]) (e_wal e) = (Ok (), ?w)"
      obtain h where h: "apply_ops ?ops (e\<lparr>e_wal := ?w\<rparr>) = (Ok (), e\<lparr>e_wal := ?w, heap := h\<rparr>)"
          "eng_wf (e\<lparr>e_wal := ?w, heap := h\<rparr>)" "db_of (e\<lparr>e_wal := ?w, heap := h\<rparr>) = db_overlay ?ops (db_of e)"
        using apply_ops_overlay [of "e\<lparr>e_wal := ?w\<rparr>" ?ops] wf tabs validate_puts [OF val wf] by auto
      have e2: "e' = noteWrite (e\<lparr>e_wal := ?w, heap := h\<rparr>)" using e' rs a(2) h(1) by (simp add: commitTxn_def)
      have "nextIDs_ok (e\<lparr>e_wal := ?w, heap := h\<rparr>)"
        using apply_ops_nextIDs [OF h(1)] ids eng_wf_tabD(1) [OF wf] by simp
      moreover have "act_ok (AOps ?ops) (st e)"
        using tabs validate_puts [OF val wf] by (auto simp: st_def tables_None [symmetric])
      moreover have "st e' = act_db (AOps ?ops) (st e)" using h(3) e2 by (simp add: st_def) (simp add: noteWrite_def Let_def)
      ultimately show ?thesis
        using h(2) e2 id a(1)
        by (intro step_log_act [where a = "AOps ?ops" and pre = "[]"]) simp_all
    qed
  qed
qed

end
