(* ===== verification/Durability.thy ===== *)
theory Durability
  imports Recovery
begin

text \<open>
  Runs of the storage engine and crashes in them: any number of interleaved transactions and of
  autocommit writes, as the server's connections issue them, the state the log recovers after a
  crash at any byte, checkpoints as round trips through a snapshot, and what a restart does
  not restore.

  A run holds no checkpoint: \<open>crash_atomic\<close> and \<open>acknowledged_durable\<close> are about the log between
  two of them, on the first opening of a directory. The later sections show what a checkpoint adds.
\<close>

section \<open>Sessions\<close>

datatype request =
    QPut string int64 row | QPutAuto string int row | QUpdate string int64 row | QDelete string int64
  | QCreate string "column list" | QDrop string
  | QBegin
  | XPut nat string int64 row | XPutAuto nat string int row | XUpdate nat string int64 row | XDelete nat string int64
  | XCommit nat | XRollback nat

type_synonym sys = "engine \<times> txn list"

definition on_txn :: "nat \<Rightarrow> (txn \<Rightarrow> engine \<Rightarrow> txn \<times> engine) \<Rightarrow> sys \<Rightarrow> sys" where
  "on_txn k f s = (case s of (e, xs) \<Rightarrow>
     if k < length xs then (case f (xs ! k) e of (x, e) \<Rightarrow> (e, xs[k := x])) else (e, xs))"

fun request_step :: "gob \<Rightarrow> request \<Rightarrow> sys \<Rightarrow> sys" where
  "request_step g (QPut n i r) (e, xs) = (snd (Engine_Put g n i r e), xs)"
| "request_step g (QPutAuto n pk r) (e, xs) = (snd (Engine_PutAuto g n pk r e), xs)"
| "request_step g (QUpdate n i r) (e, xs) = (snd (Engine_Update g n i r e), xs)"
| "request_step g (QDelete n i) (e, xs) = (snd (Engine_Delete g n i e), xs)"
| "request_step g (QCreate n c) (e, xs) = (snd (Engine_CreateTable g n c e), xs)"
| "request_step g (QDrop n) (e, xs) = (snd (Engine_DropTable g n e), xs)"
| "request_step g QBegin (e, xs) = (case Engine_Begin e of (x, e) \<Rightarrow> (e, xs @ [x]))"
| "request_step g (XPut k n i r) s = on_txn k (\<lambda>x e. snd (Txn_Put n i r x e)) s"
| "request_step g (XPutAuto k n pk r) s = on_txn k (\<lambda>x e. snd (Txn_PutAuto n pk r x e)) s"
| "request_step g (XUpdate k n i r) s = on_txn k (\<lambda>x e. (snd (Txn_Update n i r x e), e)) s"
| "request_step g (XDelete k n i) s = on_txn k (\<lambda>x e. (snd (Txn_Delete n i x e), e)) s"
| "request_step g (XCommit k) s = on_txn k (\<lambda>x e. snd (Txn_Commit g x e)) s"
| "request_step g (XRollback k) s = on_txn k (\<lambda>x e. (Txn_Rollback x, e)) s"

definition small_rows :: "gob \<Rightarrow> int \<Rightarrow> row \<Rightarrow> bool" where
  "small_rows g pk r \<longleftrightarrow> (\<forall>i. small_row g (stamp pk i r))"

fun request_ok :: "gob \<Rightarrow> request \<Rightarrow> bool" where
  "request_ok g (QPut n i r) = (is_int64 i \<and> small_row g r)"
| "request_ok g (QPutAuto n pk r) = small_rows g pk r"
| "request_ok g (QUpdate n i r) = (is_int64 i \<and> small_row g r)"
| "request_ok g (QDelete n i) = is_int64 i"
| "request_ok g (QCreate n c) = (\<forall>td. Validate \<lparr>td_name = n, td_cols = c\<rparr> = Ok td \<longrightarrow>
     small_ddl g \<lparr>sc_create = True, sc_name = n, sc_cols = td_cols td\<rparr>)"
| "request_ok g (QDrop n) = small_ddl g \<lparr>sc_create = False, sc_name = n, sc_cols = []\<rparr>"
| "request_ok g (XPut k n i r) = (is_int64 i \<and> small_row g r)"
| "request_ok g (XPutAuto k n pk r) = small_rows g pk r"
| "request_ok g (XUpdate k n i r) = (is_int64 i \<and> small_row g r)"
| "request_ok g (XDelete k n i) = is_int64 i"
| "request_ok g _ = True"

section \<open>The log of a run\<close>

definition open_ok :: "gob \<Rightarrow> walrec list \<Rightarrow> engine \<Rightarrow> txn \<Rightarrow> bool" where
  "open_ok g rs e x \<longleftrightarrow> x_id x \<le> txSeq e \<and> (\<not> x_done x \<longrightarrow> x_id x \<notin> rec_txn ` set rs \<and> ops_writable g (x_ops x))"

definition sys_inv :: "gob \<Rightarrow> dbstate \<Rightarrow> nat \<Rightarrow> sys \<Rightarrow> walrec list \<Rightarrow> walrec list \<Rightarrow> bool" where
  "sys_inv g s0 m s rs1 rs2 \<longleftrightarrow> (case s of (e, xs) \<Rightarrow>
     log_state g s0 e rs1 rs2 \<and> base_ok (e_dir e) s0 \<and> list_all (open_ok g (rs1 @ rs2) e) xs \<and> distinct (map x_id xs)
     \<and> unat (txSeq e) + m < 2 ^ 64 \<and> unat (nextTableID e) + m < 2 ^ 32)"

text \<open>
  What one request does: it is a step of the log under a transaction id that no record and no
  other open transaction has, and it keeps the open transactions fresh.
\<close>

definition request_log :: "gob \<Rightarrow> walrec list \<Rightarrow> sys \<Rightarrow> sys \<Rightarrow> bool" where
  "request_log g rs s s' \<longleftrightarrow> (case s of (e, xs) \<Rightarrow> case s' of (e', xs') \<Rightarrow>
     \<exists>tx. step_log g tx e e' \<and> tx \<notin> rec_txn ` set rs \<and> distinct (map x_id xs')
       \<and> (\<forall>x \<in> set xs'. x_id x \<le> txSeq e' \<and> (\<not> x_done x \<longrightarrow> x_id x \<notin> insert tx (rec_txn ` set rs) \<and> ops_writable g (x_ops x)))
       \<and> unat (txSeq e') \<le> unat (txSeq e) + 1 \<and> unat (nextTableID e') \<le> unat (nextTableID e) + 1)"

lemma sys_inv_ready: "sys_inv g s0 (Suc m) (e, xs) rs1 rs2 \<Longrightarrow> ready e \<and> nextTableID e + 1 \<noteq> 0 \<and> unat (txSeq e + 1) = unat (txSeq e) + 1"
proof -
  assume inv: "sys_inv g s0 (Suc m) (e, xs) rs1 rs2"
  have "unat (txSeq e + 1) = unat (txSeq e) + 1" using inv by (subst unat_add_lem [THEN iffD1]) (auto simp: sys_inv_def)
  moreover have "unat (nextTableID e + 1) = unat (nextTableID e) + 1"
    using inv by (subst unat_add_lem [THEN iffD1]) (auto simp: sys_inv_def)
  then have "nextTableID e + 1 \<noteq> 0" by (metis Suc_eq_plus1 nat.distinct(1) unat_0)
  ultimately show ?thesis using inv by (auto simp: sys_inv_def log_state_def ready_def base_ok_def word_le_nat_alt)
qed

lemma request_log_engine:
  assumes inv: "sys_inv g s0 (Suc m) (e, xs) rs1 rs2" and step: "step_log g (txSeq e + 1) e e'"
    and sq: "unat (txSeq e') \<le> unat (txSeq e) + 1" and ids: "unat (nextTableID e') \<le> unat (nextTableID e) + 1"
  shows "request_log g (rs1 @ rs2) (e, xs) (e', xs)"
proof -
  have new: "unat (txSeq e + 1) = unat (txSeq e) + 1" using sys_inv_ready [OF inv] by blast
  have old: "t \<le> txSeq e \<Longrightarrow> t \<noteq> txSeq e + 1" for t using new by (auto simp: word_le_nat_alt)
  have "txSeq e + 1 \<notin> rec_txn ` set (rs1 @ rs2)" using inv old by (fastforce simp: sys_inv_def log_state_def)
  moreover have "txSeq e \<le> txSeq e'" using step by (simp add: step_log_def)
  ultimately show ?thesis
    using inv old step sq ids unfolding request_log_def sys_inv_def
    by (auto simp: open_ok_def list_all_iff intro!: exI [of _ "txSeq e + 1"])
qed

lemma request_log_silent:
  assumes inv: "sys_inv g s0 (Suc m) (e, xs) rs1 rs2" and k: "k < length xs" and st: "step_log g (txSeq e + 1) e e'"
    and eq: "txSeq e' = txSeq e" "nextTableID e' = nextTableID e"
    and x: "x_id x = x_id (xs ! k)" "\<not> x_done x \<Longrightarrow> \<not> x_done (xs ! k) \<and> (ops_writable g (x_ops (xs ! k)) \<longrightarrow> ops_writable g (x_ops x))"
  shows "request_log g (rs1 @ rs2) (e, xs) (e', xs[k := x])"
proof -
  have "request_log g (rs1 @ rs2) (e, xs) (e', xs)" using eq by (intro request_log_engine [OF inv st]) simp_all
  then obtain tx where tx: "step_log g tx e e'" "tx \<notin> rec_txn ` set (rs1 @ rs2)" "distinct (map x_id xs)"
      "\<And>y. y \<in> set xs \<Longrightarrow> x_id y \<le> txSeq e' \<and> (\<not> x_done y \<longrightarrow> x_id y \<notin> insert tx (rec_txn ` set (rs1 @ rs2)) \<and> ops_writable g (x_ops y))"
    unfolding request_log_def by auto
  have "x_id y \<le> txSeq e' \<and> (\<not> x_done y \<longrightarrow> x_id y \<notin> insert tx (rec_txn ` set (rs1 @ rs2)) \<and> ops_writable g (x_ops y))"
    if "y \<in> set (xs[k := x])" for y
  proof (cases "y \<in> set xs")
    case False
    with that have "y = x" using set_update_subset_insert by fastforce
    with x tx(4) [of "xs ! k"] k show ?thesis by auto
  qed (use tx(4) in blast)
  moreover have "map x_id (xs[k := x]) = map x_id xs" using x(1) k by (simp add: map_update) (metis list_update_id map_update)
  ultimately show ?thesis using tx eq unfolding request_log_def by auto
qed

lemma step_log_nextTableID: "step_log g tx e e' \<Longrightarrow> nextTableID e' = nextTableID e \<or> nextTableID e' = nextTableID e + 1"
proof -
  have "snd (act_db a s) = snd s \<or> snd (act_db a s) = snd s + 1" for a s by (cases a; cases s) auto
  then show "step_log g tx e e' \<Longrightarrow> ?thesis" unfolding step_log_def by (metis fst_st(2))
qed

lemma Engine_txn_txSeq: "Engine_txn g fn e = (r, e1) \<Longrightarrow> txSeq e1 = txSeq e + 1"
  using Engine_txn_frame by fastforce

lemma ops_txSeq:
  "txSeq (snd (Engine_put g n pk i r must e)) \<in> {txSeq e, txSeq e + 1}"
  "txSeq (snd (Engine_Delete g n i e)) \<in> {txSeq e, txSeq e + 1}"
  "txSeq (snd (Engine_CreateTable g n c e)) \<in> {txSeq e, txSeq e + 1}"
  "txSeq (snd (Engine_DropTable g n e)) \<in> {txSeq e, txSeq e + 1}"
  by (auto simp: Engine_put_def Engine_Delete_def Engine_CreateTable_def Engine_DropTable_def Let_def writeMeta_fields(2)
      addTableLocked_def dropTableLocked_def dest!: Engine_txn_txSeq split: option.split prod.split sum.split)

lemma request_log_engine':
  assumes inv: "sys_inv g s0 (Suc m) (e, xs) rs1 rs2" and step: "step_log g (txSeq e + 1) e e'"
    and sq: "txSeq e' \<in> {txSeq e, txSeq e + 1}"
  shows "request_log g (rs1 @ rs2) (e, xs) (e', xs)"
proof (rule request_log_engine [OF inv step])
  show "unat (txSeq e') \<le> unat (txSeq e) + 1" using sq sys_inv_ready [OF inv] by auto
  have "unat (nextTableID e + 1) = unat (nextTableID e) + 1"
    using inv by (subst unat_add_lem [THEN iffD1]) (auto simp: sys_inv_def)
  then show "unat (nextTableID e') \<le> unat (nextTableID e) + 1" using step_log_nextTableID [OF step] by auto
qed

lemma Engine_ReserveID_silent:
  assumes rd: "ready e" and res: "Engine_ReserveID n e = (r, e')"
  shows "step_log g tx e e'" "txSeq e' = txSeq e" "nextTableID e' = nextTableID e" "r = Ok i \<Longrightarrow> is_int64 i"
proof -
  have wf: "eng_wf e" and ids: "nextIDs_ok e" using rd by (simp_all add: ready_def)
  note at = nextID_at [OF ids eng_wf_tabD(1) [OF wf]]
  have e': "e' = e \<or> (\<exists>p. fmlookup (tables e) n = Some p \<and> e' = set_tab p ((heap e ! p)\<lparr>t_nextID := wrap64 (t_nextID (heap e ! p) + 1)\<rparr>) e)"
    using res by (auto simp: Engine_ReserveID_def Let_def split: option.splits)
  have "eng_wf e'" "db_of e' = db_of e" using Engine_ReserveID_wf [OF wf, of n] res by simp_all
  moreover have "nextIDs_ok e'" using e' ids by (auto intro!: nextIDs_set_tab)
  moreover show "txSeq e' = txSeq e" "nextTableID e' = nextTableID e" using e' by auto
  ultimately show "step_log g tx e e'" using e' by (intro step_log_silent) (auto simp: st_def)
  show "r = Ok i \<Longrightarrow> is_int64 i" using res at by (auto simp: Engine_ReserveID_def Let_def split: option.splits)
qed


text \<open>The buffered writes: they touch the engine only to reserve row ids.\<close>

definition txn_write_ok :: "gob \<Rightarrow> txn \<Rightarrow> engine \<Rightarrow> txn \<times> engine \<Rightarrow> bool" where
  "txn_write_ok g x e res \<longleftrightarrow> (case res of (x', e') \<Rightarrow>
     x_id x' = x_id x \<and> (\<not> x_done x' \<longrightarrow> \<not> x_done x) \<and> (ops_writable g (x_ops x) \<longrightarrow> ops_writable g (x_ops x'))
     \<and> (\<forall>tx. step_log g tx e e') \<and> txSeq e' = txSeq e \<and> nextTableID e' = nextTableID e)"

lemma ops_writable_add [simp]:
  "ops_writable g (ops @ [OpPut n i r]) \<longleftrightarrow> ops_writable g ops \<and> is_int64 i \<and> small_row g r"
  "ops_writable g (ops @ [OpDelete n i]) \<longleftrightarrow> ops_writable g ops \<and> is_int64 i"
  by (auto simp: ops_writable_def)

lemma txn_write_refl:
  assumes "ready e" shows "step_log g tx e e"
  using assms by (intro step_log_silent) (simp_all add: ready_def)

lemma Txn_Put_log:
  assumes "ready e" "is_int64 i" "small_row g r"
  shows "txn_write_ok g x e (snd (Txn_Put n i r x e))"
  using assms txn_write_refl [OF assms(1)] Engine_ReserveID_silent [OF assms(1)]
  by (auto simp: Txn_Put_def txn_write_ok_def split: sum.split prod.split)

lemma Txn_PutAuto_log:
  assumes "ready e" "small_rows g pk r"
  shows "txn_write_ok g x e (snd (Txn_PutAuto n pk r x e))"
proof -
  have "0 \<le> pk \<Longrightarrow> pk < int (length r) \<Longrightarrow> small_row g (r[nat pk := VInt i])" for i
    using assms(2) by (simp add: small_rows_def stamp_def)
  then show ?thesis
    using assms txn_write_refl [OF assms(1)] Engine_ReserveID_silent [OF assms(1)]
    by (auto simp: Txn_PutAuto_def txn_write_ok_def Let_def split: sum.split prod.split)
qed

lemma Txn_Update_log:
  assumes "ready e" "is_int64 i" "small_row g r"
  shows "txn_write_ok g x e (snd (Txn_Update n i r x e), e)"
  using assms txn_write_refl [OF assms(1)]
  by (auto simp: Txn_Update_def txn_write_ok_def split: sum.split)

lemma Txn_Delete_log:
  assumes "ready e" "is_int64 i"
  shows "txn_write_ok g x e (snd (Txn_Delete n i x e), e)"
  using assms txn_write_refl [OF assms(1)]
  by (auto simp: Txn_Delete_def txn_write_ok_def split: sum.split)

lemma Txn_Rollback_log: "ready e \<Longrightarrow> txn_write_ok g x e (Txn_Rollback x, e)"
  using txn_write_refl [of e] by (simp add: Txn_Rollback_def txn_write_ok_def ops_writable_def)

lemma on_txn_log:
  assumes inv: "sys_inv g s0 (Suc m) (e, xs) rs1 rs2" and ok: "\<And>x. txn_write_ok g x e (f x e)"
  shows "request_log g (rs1 @ rs2) (e, xs) (on_txn k f (e, xs))"
proof (cases "k < length xs")
  case True
  obtain x e' where x: "f (xs ! k) e = (x, e')" by fastforce
  with ok [of "xs ! k"] have *: "x_id x = x_id (xs ! k)" "\<not> x_done x \<Longrightarrow> \<not> x_done (xs ! k)"
    "ops_writable g (x_ops (xs ! k)) \<Longrightarrow> ops_writable g (x_ops x)" "step_log g (txSeq e + 1) e e'" "txSeq e' = txSeq e"
    "nextTableID e' = nextTableID e"
    by (simp_all add: txn_write_ok_def)
  from request_log_silent [OF inv True *(4-6,1)] *(2,3) x True show ?thesis by (simp add: on_txn_def)
next
  case False
  have "step_log g (txSeq e + 1) e e" using txn_write_refl sys_inv_ready [OF inv] by blast
  from request_log_engine' [OF inv this] False show ?thesis by (simp add: on_txn_def)
qed

lemma Txn_Commit_frame:
  assumes "Txn_Commit g x e = (res, x', e')"
  shows "x_id x' = x_id x" "x' = x \<and> e' = e \<or> x_done x'" "txSeq e' = txSeq e" "x_done x \<Longrightarrow> x' = x \<and> e' = e"
proof -
  have a: "txSeq (snd (apply_ops ops e)) = txSeq e" for ops e
  proof (induction ops arbitrary: e)
    case (Cons o1 ops)
    have "txSeq (snd (Engine_applyPut n i r e)) = txSeq e" "txSeq (snd (Engine_applyDelete n i e)) = txSeq e" for n i r
      by (auto simp: Engine_applyPut_def Engine_applyDelete_def Let_def split: option.split)
    note step = this
    obtain r1 e1 where r1: "(case o1 of OpPut n i r \<Rightarrow> Engine_applyPut n i r e | OpDelete n i \<Rightarrow> Engine_applyDelete n i e) = (r1, e1)"
      by fastforce
    then have "txSeq e1 = txSeq e" using step by (cases o1) (simp_all, (metis snd_conv)+)
    with Cons r1 show ?case by (cases r1) auto
  qed simp
  have "txSeq (snd (commitTxn g tx ops e)) = txSeq e" for tx ops
  proof -
    have "txSeq e2 = txSeq e" if "apply_ops ops (e\<lparr>e_wal := w\<rparr>) = (r, e2)" for w r e2
      using a [of ops "e\<lparr>e_wal := w\<rparr>"] that by simp
    then show ?thesis by (auto simp: commitTxn_def split: sum.split prod.split)
  qed
  then show "txSeq e' = txSeq e"
    using assms by (auto simp: Txn_Commit_def Let_def split: if_splits sum.splits prod.splits) (metis snd_conv)
  show "x_id x' = x_id x" "x' = x \<and> e' = e \<or> x_done x'" "x_done x \<Longrightarrow> x' = x \<and> e' = e"
    using assms by (auto simp: Txn_Commit_def Let_def split: if_splits sum.splits prod.splits)
qed

lemma request_log_commit:
  assumes inv: "sys_inv g s0 (Suc m) (e, xs) rs1 rs2"
  shows "request_log g (rs1 @ rs2) (e, xs) (on_txn k (\<lambda>x e. snd (Txn_Commit g x e)) (e, xs))"
proof (cases "k < length xs")
  case True
  let ?x = "xs ! k"
  obtain res x' e' where c: "Txn_Commit g ?x e = (res, x', e')" by (metis prod_cases3)
  note fr = Txn_Commit_frame [OF c]
  have rd: "ready e" using sys_inv_ready [OF inv] by blast
  show ?thesis
  proof (cases "x' = ?x \<and> e' = e")
    case same: True
    have "step_log g (txSeq e + 1) e e" by (rule txn_write_refl [OF rd])
    from request_log_engine' [OF inv this] same c True show ?thesis by (simp add: on_txn_def)
  next
    case False
    then have done': "x_done x'" and nd: "\<not> x_done ?x" using fr by blast+
    have ok: "open_ok g (rs1 @ rs2) e y" if "y \<in> set xs" for y using inv that by (auto simp: sys_inv_def list_all_iff)
    have x: "x_id ?x \<le> txSeq e" "x_id ?x \<notin> rec_txn ` set (rs1 @ rs2)" "ops_writable g (x_ops ?x)"
      using ok [of ?x] True nd by (auto simp: open_ok_def)
    have step: "step_log g (x_id ?x) e e'" by (rule step_log_commit [OF rd nd x(3,1) c])
    have dist: "distinct (map x_id xs)" using inv by (simp add: sys_inv_def)
    have ids: "map x_id (xs[k := x']) = map x_id xs" using fr(1) True by (simp add: map_update) (metis list_update_id map_update)
    have "x_id y \<le> txSeq e' \<and> (\<not> x_done y \<longrightarrow> x_id y \<notin> insert (x_id ?x) (rec_txn ` set (rs1 @ rs2)) \<and> ops_writable g (x_ops y))"
      if "y \<in> set (xs[k := x'])" for y
    proof -
      from that [unfolded in_set_conv_nth] obtain j where j: "j < length xs" "y = xs[k := x'] ! j" by auto
      show ?thesis
      proof (cases "j = k")
        case True
        with j done' fr x show ?thesis by simp
      next
        case jk: False
        then have "y \<in> set xs" "x_id y \<noteq> x_id ?x" using j True nth_eq_iff_index_eq [OF dist, of j k] by auto
        with ok [of y] fr(3) show ?thesis by (auto simp: open_ok_def)
      qed
    qed
    moreover have "unat (nextTableID e + 1) = unat (nextTableID e) + 1"
      using inv by (subst unat_add_lem [THEN iffD1]) (auto simp: sys_inv_def)
    ultimately have "request_log g (rs1 @ rs2) (e, xs) (e', xs[k := x'])"
      using step x(2) dist ids fr(3) step_log_nextTableID [OF step] unfolding request_log_def by auto
    with c True show ?thesis by (simp add: on_txn_def)
  qed
next
  case False
  have "step_log g (txSeq e + 1) e e" using txn_write_refl sys_inv_ready [OF inv] by blast
  from request_log_engine' [OF inv this] False show ?thesis by (simp add: on_txn_def)
qed

text \<open>One request keeps the invariant, and is one step of the log under a fresh id.\<close>

lemma request_step_log:
  assumes inv: "sys_inv g s0 (Suc m) (e, xs) rs1 rs2" and ok: "request_ok g q" and q: "q \<noteq> QBegin"
  shows "request_log g (rs1 @ rs2) (e, xs) (request_step g q (e, xs))"
proof -
  have rd: "ready e" and room: "nextTableID e + 1 \<noteq> 0" using sys_inv_ready [OF inv] by blast+
  have st: "stamp (-1) i r = r" for i r by (simp add: stamp_def)
  note eng = request_log_engine' [OF inv]
  have put: "request_log g (rs1 @ rs2) (e, xs) (snd (Engine_put g n pk i r must e), xs)"
    if "is_int64 i" "small_rows g pk r" for n pk i r must
    using that by (intro eng ops_txSeq step_log_put [OF rd, of i g pk r n must "fst (Engine_put g n pk i r must e)"])
      (simp_all add: small_rows_def)
  have upd: "snd (Engine_Update g n i r e) = snd (Engine_put g n (-1) i r True e)" for n i r
    by (simp add: Engine_Update_def split: sum.split prod.split)
  have minus: "small_row g r \<Longrightarrow> small_rows g (-1) r" for r by (simp add: small_rows_def st)
  show ?thesis
  proof (cases q)
    case (QDelete n i)
    with ok have "step_log g (txSeq e + 1) e (snd (Engine_Delete g n i e))"
      by (intro step_log_delete [OF rd, of i g n "fst (Engine_Delete g n i e)"]) simp_all
    from eng [OF this ops_txSeq(2)] QDelete show ?thesis by simp
  next
    case (QCreate n c)
    with ok have "step_log g (txSeq e + 1) e (snd (Engine_CreateTable g n c e))"
      by (intro step_log_create [OF rd room, of n c g "fst (Engine_CreateTable g n c e)"]) simp_all
    from eng [OF this ops_txSeq(3)] QCreate show ?thesis by simp
  next
    case (QDrop n)
    with ok have "step_log g (txSeq e + 1) e (snd (Engine_DropTable g n e))"
      by (intro step_log_drop [OF rd, of g n "fst (Engine_DropTable g n e)"]) simp_all
    from eng [OF this ops_txSeq(4)] QDrop show ?thesis by simp
  qed (use ok q put minus upd request_log_commit [OF inv] on_txn_log [OF inv] Txn_Put_log [OF rd] Txn_PutAuto_log [OF rd]
        Txn_Update_log [OF rd] Txn_Delete_log [OF rd] Txn_Rollback_log [OF rd]
      in \<open>simp_all add: Engine_Put_def Engine_PutAuto_def\<close>)
qed

lemma request_step_inv:
  assumes inv: "sys_inv g s0 (Suc m) s rs1 rs2" and ok: "request_ok g q"
  obtains tx rs1' rs2' where "step_log g tx (fst s) (fst (request_step g q s))" "tx \<notin> rec_txn ` set (rs1 @ rs2)"
    "sys_inv g s0 m (request_step g q s) rs1' rs2'"
proof -
  obtain e xs where s: "s = (e, xs)" by fastforce
  note inv = inv [unfolded s] and rd = sys_inv_ready [OF inv [unfolded s]]
  have ls: "log_state g s0 e rs1 rs2" and base: "base_ok (e_dir e) s0" using inv by (simp_all add: sys_inv_def)
  show thesis
  proof (cases "q = QBegin")
    case True
    let ?e = "e\<lparr>txSeq := txSeq e + 1\<rparr>"
    have old: "t \<le> txSeq e \<Longrightarrow> t \<noteq> txSeq e + 1 \<and> t \<le> txSeq e + 1" for t using rd by (auto simp: word_le_nat_alt)
    have "step_log g (txSeq e + 1) e ?e" using rd by (intro step_log_silent) (simp_all add: ready_def)
    moreover have "txSeq e + 1 \<notin> rec_txn ` set (rs1 @ rs2)" using ls old by (fastforce simp: log_state_def)
    moreover have "sys_inv g s0 m (?e, xs @ [\<lparr>x_id = txSeq e + 1, x_done = False, x_ops = [], x_inserts = []\<rparr>]) rs1 rs2"
    proof -
      have "txSeq e + 1 \<notin> x_id ` set xs" using inv old by (fastforce simp: sys_inv_def open_ok_def list_all_iff)
      with inv old rd calculation(2) show ?thesis by (auto simp: sys_inv_def log_state_def open_ok_def list_all_iff ops_writable_def)
    qed
    ultimately show thesis using that [of "txSeq e + 1" rs1 rs2] True by (simp add: s Engine_Begin_def Let_def)
  next
    case False
    obtain e' xs' where s': "request_step g q (e, xs) = (e', xs')" by fastforce
    from request_step_log [OF inv ok False] obtain tx where tx: "step_log g tx e e'" "tx \<notin> rec_txn ` set (rs1 @ rs2)"
        "distinct (map x_id xs')"
        "\<And>x. x \<in> set xs' \<Longrightarrow> x_id x \<le> txSeq e' \<and> (\<not> x_done x \<longrightarrow> x_id x \<notin> insert tx (rec_txn ` set (rs1 @ rs2)) \<and> ops_writable g (x_ops x))"
        "unat (txSeq e') \<le> unat (txSeq e) + 1" "unat (nextTableID e') \<le> unat (nextTableID e) + 1"
      unfolding request_log_def s' by auto
    from log_state_step [OF ls tx(1,2)] obtain rs1' rs2' where
        r: "log_state g s0 e' rs1' rs2'" "rec_txn ` set (rs1' @ rs2') \<subseteq> insert tx (rec_txn ` set (rs1 @ rs2))" by blast
    have "base_ok (e_dir e') s0" using base_ok_same [of "e_dir e" "e_dir e'"] tx(1) base by (simp add: step_log_def)
    moreover have "open_ok g (rs1' @ rs2') e' x" if "x \<in> set xs'" for x using tx(4) [OF that] r(2) unfolding open_ok_def by blast
    ultimately have "sys_inv g s0 m (e', xs') rs1' rs2'" using inv r(1) tx(3,5,6) by (auto simp: sys_inv_def list_all_iff)
    with tx(1,2) that [of tx rs1' rs2'] show thesis by (simp add: s s')
  qed
qed

section \<open>Runs\<close>

definition run :: "gob \<Rightarrow> request list \<Rightarrow> sys \<Rightarrow> sys" where
  "run g qs s = fold (request_step g) qs s"

lemma run_inv:
  "sys_inv g s0 (length qs + m) s rs1 rs2 \<Longrightarrow> list_all (request_ok g) qs \<Longrightarrow> \<exists>rs1' rs2'. sys_inv g s0 m (run g qs s) rs1' rs2'"
proof (induction qs arbitrary: s rs1 rs2)
  case (Cons q qs)
  from Cons.prems have "sys_inv g s0 (Suc (length qs + m)) s rs1 rs2" "request_ok g q" by simp_all
  then obtain rs1' rs2' where "sys_inv g s0 (length qs + m) (request_step g q s) rs1' rs2'" by (rule request_step_inv)
  from Cons.IH [OF this] Cons.prems show ?case by (simp add: run_def)
qed (auto simp: run_def)

lemma crash_run:
  assumes g: "gob_ok g" and inv: "sys_inv g s0 (length qs + 1) s rs1 rs2" and ok: "list_all (request_ok g) (qs @ [q])"
    and k: "w_synced (e_wal (fst (run g qs s))) \<le> k"
  shows "\<exists>er. Engine_Open g (take k (w_file (e_wal (fst (run g (qs @ [q]) s))))) [] (e_dir (fst (run g (qs @ [q]) s))) = Ok er
    \<and> eng_wf er \<and> (st er = st (fst (run g qs s)) \<or> st er = st (fst (run g (qs @ [q]) s)))
    \<and> (w_synced (e_wal (fst (run g (qs @ [q]) s))) \<le> k \<longrightarrow> st er = st (fst (run g (qs @ [q]) s)))"
proof -
  from run_inv [OF inv] ok obtain rs1' rs2' where inv': "sys_inv g s0 (Suc 0) (run g qs s) rs1' rs2'" by auto
  have eq: "run g (qs @ [q]) s = request_step g q (run g qs s)" by (simp add: run_def)
  have ls: "log_state g s0 (fst (run g qs s)) rs1' rs2'" and base: "base_ok (e_dir (fst (run g qs s))) s0"
    using inv' by (auto simp: sys_inv_def split: prod.splits)
  from inv' ok obtain tx where "step_log g tx (fst (run g qs s)) (fst (run g (qs @ [q]) s))" "tx \<notin> rec_txn ` set (rs1' @ rs2')"
    by (auto simp: eq elim: request_step_inv)
  from crash_step [OF g base ls this k] show ?thesis .
qed

text \<open>The run starts on a directory with a good snapshot (or none) and an empty log.\<close>

lemma Open_empty_log:
  assumes base: "base_ok d s0"
  shows "Engine_Open g [] [] d = Ok (base_engine (snap_of d) (empty_wal []) d)"
proof -
  have "OpenWAL g [] [] = Ok (empty_wal [], [])" by (simp add: OpenWAL_def ReadRecords_short empty_wal_def)
  moreover have "d_faults d = []" "\<not> (case snap_of d of None \<Rightarrow> False | Some sd \<Rightarrow> snapshot_panics sd)"
    using base by (auto simp: base_ok_def split: option.split)
  ultimately show ?thesis
    by (auto simp: Engine_Open_def dir_io_def LoadLatestSnapshot_clean base_engine_def split: option.splits)
qed

lemma run_start:
  assumes "m < 2 ^ 32"
  shows "sys_inv g (\<lambda>_. None, 0) m (fresh_engine (empty_wal []) empty_dir, []) [] []"
proof -
  let ?e = "fresh_engine (empty_wal []) empty_dir"
  have e: "?e = base_engine (snap_of empty_dir) (empty_wal []) empty_dir"
    by (simp add: base_engine_def snap_of_def empty_dir_def)
  then have "eng_wf ?e" "st ?e = (\<lambda>_. None, 0)" using base_ok_empty unfolding base_ok_def by metis+
  moreover have "nextIDs_ok ?e" by (simp add: fresh_engine_def nextIDs_ok_def)
  moreover have "log_bytes g [] = []" by (simp add: log_bytes_def)
  ultimately show ?thesis
    using assms base_ok_empty logged.start
    by (auto simp: sys_inv_def log_state_def fresh_engine_def empty_wal_def io_clean_def quiet_def)
qed

definition sample_run :: "request list" where
  "sample_run = [QCreate ''t'' sample_cols, QBegin, XPut 0 ''t'' 1 [VInt 1, VText ''y'']]"

lemma sample_run_ok: "list_all (request_ok sample_gob) (sample_run @ [XCommit 0])"
proof -
  have "Validate \<lparr>td_name = ''t'', td_cols = sample_cols\<rparr> = Ok \<lparr>td_name = ''t'', td_cols = sample_cols\<rparr>" by code_simp
  moreover have "small_ddl sample_gob \<lparr>sc_create = True, sc_name = ''t'', sc_cols = sample_cols\<rparr>"
    by (simp add: small_ddl_def sample_gob_def enc_sc_def enc_col_def sample_cols_def TypeInt_def TypeText_def enc_char_def maxPayload_def)
  moreover have "small_row sample_gob [VInt 1, VText ''y'']" using sample_loggable(2) by (auto simp: loggable_def small_row_def)
  ultimately show ?thesis by (simp add: sample_run_def)
qed

lemma sample_run_short: "length sample_run + 1 < 2 ^ 32" "length sample_run < 2 ^ 32 - 1"
  by (simp_all add: sample_run_def)

lemma Open_empty_dir: "Engine_Open g [] [] empty_dir = Ok (fresh_engine (empty_wal []) empty_dir)"
  using Open_empty_log [OF base_ok_empty] by (simp add: base_engine_def snap_of_def empty_dir_def)






section \<open>Snapshots\<close>

lemma fmlookup_snapshot:
  "fmlookup (sd_Tables (snapshot_of e)) n = (case fmlookup (tables e) n of None \<Rightarrow> None | Some p \<Rightarrow>
     Some \<lparr>st_ID = t_id (heap e ! p), st_Name = n, st_Cols = t_cols (heap e ! p), st_Rows = t_rows (heap e ! p),
       st_NextID = t_nextID (heap e ! p)\<rparr>)"
  by (simp add: snapshot_of_def Let_def split: option.split)

lemma eng_wf_load_table:
  assumes wf: "eng_wf e" and new: "fmlookup (tables e) n = None" and id: "\<And>m c r. db_of e m \<noteq> Some (st_ID s, c, r)"
    and name: "st_Name s = n" and room: "st_ID s + 1 \<noteq> 0"
    and rows: "unique_rows (st_Cols s) (st_Rows s)" "\<And>i r. fmlookup (st_Rows s) i = Some r \<Longrightarrow> covers (st_Cols s) r"
  shows "eng_wf (load_table n s e)" and "db_of (load_table n s e) = (db_of e)(n \<mapsto> (st_ID s, st_Cols s, st_Rows s))"
proof -
  let ?e = "load_table n s e"
  let ?t = "buildUniqLocked (initUniq \<lparr>t_id = st_ID s, t_name = st_Name s, t_cols = st_Cols s, t_rows = st_Rows s,
    t_nextID = st_NextID s, t_uniq = fmempty\<rparr>)"
  have new_id: "fmlookup (byID e) (st_ID s) = None"
  proof (rule ccontr)
    assume "fmlookup (byID e) (st_ID s) \<noteq> None"
    then obtain p where "fmlookup (byID e) (st_ID s) = Some p" by blast
    with eng_wf_idD [OF wf this] have "db_of e (t_name (heap e ! p)) = Some (st_ID s, t_cols (heap e ! p), t_rows (heap e ! p))"
      by (simp add: db_of_def tab_at_def abs_t_def)
    with id show False by blast
  qed
  have flds: "heap ?e = heap e @ [?t]" "tables ?e = fmupd n (length (heap e)) (tables e)"
    "byID ?e = fmupd (st_ID s) (length (heap e)) (byID e)"
    "nextTableID ?e = (if st_ID s \<ge> nextTableID e then st_ID s + 1 else nextTableID e)"
    by (simp_all add: load_table_def Let_def initUniq_def)
  have t: "t_id ?t = st_ID s" "t_name ?t = n" "t_cols ?t = st_Cols s" "t_rows ?t = st_Rows s" "tab_wf ?t"
    using name rows by (auto simp: initUniq_def intro!: tab_wf_buildUniq)
  have up: "st_ID s < nextTableID ?e" using word_less_inc [of "st_ID s" "st_ID s"] room by (auto simp: flds word_less_inc)
  have le: "i < nextTableID ?e" if "i < nextTableID e" for i
    using that room word_less_inc [of i "st_ID s"] by (auto simp: flds)
  show "eng_wf ?e"
  proof (rule eng_wfI)
    fix m p assume m: "fmlookup (tables ?e) m = Some p"
    show "p < length (heap ?e) \<and> t_name (heap ?e ! p) = m \<and> fmlookup (byID ?e) (t_id (heap ?e ! p)) = Some p
        \<and> tab_wf (heap ?e ! p) \<and> t_id (heap ?e ! p) < nextTableID ?e"
    proof (cases "m = n")
      case True
      with m t up show ?thesis by (auto simp: flds(1-3))
    next
      case False
      with m have *: "fmlookup (tables e) m = Some p" by (simp add: flds)
      from eng_wf_tabD [OF wf *] le new_id show ?thesis by (auto simp: flds(1-3) nth_append)
    qed
  next
    fix i p assume i: "fmlookup (byID ?e) i = Some p"
    show "p < length (heap ?e) \<and> t_id (heap ?e ! p) = i \<and> fmlookup (tables ?e) (t_name (heap ?e ! p)) = Some p"
    proof (cases "i = st_ID s")
      case True
      with i t show ?thesis by (auto simp: flds(1-3))
    next
      case False
      with i have *: "fmlookup (byID e) i = Some p" by (simp add: flds)
      from eng_wf_idD [OF wf *] new show ?thesis by (auto simp: flds(1-3) nth_append)
    qed
  qed
  show "db_of ?e = (db_of e)(n \<mapsto> (st_ID s, st_Cols s, st_Rows s))"
  proof
    fix m show "db_of ?e m = ((db_of e)(n \<mapsto> (st_ID s, st_Cols s, st_Rows s))) m"
      using eng_wf_tabD(1) [OF wf, of m] t
      by (cases "fmlookup (tables e) m") (auto simp: db_of_def tab_at_def flds(1,2) nth_append abs_t_def)
  qed
qed

lemma load_tables:
  assumes wf: "eng_wf e" and d: "distinct ns" "set ns \<subseteq> fmdom' (tables e)"
    and wf': "eng_wf e'" and db': "db_of e' = db_of e |` K" and disj: "K \<inter> set ns = {}"
  shows "eng_wf (fold (\<lambda>n. load_table n (the (fmlookup (sd_Tables (snapshot_of e)) n))) ns e')
    \<and> db_of (fold (\<lambda>n. load_table n (the (fmlookup (sd_Tables (snapshot_of e)) n))) ns e') = db_of e |` (K \<union> set ns)"
  using d wf' db' disj
proof (induction ns arbitrary: e' K)
  case Nil
  then show ?case by simp
next
  case (Cons n ns)
  then obtain p where p: "fmlookup (tables e) n = Some p" by (auto simp: fmdom'_alt_def fmlookup_dom_iff)
  note tb = eng_wf_tabD [OF wf p]
  let ?s = "the (fmlookup (sd_Tables (snapshot_of e)) n)"
  have s: "st_ID ?s = t_id (heap e ! p)" "st_Name ?s = n" "st_Cols ?s = t_cols (heap e ! p)" "st_Rows ?s = t_rows (heap e ! p)"
    by (simp_all add: fmlookup_snapshot p)
  have db: "db_of e n = Some (st_ID ?s, st_Cols ?s, st_Rows ?s)" by (simp add: s db_of_def tab_at_def p abs_t_def)
  have n: "n \<notin> K" using Cons.prems by simp
  have 1: "fmlookup (tables e') n = None" using Cons.prems(4) n tables_None by (metis restrict_out)
  have 2: "db_of e' m \<noteq> Some (st_ID ?s, c, r)" for m c r
  proof
    assume "db_of e' m = Some (st_ID ?s, c, r)"
    then have m: "m \<in> K" "db_of e m = Some (st_ID ?s, c, r)" using Cons.prems(4) by (auto simp: restrict_map_def split: if_splits)
    then obtain q where q: "fmlookup (tables e) m = Some q" "t_id (heap e ! q) = st_ID ?s"
      by (auto simp: db_of_def tab_at_def abs_t_def split: option.splits)
    have "fmlookup (byID e) (st_ID ?s) = Some q" "fmlookup (byID e) (st_ID ?s) = Some p"
      using eng_wf_tabD(3) [OF wf q(1)] q(2) tb(3) s(1) by simp_all
    then have "m = n" using eng_wf_inj [OF wf q(1)] p by simp
    with m n show False by simp
  qed
  have 3: "st_ID ?s + 1 \<noteq> 0" using tb(5) word_order.extremum_strict unfolding s by (metis eq_neg_iff_add_eq_0)
  have 4: "unique_rows (st_Cols ?s) (st_Rows ?s)" "\<And>i r. fmlookup (st_Rows ?s) i = Some r \<Longrightarrow> covers (st_Cols ?s) r"
    using tab_wf_unique_rows [OF tb(4)] tb(4) unfolding s by (auto simp: tab_wf_def index_shape_def)
  note lt = eng_wf_load_table [OF Cons.prems(3) 1 2 s(2) 3 4]
  have "db_of (load_table n ?s e') = db_of e |` insert n K" using lt(2) Cons.prems(4) db by (auto simp: restrict_map_def fun_eq_iff)
  from Cons.IH [OF _ _ lt(1) this] Cons.prems show ?case by (auto simp: insert_commute)
qed

lemma load_snapshot_of:
  assumes wf: "eng_wf e"
  shows "eng_wf (load_snapshot (snapshot_of e) (fresh_engine w d))" "db_of (load_snapshot (snapshot_of e) (fresh_engine w d)) = db_of e"
proof -
  let ?f = "fresh_engine w d" and ?ns = "fmkeys (sd_Tables (snapshot_of e))"
  have dom: "set ?ns = fmdom' (tables e)" by (auto simp: fmlookup_snapshot fmlookup_dom'_iff split: option.splits)
  have f: "eng_wf ?f" "db_of ?f = db_of e |` {}" by (auto simp: fresh_engine_def eng_wf_def db_of_def tab_at_def fun_eq_iff)
  have all: "db_of e |` fmdom' (tables e) = db_of e"
    by (auto simp: restrict_map_def fun_eq_iff db_of_def tab_at_def fmlookup_dom'_iff split: option.splits)
  from load_tables [OF wf distinct_fmkeys _ f, of "sd_Tables (snapshot_of e)"] dom all
  show "eng_wf (load_snapshot (snapshot_of e) ?f)" "db_of (load_snapshot (snapshot_of e) ?f) = db_of e"
    by (simp_all add: load_snapshot_def)
qed

section \<open>Pruning\<close>

lemma remove_snaps_clean:
  "d_faults d = [] \<Longrightarrow> fmlookup (d_snaps (remove_snaps ss d)) s = (if s \<in> set ss then None else fmlookup (d_snaps d) s)
    \<and> d_manifest (remove_snaps ss d) = d_manifest d \<and> d_faults (remove_snaps ss d) = []"
  by (induction ss arbitrary: d) (auto simp: dir_io_def)

lemma below_two:
  fixes ys :: "'a::linorder list"
  assumes "sorted_wrt (>) ys"
  shows "s \<in> set (drop 2 ys) \<longleftrightarrow> s \<in> set ys \<and> 2 \<le> card {x \<in> set ys. s < x}"
proof (cases ys)
  case (Cons a zs)
  show ?thesis
  proof (cases zs)
    case (Cons b us)
    have o: "b < a" "\<And>u. u \<in> set us \<Longrightarrow> u < b \<and> u < a" using assms \<open>ys = _\<close> Cons by auto
    have "2 \<le> card {x \<in> set ys. s < x}" if "s \<in> set us"
      using card_mono [of "{x \<in> set ys. s < x}" "{a, b}"] o(1) o(2) [OF that] \<open>ys = _\<close> Cons by simp
    moreover have "{x \<in> set ys. a < x} \<subseteq> {a}" "{x \<in> set ys. b < x} \<subseteq> {a}" "a \<notin> set us" "b \<notin> set us"
      using o \<open>ys = _\<close> Cons by (auto dest: less_asym')
    then have "\<not> 2 \<le> card {x \<in> set ys. s < x}" if "s = a \<or> s = b"
      using that card_mono [of "{a}" "{x \<in> set ys. s < x}"] by auto
    ultimately show ?thesis using \<open>ys = _\<close> Cons by auto
  next
    case Nil
    then have "{x \<in> set ys. a < x} = {}" using \<open>ys = _\<close> by auto
    then show ?thesis using Nil \<open>ys = _\<close> by (auto simp del: Collect_empty_eq)
  qed
qed simp

lemma pruned_iff:
  fixes m :: "(uint64, 'v) fmap"
  shows "s \<in> set (drop 2 (rev (fmkeys m))) \<longleftrightarrow> s \<in> fmdom' m \<and> 2 \<le> card {x \<in> fmdom' m. s < x}"
proof -
  have "sorted_wrt (>) (rev (fmkeys m))"
    using sorted_fmkeys distinct_fmkeys by (simp add: sorted_wrt_rev strict_sorted_iff)
  from below_two [OF this] show ?thesis by (simp del: fmdom'_lookup)
qed

lemma prune_keeps:
  assumes "d_faults d = []" "card {x \<in> fmdom' (d_snaps d). s < x} \<le> 1"
  shows "fmlookup (d_snaps (prune_dir d)) s = fmlookup (d_snaps d) s \<and> d_manifest (prune_dir d) = d_manifest d \<and> d_faults (prune_dir d) = []"
proof -
  have "s \<notin> set (drop 2 (rev (fmkeys (d_snaps d))))" using pruned_iff [of s "d_snaps d"] assms(2) by auto
  then show ?thesis using assms(1) remove_snaps_clean by (auto simp: prune_dir_def dir_io_def Let_def)
qed

lemma dir_calls_clean: "d_faults d = [] \<Longrightarrow> dir_calls n d = (True, d)"
  by (induction n) (simp_all add: dir_io_def)

lemma Engine_Checkpoint_clean:
  assumes "io_clean (e_wal e)" "d_faults (e_dir e) = []"
  shows "Engine_Checkpoint e = (Ok (), pruneSnapshots (e\<lparr>e_dir := (e_dir e)\<lparr>d_snaps := fmupd (w_seq (e_wal e)) (snapshot_of e) (d_snaps (e_dir e)),
      d_manifest := Some (w_seq (e_wal e))\<rparr>, e_wal := (e_wal e)\<lparr>w_file := [], w_synced := 0, w_seq := 0\<rparr>, sinceCheckpoint := 0\<rparr>))"
proof -
  have "wal_Truncate (e_wal e) = (Ok (), (e_wal e)\<lparr>w_file := [], w_synced := 0, w_seq := 0\<rparr>)"
    using assms(1) by (simp add: wal_Truncate_def fsync_def take_io_def io_clean_def)
  moreover have "sd_Seq (snapshot_of e) = w_seq (e_wal e)" by (simp add: snapshot_of_def)
  ultimately show ?thesis
    using assms(2) by (simp add: Engine_Checkpoint_def WriteSnapshot_def writeManifest_def dir_calls_clean)
qed



text \<open>
  C11: Snapshots are numbered by the log's record counter, which every checkpoint resets, and
  pruning keeps the two highest numbers. So when two older snapshots have higher numbers, a checkpoint
  that reports success removes the very snapshot the manifest names, after emptying the log: the
  directory opens again without an error, to a database with no tables.
\<close>

theorem checkpoint_loses_database:
  assumes "io_clean (e_wal e)" and "d_faults (e_dir e) = []"
    and "2 \<le> card {s \<in> fmdom' (d_snaps (e_dir e)). w_seq (e_wal e) < s}"
    and "Engine_Checkpoint e = (res, e')"
  shows "res = Ok () \<and> db_of e' = db_of e
    \<and> (\<exists>er. Engine_Open g (w_file (e_wal e')) [] (e_dir e') = Ok er \<and> (\<forall>n. db_of er n = None))"
proof -
  let ?q = "w_seq (e_wal e)"
  let ?d = "(e_dir e)\<lparr>d_snaps := fmupd ?q (snapshot_of e) (d_snaps (e_dir e)), d_manifest := Some ?q\<rparr>"
  have cp: "(res, e') = (Ok (), pruneSnapshots (e\<lparr>e_dir := ?d, e_wal := (e_wal e)\<lparr>w_file := [], w_synced := 0, w_seq := 0\<rparr>,
      sinceCheckpoint := 0\<rparr>))"
    using Engine_Checkpoint_clean [OF assms(1,2)] assms(4) by simp
  let ?ks = "fmkeys (d_snaps ?d)"
  have eq: "{s \<in> fmdom' (d_snaps ?d). ?q < s} = {s \<in> fmdom' (d_snaps (e_dir e)). ?q < s}" by auto
  have gone: "?q \<in> set (drop 2 (rev ?ks))" using pruned_iff [of ?q "d_snaps ?d"] assms(3) eq by simp
  then have "\<not> length ?ks \<le> 2" by auto
  with gone have "prune_dir ?d = remove_snaps (drop 2 (rev ?ks)) ?d" using assms(2) by (simp add: prune_dir_def dir_io_def Let_def)
  then have "fmlookup (d_snaps (prune_dir ?d)) ?q = None" "d_manifest (prune_dir ?d) = Some ?q" "d_faults (prune_dir ?d) = []"
    using remove_snaps_clean [of ?d "drop 2 (rev ?ks)" ?q] assms(2) gone by simp_all
  then have "Engine_Open g [] [] (prune_dir ?d) = Ok (fresh_engine (empty_wal []) (prune_dir ?d))"
    by (simp add: Engine_Open_def dir_io_def OpenWAL_def ReadRecords_short LoadLatestSnapshot_clean snap_of_def empty_wal_def Let_def)
  with cp show ?thesis by (simp add: pruneSnapshots_def db_of_def tab_at_def fresh_engine_def)
qed

text \<open>Three checkpoints, after 5, 7 and 3 records.\<close>

definition three_checkpoints :: engine where
  "three_checkpoints = (let cp = (\<lambda>k e. snd (Engine_Checkpoint (e\<lparr>e_wal := (e_wal e)\<lparr>w_seq := k\<rparr>\<rparr>)))
     in (cp 7 (cp 5 sample_engine))\<lparr>e_wal := (e_wal sample_engine)\<lparr>w_seq := 3\<rparr>\<rparr>)"

theorem checkpoint_loses_database_witness:
  "db_of three_checkpoints ''t'' = Some (0, sample_cols, sample_rows)
   \<and> fst (Engine_Checkpoint three_checkpoints) = Ok ()
   \<and> (\<exists>er. Engine_Open sample_gob (w_file (e_wal (snd (Engine_Checkpoint three_checkpoints)))) []
        (e_dir (snd (Engine_Checkpoint three_checkpoints))) = Ok er \<and> (\<forall>n. db_of er n = None))"
proof -
  have clean: "io_clean (e_wal three_checkpoints)" "d_faults (e_dir three_checkpoints) = []"
    and sq: "w_seq (e_wal three_checkpoints) = 3" and keys: "fmkeys (d_snaps (e_dir three_checkpoints)) = [5, 7]"
    by code_simp+
  have dom: "fmdom' (d_snaps (e_dir three_checkpoints)) = {5, 7}" using set_fmkeys [of "d_snaps (e_dir three_checkpoints)"] keys by simp
  have "db_of (snd (Engine_Checkpoint e)) = db_of e" for e
    by (auto simp: Engine_Checkpoint_def pruneSnapshots_def db_of_def tab_at_def split: prod.split sum.split)
  then have db: "db_of three_checkpoints = db_of sample_engine"
    by (simp add: three_checkpoints_def Let_def db_of_def tab_at_def fun_eq_iff)
  have "{s \<in> {5, 7}. 3 < s} = {5, 7 :: uint64}" by auto
  then have "2 \<le> card {s \<in> fmdom' (d_snaps (e_dir three_checkpoints)). w_seq (e_wal three_checkpoints) < s}"
    unfolding dom sq by simp
  from checkpoint_loses_database [OF clean this prod.collapse [symmetric], of sample_gob] db show ?thesis by simp
qed

section \<open>What a restart does not restore\<close>

lemma Engine_CreateTable_clean:
  assumes "io_clean (e_wal e)" "encodable g (create_rec n c (txSeq e + 1))" "fmlookup (tables e) n = None"
    and "Validate \<lparr>td_name = n, td_cols = c\<rparr> = Ok \<lparr>td_name = n, td_cols = c\<rparr>"
  shows "Engine_CreateTable g n c e = (Ok (), writeMetaLocked (addTableLocked n c (e\<lparr>txSeq := txSeq e + 1,
    e_wal := wal_logged g (txn_recs (txSeq e + 1) (create_rec n c (txSeq e + 1))) (e_wal e)\<rparr>)))"
  using assms by (simp add: Engine_CreateTable_def Engine_txn_clean)

lemma bump_nextID_id: "t_id (bump_nextID i t) = t_id t"
  by (simp add: bump_nextID_def)

lemma Engine_Put_clean:
  assumes "io_clean (e_wal e)" "encodable g (put_rec (t_id t) i row (txSeq e + 1))" "fmlookup (tables e) n = Some p" "heap e ! p = t"
    and "0 < i" "length row = length (t_cols t)" "fmlookup (t_rows t) i = None" "\<not> uniq_conflict (bump_nextID i t) i row"
  shows "Engine_Put g n i row e = (Ok i, noteWrite (set_tab p (store_row i row (bump_nextID i t)) ((set_tab p (bump_nextID i t) e)\<lparr>txSeq := txSeq e + 1,
    e_wal := wal_logged g (txn_recs (txSeq e + 1) (put_rec (t_id t) i row (txSeq e + 1))) (e_wal e)\<rparr>)))"
proof -
  let ?e = "set_tab p (bump_nextID i t) e"
  have "Engine_txn g (put_rec (t_id t) i row) ?e = (Ok (), ?e\<lparr>txSeq := txSeq e + 1,
    e_wal := wal_logged g (txn_recs (txSeq e + 1) (put_rec (t_id t) i row (txSeq e + 1))) (e_wal e)\<rparr>)"
    using Engine_txn_clean [of ?e g "put_rec (t_id t) i row"] assms(1,2) by simp
  with assms show ?thesis
    by (simp add: Engine_Put_def Engine_put_def reserve_row_def stamp_def Let_def bump_nextID_id)
qed

lemma Open_log:
  assumes "gob_ok g" "list_all (encodable g) rs" "d_faults d = []" "\<And>sd. snap_of d = Some sd \<Longrightarrow> \<not> snapshot_panics sd"
  shows "Engine_Open g (log_bytes g rs) [] d = (case replay (\<lambda>_. []) rs (base_engine (snap_of d)
    \<lparr>w_file = log_bytes g rs, w_synced = length (log_bytes g rs), w_seq = word_of_nat (length rs), w_sticky = False, w_faults = []\<rparr> d) of
      Inl x \<Rightarrow> Err x | Inr (_, e) \<Rightarrow> Ok e)"
  using assms
  by (auto simp: Engine_Open_def dir_io_def OpenWAL_def ReadRecords_log LoadLatestSnapshot_clean base_engine_def Let_def split: option.splits sum.split)

text \<open>The directory a checkpoint of \<open>sample_engine\<close> leaves.\<close>

definition sample_dir :: datadir where
  "sample_dir = empty_dir\<lparr>d_snaps := fmupd 0 (snapshot_of sample_engine) fmempty, d_manifest := Some 0\<rparr>"

lemma load_sample: "load_snapshot (snapshot_of sample_engine) (fresh_engine w d) = sample_engine\<lparr>e_wal := w, e_dir := d\<rparr>"
proof -
  have "fmkeys (sd_Tables (snapshot_of sample_engine)) = [''t'']"
    by (simp add: fmkeys_eq_sorted_list snapshot_of_def sample_engine_def fresh_engine_def fmdom'_alt_def)
  then show ?thesis
    by (simp add: load_snapshot_def load_table_def fmlookup_snapshot Let_def)
      (simp add: sample_engine_def fresh_engine_def buildUniqLocked_def initUniq_def uniqCols_def)
qed

lemma sample_dir_snap: "snap_of sample_dir = Some (snapshot_of sample_engine)" "d_faults sample_dir = []"
  "\<not> snapshot_panics (snapshot_of sample_engine)"
  by (simp_all add: snap_of_def sample_dir_def empty_dir_def) code_simp

definition lost_recs :: "walrec list" where
  "lost_recs = [empty_rec RecBegin 1, put_rec 0 2 [VInt 2, VText ''y''] 1]"

text \<open>
  C12: The transaction counter is not restored. The log here ends in a transaction that never committed, which adds
  row 2. The engine opens without that row, as it should. The next write, which deletes row 1, takes the same transaction number
  again, and its commit record commits both: after the next opening row 2 is there.
\<close>

theorem rolled_back_write_returns:
  "\<exists>e e' er. Engine_Open sample_gob (log_bytes sample_gob lost_recs) [] sample_dir = Ok e
     \<and> Engine_Get ''t'' 2 e = None
     \<and> Engine_Delete sample_gob ''t'' 1 e = (Ok (), e') \<and> Engine_Get ''t'' 2 e' = None
     \<and> Engine_Open sample_gob (w_file (e_wal e')) [] (e_dir e') = Ok er \<and> Engine_Get ''t'' 2 er = Some [VInt 2, VText ''y'']"
proof -
  let ?g = sample_gob
  let ?del = "txn_recs 1 (delete_rec 0 1 1)"
  let ?t = "heap sample_engine ! 0"
  have t: "tables sample_engine = fmupd ''t'' 0 fmempty" "byID sample_engine = fmupd 0 0 fmempty" "txSeq sample_engine = 0"
    "length (heap sample_engine) = 1" "t_id ?t = 0" "t_cols ?t = sample_cols" "t_rows ?t = sample_rows"
    by (simp_all add: sample_engine_def fresh_engine_def)
  have enc: "list_all (encodable ?g) lost_recs" "list_all (encodable ?g) ?del" "encodable ?g (delete_rec 0 1 1)"
    by (simp_all add: lost_recs_def encodable_mark encodable_put_loggable encodable_delete max_int64_def)
  define w where "w rs = \<lparr>w_file = log_bytes ?g rs, w_synced = length (log_bytes ?g rs), w_seq = word_of_nat (length rs),
    w_sticky = False, w_faults = []\<rparr>" for rs
  have op: "Engine_Open ?g (log_bytes ?g rs) [] sample_dir = (case replay (\<lambda>_. []) rs (sample_engine\<lparr>e_wal := w rs, e_dir := sample_dir\<rparr>) of
      Inl x \<Rightarrow> Err x | Inr (_, e) \<Rightarrow> Ok e)" if "list_all (encodable ?g) rs" for rs
    using Open_log [OF gob_ok_sample that, of sample_dir] sample_dir_snap by (simp add: base_engine_def load_sample w_def)
  let ?e = "sample_engine\<lparr>e_wal := w lost_recs, e_dir := sample_dir\<rparr>"
  have e: "Engine_Open ?g (log_bytes ?g lost_recs) [] sample_dir = Ok ?e"
    unfolding op [OF enc(1)] by (simp add: lost_recs_def put_rec_def)
  let ?e' = "noteWrite (set_tab 0 (drop_row 1 ?t) (?e\<lparr>txSeq := 1, e_wal := wal_logged ?g ?del (w lost_recs)\<rparr>))"
  have e': "Engine_Delete ?g ''t'' 1 ?e = (Ok (), ?e')"
    using Engine_txn_clean [of ?e ?g "delete_rec 0 1"] enc(3) by (simp add: Engine_Delete_def t w_def io_clean_def Let_def)
  have fl: "w_file (e_wal ?e') = log_bytes ?g (lost_recs @ ?del)" by (simp add: wal_logged_def w_def)
  have "covers sample_cols [VInt 2, VText ''y'']" by (simp add: covers_def sample_uniqCols)
  then have "\<exists>er. Engine_Open ?g (w_file (e_wal ?e')) [] (e_dir ?e') = Ok er \<and> Engine_Get ''t'' 2 er = Some [VInt 2, VText ''y'']"
    unfolding fl using op [of "lost_recs @ ?del"] enc(1,2)
    by (simp add: lost_recs_def put_rec_def delete_rec_def applyPendingLocked_def applyRecord_def t Engine_Get_def tab_at_def)
  moreover have "Engine_Get ''t'' 2 ?e = None" "Engine_Get ''t'' 2 ?e' = None"
    by (simp_all add: Engine_Get_def tab_at_def t noteWrite_def Let_def)
  ultimately show ?thesis using e e' by blast
qed

lemma encodable_sample_ddl:
  "encodable sample_gob (create_rec ''t'' sample_cols tx)" "encodable sample_gob (drop_rec ''t'' tx)"
  by (simp_all add: encodable_def canonical_def create_rec_def drop_rec_def empty_rec_def encode_payload_def sample_gob_def
      enc_sc_def enc_col_def sample_cols_def TypeInt_def TypeText_def enc_char_def maxPayload_def)

lemma sample_cols_valid: "Validate \<lparr>td_name = ''t'', td_cols = sample_cols\<rparr> = Ok \<lparr>td_name = ''t'', td_cols = sample_cols\<rparr>"
  by code_simp

lemma writeMeta_state:
  "heap (writeMetaLocked e) = heap e" "tables (writeMetaLocked e) = tables e" "byID (writeMetaLocked e) = byID e"
  "nextTableID (writeMetaLocked e) = nextTableID e" "d_snaps (e_dir (writeMetaLocked e)) = d_snaps (e_dir e)"
  "d_manifest (e_dir (writeMetaLocked e)) = d_manifest (e_dir e)"
  "d_faults (e_dir e) = [] \<Longrightarrow> d_faults (e_dir (writeMetaLocked e)) = []"
  by (auto simp: writeMetaLocked_def dir_io_def split: prod.split list.split)

lemma writeMeta_snap: "snap_of (e_dir (writeMetaLocked e)) = snap_of (e_dir e)"
  by (simp add: snap_of_def writeMeta_state cong: option.case_cong)

lemmas meta = writeMeta_fields(1,2) writeMeta_state writeMeta_snap

lemma fmdrop_single: "fmdrop k (fmupd k v fmempty) = fmempty"
  by (rule fmap_ext) simp

lemma one_snap: "d_faults d = [] \<Longrightarrow> d_snaps d = fmupd q sd fmempty \<Longrightarrow> prune_dir d = d"
  by (simp add: prune_dir_def dir_io_def Let_def fmkeys_eq_sorted_list)

text \<open>
  C13: The table counter is not restored. Create a table, drop it, checkpoint, create it again
  and insert a row: every step succeeds. The snapshot records no table and so no counter; replay gives
  the new table the id 0 again, the log's row names id 1, and the directory can no longer be opened.
\<close>

theorem recreated_table_unreadable:
  "let g = sample_gob; row = [VInt 1, VText ''y''];
       (r1, e1) = Engine_CreateTable g ''t'' sample_cols (fresh_engine (empty_wal []) empty_dir);
       (r2, e2) = Engine_DropTable g ''t'' e1;
       (r3, e3) = Engine_Checkpoint e2;
       (r4, e4) = Engine_CreateTable g ''t'' sample_cols e3;
       (r5, e5) = Engine_Put g ''t'' 1 row e4
   in r1 = Ok () \<and> r2 = Ok () \<and> r3 = Ok () \<and> r4 = Ok () \<and> r5 = Ok 1
     \<and> Engine_Open g (w_file (e_wal e5)) [] (e_dir e5) = Err (ErrUnknownTableID 1)"
proof -
  let ?g = sample_gob
  let ?e0 = "fresh_engine (empty_wal []) empty_dir"
  have e0: "io_clean (e_wal ?e0)" "tables ?e0 = fmempty" "txSeq ?e0 = 0" "heap ?e0 = []" "byID ?e0 = fmempty" "nextTableID ?e0 = 0"
    "e_dir ?e0 = empty_dir"
    by (simp_all add: fresh_engine_def io_clean_def empty_wal_def)
  define e1 where "e1 = writeMetaLocked (addTableLocked ''t'' sample_cols (?e0\<lparr>txSeq := 1,
      e_wal := wal_logged ?g (txn_recs 1 (create_rec ''t'' sample_cols 1)) (e_wal ?e0)\<rparr>))"
  have 1: "Engine_CreateTable ?g ''t'' sample_cols ?e0 = (Ok (), e1)"
    using Engine_CreateTable_clean [of ?e0 ?g "''t''" sample_cols] encodable_sample_ddl(1) sample_cols_valid e0 by (simp add: e1_def)
  have f1: "io_clean (e_wal e1)" "tables e1 = fmupd ''t'' 0 fmempty" "byID e1 = fmupd 0 0 fmempty" "txSeq e1 = 1" "nextTableID e1 = 1"
    "length (heap e1) = 1" "t_name (heap e1 ! 0) = ''t''" "t_id (heap e1 ! 0) = 0" "d_snaps (e_dir e1) = fmempty" "d_faults (e_dir e1) = []"
    using e0 by (simp_all add: e1_def meta addTableLocked_def Let_def empty_dir_def)
  define e2 where "e2 = writeMetaLocked (dropTableLocked 0 (e1\<lparr>txSeq := 2, e_wal := wal_logged ?g (txn_recs 2 (drop_rec ''t'' 2)) (e_wal e1)\<rparr>))"
  have 2: "Engine_DropTable ?g ''t'' e1 = (Ok (), e2)"
    using Engine_DropTable_clean [of e1 ?g "''t''" 0] encodable_sample_ddl(2) f1 by (simp add: e2_def)
  have f2: "io_clean (e_wal e2)" "tables e2 = fmempty" "byID e2 = fmempty" "txSeq e2 = 2" "nextTableID e2 = 1"
    "length (heap e2) = 1" "d_snaps (e_dir e2) = fmempty" "d_faults (e_dir e2) = []"
    using f1 by (simp_all add: e2_def meta dropTableLocked_def Let_def fmdrop_single)
  let ?q = "w_seq (e_wal e2)"
  define e3 where "e3 = pruneSnapshots (e2\<lparr>e_dir := (e_dir e2)\<lparr>d_snaps := fmupd ?q (snapshot_of e2) fmempty, d_manifest := Some ?q\<rparr>,
    e_wal := (e_wal e2)\<lparr>w_file := [], w_synced := 0, w_seq := 0\<rparr>, sinceCheckpoint := 0\<rparr>)"
  have 3: "Engine_Checkpoint e2 = (Ok (), e3)" using Engine_Checkpoint_clean [OF f2(1,8)] f2(7) by (simp add: e3_def)
  have f3: "io_clean (e_wal e3)" "tables e3 = fmempty" "byID e3 = fmempty" "txSeq e3 = 2" "nextTableID e3 = 1"
    "length (heap e3) = 1" "w_file (e_wal e3) = []" "snap_of (e_dir e3) = Some (snapshot_of e2)" "d_faults (e_dir e3) = []"
    using f2 one_snap by (simp_all add: e3_def pruneSnapshots_def io_clean_def snap_of_def)
  define e4 where "e4 = writeMetaLocked (addTableLocked ''t'' sample_cols (e3\<lparr>txSeq := 3,
      e_wal := wal_logged ?g (txn_recs 3 (create_rec ''t'' sample_cols 3)) (e_wal e3)\<rparr>))"
  have 4: "Engine_CreateTable ?g ''t'' sample_cols e3 = (Ok (), e4)"
    using Engine_CreateTable_clean [of e3 ?g "''t''" sample_cols] encodable_sample_ddl(1) sample_cols_valid f3 by (simp add: e4_def)
  let ?t = "initUniq \<lparr>t_id = 1, t_name = ''t'', t_cols = sample_cols, t_rows = fmempty, t_nextID = 1, t_uniq = fmempty\<rparr>"
  have f4: "io_clean (e_wal e4)" "fmlookup (tables e4) ''t'' = Some 1" "txSeq e4 = 3" "heap e4 ! 1 = ?t"
    "w_file (e_wal e4) = log_bytes ?g (txn_recs 3 (create_rec ''t'' sample_cols 3))" "snap_of (e_dir e4) = Some (snapshot_of e2)"
    "d_faults (e_dir e4) = []"
    using f3 by (simp_all add: e4_def meta addTableLocked_def Let_def wal_logged_def nth_append)
  let ?row = "[VInt 1, VText ''y'']"
  have enc: "encodable ?g (put_rec 1 1 ?row 4)" by (simp add: encodable_put_loggable)
  have "\<not> uniq_conflict (bump_nextID 1 ?t) 1 ?row" by code_simp
  then obtain e5 where 5: "Engine_Put ?g ''t'' 1 ?row e4 = (Ok 1, e5)" "w_file (e_wal e5) = w_file (e_wal e4) @ log_bytes ?g (txn_recs 4 (put_rec 1 1 ?row 4))"
      "e_dir e5 = e_dir e4"
    using Engine_Put_clean [of e4 ?g ?t 1 ?row "''t''" 1] f4 enc by (simp add: initUniq_def wal_logged_def)
  let ?rs = "txn_recs 3 (create_rec ''t'' sample_cols 3) @ txn_recs 4 (put_rec 1 1 ?row 4)"
  have "list_all (encodable ?g) ?rs" using enc encodable_sample_ddl(1) by (simp add: encodable_mark)
  note op = Open_log [OF gob_ok_sample this, of "e_dir e5"]
  have "fmkeys (sd_Tables (snapshot_of e2)) = []" using f2(2) by (simp add: snapshot_of_def fmkeys_eq_sorted_list fmdom'_alt_def)
  then have "load_snapshot (snapshot_of e2) x = x" "\<not> snapshot_panics (snapshot_of e2)" for x
    by (simp_all add: load_snapshot_def snapshot_panics_def)
  with op f4(6,7) 5(3) have "Engine_Open ?g (log_bytes ?g ?rs) [] (e_dir e5) = Err (ErrUnknownTableID 1)"
    by (simp add: base_engine_def fresh_engine_def put_rec_def create_rec_def
        applyPendingLocked_def applyRecord_def addTableLocked_def Let_def)
  then show ?thesis unfolding Let_def 1 2 3 4 5(1) prod.case using 5(2) f4(5) by simp
qed

end
