(* ===== verification/Ast.thy ===== *)
theory Ast
  imports Schema
begin

text \<open>
  The syntax trees of \<open>internal/parser/parser.go\<close>. A nil expression or statement pointer is \<open>None\<close>;
  the statements of a SELECT and its expressions refer to each other through subqueries.
\<close>

section \<open>Expressions and SELECT\<close>

datatype expr =
    Lit val
  | ColRef string string
  | Func string bool "expr option"
  | Cmp string expr expr
  | IsNullE expr bool
  | And expr expr
  | Or expr expr
  | NotE expr
  | Binary string expr expr
  | InList expr "expr list" bool
  | InSub expr select bool
and select =
  Select (Tables: "tableref list") (On: "expr list") (JoinKinds: "string list") (Star: bool)
    (Fields: "expr list") (FieldAliases: "string list") (Where: "expr option") (Group: "expr list")
    (Having: "expr option") (Order: "orderterm list") (Limit: "int64 option")
and tableref = TableRef (tr_Table: string) (tr_Alias: string) (tr_Sub: "select option")
and orderterm = OrderTerm (ot_Expr: expr) (ot_Desc: bool)

section \<open>Statements\<close>

record columndef =
  cd_Name :: string
  cd_Type :: column_type
  cd_Primary :: bool
  cd_NotNull :: bool
  cd_AutoInc :: bool
  cd_Unique :: bool
  cd_RefTable :: string
  cd_RefCol :: string

datatype stmt =
    CreateTable string "columndef list"
  | DropTable string bool
  | Insert string "string list" "expr list list"
  | SelectStmt select
  | Update string "(string \<times> expr) list" "expr option"
  | Delete string "expr option"
  | Begin
  | Commit
  | Rollback

definition IsAggregateFunc :: "string \<Rightarrow> bool" where
  "IsAggregateFunc name \<longleftrightarrow> name \<in> {''count'', ''sum'', ''avg'', ''min'', ''max''}"

end
