(* ===== verification/Lexer.thy ===== *)
theory Lexer
  imports Ast
begin

text \<open>
  The lexer of \<open>internal/parser/parser.go\<close>: tokens, the errors of the parser, the loop over the input.
  The lemmas say what tokens it can emit (\<open>lex_shape\<close>) and that it reads back every sequence of such
  tokens written with spaces between them (\<open>lex_render\<close>).
\<close>

section \<open>Tokens\<close>

datatype tokKind = tokEOF | tokIdent | tokNum | tokStr | tokPunct

record token =
  tok_kind :: tokKind
  tok_text :: string
  tok_pos :: nat

datatype syn_msg =
    UnterminatedString
  | UnexpectedChar char
  | Expected string token
  | ExpectedName string token
  | UnknownColumnType string
  | EmptyStatement
  | UnsupportedStatement token
  | ExpectedSelect
  | AliasRequired
  | LimitNeedsInt
  | BadNumber string
  | Unexpected token
  | UnexpectedEnd
  | TrailingInput token

datatype parse_error = SyntaxError nat syn_msg

definition isIdentStart :: "char \<Rightarrow> bool" where
  "isIdentStart c \<longleftrightarrow> c = CHR ''_'' \<or> (CHR ''a'' \<le> c \<and> c \<le> CHR ''z'') \<or> (CHR ''A'' \<le> c \<and> c \<le> CHR ''Z'')"

definition isIdentChar :: "char \<Rightarrow> bool" where
  "isIdentChar c \<longleftrightarrow> isIdentStart c \<or> (CHR ''0'' \<le> c \<and> c \<le> CHR ''9'')"

definition punctChars :: string where
  "punctChars = ''(),=<>+-*%/;.''"

definition is_space :: "char \<Rightarrow> bool" where
  "is_space c \<longleftrightarrow> c = CHR '' '' \<or> c = CHR 0x09 \<or> c = CHR 0x0A \<or> c = CHR 0x0D"

text \<open>\<open>strings.ToLower\<close> on ASCII text.\<close>

definition to_lower :: "char \<Rightarrow> char" where
  "to_lower c = (if CHR ''A'' \<le> c \<and> c \<le> CHR ''Z'' then char_of (of_char c + 32 :: int) else c)"

section \<open>The lexer\<close>

text \<open>The loop over a string literal, after the opening quote: its text and the rest.\<close>

fun lex_str :: "string \<Rightarrow> (string \<times> string) option" where
  "lex_str [] = None"
| "lex_str (d # ds) =
     (if d = CHR 0x27 then
        (case ds of
           d' # ds' \<Rightarrow> if d' = CHR 0x27 then map_option (apfst (Cons CHR 0x27)) (lex_str ds') else Some ([], ds)
         | [] \<Rightarrow> Some ([], ds))
      else map_option (apfst (Cons d)) (lex_str ds))"

definition lex_num :: "string \<Rightarrow> string \<times> string" where
  "lex_num cs =
     (let ip = takeWhile is_digit cs; cs1 = dropWhile is_digit cs in
      case cs1 of
        c # cs2 \<Rightarrow> if c = CHR ''.'' then (ip @ c # takeWhile is_digit cs2, dropWhile is_digit cs2) else (ip, cs1)
      | [] \<Rightarrow> (ip, cs1))"

definition lex_punct :: "string \<Rightarrow> string" where
  "lex_punct cs =
     (let two = take 2 cs in if two \<in> {''<='', ''>='', ''<>''} then two else take 1 cs)"

text \<open>One round of the loop: nothing or a token, and the rest of the input.\<close>

definition lex_step :: "string \<Rightarrow> (syn_msg, (tokKind \<times> string) option \<times> string) res" where
  "lex_step cs =
     (let c = hd cs in
      if is_space c then Ok (None, tl cs)
      else if c = CHR 0x27 then
        (case lex_str (tl cs) of None \<Rightarrow> Err UnterminatedString | Some (t, rest) \<Rightarrow> Ok (Some (tokStr, t), rest))
      else if is_digit c then (case lex_num cs of (t, rest) \<Rightarrow> Ok (Some (tokNum, t), rest))
      else if isIdentStart c then
        Ok (Some (tokIdent, map to_lower (takeWhile isIdentChar cs)), dropWhile isIdentChar cs)
      else if c \<in> set punctChars then Ok (Some (tokPunct, lex_punct cs), drop (length (lex_punct cs)) cs)
      else Err (UnexpectedChar c))"

lemma lex_str_length: "lex_str cs = Some (t, rest) \<Longrightarrow> length rest < length cs"
proof (induction cs arbitrary: t rest rule: lex_str.induct)
  case (2 d ds)
  then show ?case by (cases ds) (fastforce split: if_splits)+
qed simp

lemma lex_num_length:
  assumes "is_digit c" "lex_num (c # cs) = (t, rest)"
  shows "length rest \<le> length cs"
proof -
  have le: "length (dropWhile is_digit xs) \<le> length xs" for xs by (rule length_dropWhile_le)
  show ?thesis
  proof (cases "dropWhile is_digit cs")
    case Nil
    with assms show ?thesis by (auto simp: lex_num_def)
  next
    case (Cons d ds)
    moreover have "length (d # ds) \<le> length cs" using le [of cs] Cons by simp
    ultimately show ?thesis using le [of ds] assms by (auto simp: lex_num_def Let_def dest: sym split: if_splits)
  qed
qed

lemma lex_punct_nonempty: "cs \<noteq> [] \<Longrightarrow> 0 < length (lex_punct cs)"
  by (auto simp: lex_punct_def Let_def)

lemma lex_step_length:
  assumes "cs \<noteq> []" "lex_step cs = Ok (r, rest)"
  shows "length rest < length cs"
proof -
  obtain c cs' where cs: "cs = c # cs'" using assms(1) by (cases cs) auto
  have "isIdentStart c \<Longrightarrow> length (dropWhile isIdentChar (c # cs')) \<le> length cs'"
    by (simp add: isIdentChar_def length_dropWhile_le)
  moreover have "Suc (length cs') - length (lex_punct cs) \<le> length cs'" using lex_punct_nonempty [OF assms(1)] by linarith
  ultimately show ?thesis using assms
    by (auto simp: cs lex_step_def Let_def less_Suc_eq_le dest: lex_str_length lex_num_length
        split: if_splits option.splits prod.splits)
qed

text \<open>\<open>lex\<close> on the rest of the input and the position of its first character.\<close>

function lex_src :: "string \<Rightarrow> nat \<Rightarrow> (parse_error, token list) res" where
  "lex_src cs pos =
     (if cs = [] then Ok [\<lparr>tok_kind = tokEOF, tok_text = [], tok_pos = pos\<rparr>]
      else case lex_step cs of
        Inl m \<Rightarrow> Err (SyntaxError pos m)
      | Inr (tk, rest) \<Rightarrow>
          (case lex_src rest (pos + (length cs - length rest)) of
             Inl e \<Rightarrow> Err e
           | Inr ts \<Rightarrow> Ok (case tk of None \<Rightarrow> ts
                              | Some (k, t) \<Rightarrow> \<lparr>tok_kind = k, tok_text = t, tok_pos = pos\<rparr> # ts)))"
  by pat_completeness auto
termination
  by (relation "measure (\<lambda>(cs, pos). length cs)") (auto dest: lex_step_length)

declare lex_src.simps [simp del]

section \<open>What the lexer emits\<close>

definition num_wf :: "string \<Rightarrow> bool" where
  "num_wf t \<longleftrightarrow> (\<exists>ip fp. ip \<noteq> [] \<and> list_all is_digit (ip @ fp) \<and> (t = ip \<and> fp = [] \<or> t = ip @ CHR ''.'' # fp))"

definition ident_wf :: "string \<Rightarrow> bool" where
  "ident_wf t \<longleftrightarrow> t \<noteq> [] \<and> isIdentStart (hd t) \<and> list_all isIdentChar t \<and> map to_lower t = t"

definition punct_wf :: "string \<Rightarrow> bool" where
  "punct_wf t \<longleftrightarrow> t \<in> {''<='', ''>='', ''<>''} \<or> (\<exists>c \<in> set punctChars. t = [c])"

fun tok_wf :: "tokKind \<Rightarrow> string \<Rightarrow> bool" where
  "tok_wf tokEOF t = False"
| "tok_wf tokIdent t = ident_wf t"
| "tok_wf tokNum t = num_wf t"
| "tok_wf tokStr t = True"
| "tok_wf tokPunct t = punct_wf t"

lemma to_lower_letter: "isIdentStart c \<Longrightarrow> isIdentStart (to_lower c) \<and> to_lower (to_lower c) = to_lower c"
proof -
  have "\<forall>c. isIdentStart c \<longrightarrow> isIdentStart (to_lower c) \<and> to_lower (to_lower c) = to_lower c" by code_simp
  then show "isIdentStart c \<Longrightarrow> ?thesis" by blast
qed


lemma num_wf_lex_num:
  assumes "is_digit c" "lex_num (c # cs) = (t, rest)"
  shows "num_wf t"
proof -
  let ?ip = "c # takeWhile is_digit cs"
  have ip: "list_all is_digit ?ip" using assms(1) by (auto simp: list_all_iff dest: set_takeWhileD)
  show ?thesis
  proof (cases "dropWhile is_digit cs")
    case Nil
    with assms ip show ?thesis unfolding num_wf_def by (intro exI [of _ ?ip] exI [of _ "[]"]) (auto simp: lex_num_def)
  next
    case (Cons d ds)
    have "list_all is_digit (takeWhile is_digit ds)" by (auto simp: list_all_iff dest: set_takeWhileD)
    then show ?thesis using Cons assms ip unfolding num_wf_def
      by (intro exI [of _ ?ip] exI [of _ "if d = CHR ''.'' then takeWhile is_digit ds else []"])
        (auto simp: lex_num_def Let_def split: if_splits)
  qed
qed

lemma punct_wf_lex_punct: "c \<in> set punctChars \<Longrightarrow> punct_wf (lex_punct (c # cs))"
  by (auto simp: lex_punct_def punct_wf_def Let_def)

lemma ident_wf_lex: "isIdentStart c \<Longrightarrow> ident_wf (map to_lower (takeWhile isIdentChar (c # cs)))"
proof -
  assume c: "isIdentStart c"
  have all: "\<forall>c. isIdentChar c \<longrightarrow> isIdentChar (to_lower c) \<and> to_lower (to_lower c) = to_lower c" by code_simp
  have "isIdentChar d" if "d \<in> set (takeWhile isIdentChar (c # cs))" for d using that by (rule set_takeWhileD [THEN conjunct2])
  with c all to_lower_letter [OF c] show ?thesis
    by (auto simp: ident_wf_def list_all_iff isIdentChar_def dest: set_takeWhileD)
qed

lemma lex_step_wf:
  assumes "cs \<noteq> []" "lex_step cs = Ok (Some (k, t), rest)"
  shows "tok_wf k t"
proof -
  obtain c cs' where cs: "cs = c # cs'" using assms(1) by (cases cs) auto
  show ?thesis
    using assms(2) num_wf_lex_num [of c cs'] punct_wf_lex_punct [of c cs'] ident_wf_lex [of c cs']
    by (auto simp: cs lex_step_def Let_def split: if_splits option.splits prod.splits)
qed

definition kt :: "token \<Rightarrow> tokKind \<times> string" where
  "kt t = (tok_kind t, tok_text t)"

lemma kt_token [simp]: "kt \<lparr>tok_kind = k, tok_text = t, tok_pos = p\<rparr> = (k, t)"
  by (simp add: kt_def)

lemma lex_shape:
  "lex_src cs pos = Ok ts \<Longrightarrow> \<exists>us. ts = us @ [\<lparr>tok_kind = tokEOF, tok_text = [], tok_pos = pos + length cs\<rparr>]
    \<and> (\<forall>u \<in> set us. tok_wf (tok_kind u) (tok_text u) \<and> pos \<le> tok_pos u \<and> tok_pos u < pos + length cs) \<and> sorted_wrt (<) (map tok_pos us)"
proof (induction cs pos arbitrary: ts rule: lex_src.induct)
  case (1 cs pos)
  show ?case
  proof (cases "cs = []")
    case True
    with "1.prems" show ?thesis by (simp add: lex_src.simps [of "[]"])
  next
    case False
    with "1.prems" obtain tk rest ts' where
      st: "lex_step cs = Ok (tk, rest)" "lex_src rest (pos + (length cs - length rest)) = Ok ts'"
        "ts = (case tk of None \<Rightarrow> ts' | Some (k, t) \<Rightarrow> \<lparr>tok_kind = k, tok_text = t, tok_pos = pos\<rparr> # ts')"
      by (auto simp: lex_src.simps [of cs] split: sum.splits)
    have le: "length rest < length cs" by (rule lex_step_length [OF False st(1)])
    from "1.IH" [OF False st(1) refl st(2)] le obtain us where
      us: "ts' = us @ [\<lparr>tok_kind = tokEOF, tok_text = [], tok_pos = pos + length cs\<rparr>]"
        "\<forall>u \<in> set us. tok_wf (tok_kind u) (tok_text u) \<and> pos < tok_pos u \<and> tok_pos u < pos + length cs" "sorted_wrt (<) (map tok_pos us)"
      by fastforce
    show ?thesis
    proof (cases tk)
      case None
      with us st(3) show ?thesis by (intro exI [of _ us]) auto
    next
      case (Some p)
      obtain k t where p: "p = (k, t)" by fastforce
      have "tok_wf k t" using lex_step_wf [OF False] st(1) Some p by simp
      with Some p us st(3) False show ?thesis
        by (intro exI [of _ "\<lparr>tok_kind = k, tok_text = t, tok_pos = pos\<rparr> # us"]) auto
    qed
  qed
qed

section \<open>Rendering\<close>

definition esc :: "string \<Rightarrow> string" where
  "esc t = concat (map (\<lambda>c. if c = CHR 0x27 then [CHR 0x27, CHR 0x27] else [c]) t)"

fun render_tok :: "tokKind \<times> string \<Rightarrow> string" where
  "render_tok (k, t) = (if k = tokStr then CHR 0x27 # esc t @ [CHR 0x27] else t) @ '' ''"

definition render :: "(tokKind \<times> string) list \<Rightarrow> string" where
  "render xs = concat (map render_tok xs)"

lemma lex_str_esc: "lex_str (esc t @ CHR 0x27 # CHR '' '' # r) = Some (t, CHR '' '' # r)"
  by (induction t) (auto simp: esc_def)

lemma char_classes:
  "isIdentStart c \<Longrightarrow> \<not> is_space c \<and> c \<noteq> CHR 0x27 \<and> \<not> is_digit c"
  "is_digit c \<Longrightarrow> \<not> is_space c \<and> c \<noteq> CHR 0x27 \<and> c \<noteq> CHR ''.''"
  "c \<in> set punctChars \<Longrightarrow> \<not> is_space c \<and> c \<noteq> CHR 0x27 \<and> \<not> is_digit c \<and> \<not> isIdentStart c"
proof -
  have "\<forall>c. (isIdentStart c \<longrightarrow> \<not> is_space c \<and> c \<noteq> CHR 0x27 \<and> \<not> is_digit c)
    \<and> (is_digit c \<longrightarrow> \<not> is_space c \<and> c \<noteq> CHR 0x27 \<and> c \<noteq> CHR ''.'')
    \<and> (c \<in> set punctChars \<longrightarrow> \<not> is_space c \<and> c \<noteq> CHR 0x27 \<and> \<not> is_digit c \<and> \<not> isIdentStart c)" by code_simp
  then show "isIdentStart c \<Longrightarrow> \<not> is_space c \<and> c \<noteq> CHR 0x27 \<and> \<not> is_digit c"
    "is_digit c \<Longrightarrow> \<not> is_space c \<and> c \<noteq> CHR 0x27 \<and> c \<noteq> CHR ''.''"
    "c \<in> set punctChars \<Longrightarrow> \<not> is_space c \<and> c \<noteq> CHR 0x27 \<and> \<not> is_digit c \<and> \<not> isIdentStart c" by blast+
qed

lemma space_classes: "\<not> is_digit CHR '' ''" "\<not> isIdentChar CHR '' ''" "is_space CHR '' ''" "is_space CHR 0x27 = False" "\<not> is_digit CHR ''.''"
  by code_simp+

lemma lex_num_render:
  assumes "num_wf t"
  shows "lex_num (t @ CHR '' '' # r) = (t, CHR '' '' # r)"
proof -
  obtain ip fp where t: "ip \<noteq> []" "list_all is_digit (ip @ fp)" "t = ip \<and> fp = [] \<or> t = ip @ CHR ''.'' # fp"
    using assms by (auto simp: num_wf_def)
  have tw: "takeWhile is_digit (xs @ c # ys) = xs" "dropWhile is_digit (xs @ c # ys) = c # ys"
    if "list_all is_digit xs" "\<not> is_digit c" for xs c ys
    using that by (auto simp: list_all_iff takeWhile_append dropWhile_append)
  show ?thesis using t space_classes by (auto simp: lex_num_def Let_def tw)
qed

lemma lex_step_render:
  assumes "tok_wf k t"
  shows "lex_step (render_tok (k, t) @ r) = Ok (Some (k, t), CHR '' '' # r)"
proof (cases k)
  case tokIdent
  with assms have t: "t \<noteq> []" "isIdentStart (hd t)" "list_all isIdentChar t" "map to_lower t = t" by (auto simp: ident_wf_def)
  then have "takeWhile isIdentChar (t @ CHR '' '' # r) = t" "dropWhile isIdentChar (t @ CHR '' '' # r) = CHR '' '' # r"
    using space_classes by (auto simp: list_all_iff takeWhile_append dropWhile_append)
  with t char_classes(1) [of "hd t"] tokIdent show ?thesis by (auto simp: lex_step_def Let_def)
next
  case tokNum
  with assms have t: "num_wf t" by simp
  then obtain c cs where c: "t = c # cs" "is_digit c" by (auto simp: num_wf_def neq_Nil_conv)
  with lex_num_render [OF t] char_classes(2) [OF c(2)] tokNum show ?thesis by (simp add: lex_step_def)
next
  case tokStr
  with lex_str_esc show ?thesis using space_classes by (simp add: lex_step_def)
next
  case tokPunct
  with assms have t: "punct_wf t" by simp
  then obtain c cs where c: "t = c # cs" "c \<in> set punctChars" by (auto simp: punct_wf_def punctChars_def)
  moreover have "lex_punct (t @ CHR '' '' # r) = t" using t by (auto simp: punct_wf_def lex_punct_def numeral_2_eq_2 Let_def)
  ultimately show ?thesis using char_classes(3) [OF c(2)] tokPunct by (simp add: lex_step_def)
qed (use assms in simp)

lemma lex_render:
  assumes "list_all (case_prod tok_wf) xs"
  shows "\<exists>ts. lex_src (render xs) pos = Ok ts \<and> map kt ts = xs @ [(tokEOF, [])]"
  using assms
proof (induction xs arbitrary: pos)
  case Nil
  then show ?case by (simp add: render_def lex_src.simps)
next
  case (Cons x xs)
  obtain k t where x: "x = (k, t)" by fastforce
  let ?rest = "render xs"
  have ne: "render_tok (k, t) \<noteq> []" by simp
  have step: "lex_step (render_tok (k, t) @ ?rest) = Ok (Some (k, t), CHR '' '' # ?rest)"
    using Cons.prems x by (intro lex_step_render) simp
  have space: "lex_src (CHR '' '' # ?rest) p = lex_src ?rest (Suc p)" for p
    using space_classes by (subst lex_src.simps) (simp add: lex_step_def split: sum.split)
  let ?q = "Suc (pos + (length (render_tok (k, t) @ ?rest) - length (CHR '' '' # ?rest)))"
  have q: "lex_src (render_tok (k, t) @ ?rest) pos = (case lex_src ?rest ?q of Inl e \<Rightarrow> Err e
      | Inr ts \<Rightarrow> Ok (\<lparr>tok_kind = k, tok_text = t, tok_pos = pos\<rparr> # ts))"
    unfolding lex_src.simps [of "render_tok (k, t) @ ?rest"] step using ne by (simp del: render_tok.simps add: space cong: sum.case_cong)
  from Cons.IH [of ?q] Cons.prems obtain ts where "lex_src ?rest ?q = Ok ts" "map kt ts = xs @ [(tokEOF, [])]" by auto
  with q x show ?case by (simp add: render_def)
qed

end
