(* ===== verification/Parser.thy ===== *)
theory Parser
  imports Lexer
begin

text \<open>
  The recursive descent parser of \<open>internal/parser/parser.go\<close>. The parser state is the tokens still to be
  read and the end-of-input token behind them (\<open>toks[i:]\<close>); putting a token back is using the older state.
  A result is an error or a value with the state behind it; \<open>None\<close> says that the bound on the
  recursion was too small, and \<open>Parser_Total\<close> shows that the bound \<open>Parse\<close> uses never is.
\<close>

section \<open>The parser state\<close>

type_synonym pst = "token list \<times> token"
type_synonym 'a presult = "(parse_error, 'a \<times> pst) res option"

fun peek :: "pst \<Rightarrow> token" where
  "peek (ts, z) = (case ts of [] \<Rightarrow> z | t # _ \<Rightarrow> t)"

fun next_tok :: "pst \<Rightarrow> pst" where
  "next_tok (ts, z) = (tl ts, z)"

definition ret :: "'a \<Rightarrow> pst \<Rightarrow> 'a presult" where
  "ret a s = Some (Ok (a, s))"

definition errf :: "syn_msg \<Rightarrow> pst \<Rightarrow> 'a presult" where
  "errf m s = Some (Err (SyntaxError (tok_pos (peek s)) m))"

definition bindP :: "'a presult \<Rightarrow> ('a \<Rightarrow> pst \<Rightarrow> 'b presult) \<Rightarrow> 'b presult" where
  "bindP m f = (case m of
     None \<Rightarrow> None | Some (Inl e) \<Rightarrow> Some (Err e) | Some (Inr (a, s)) \<Rightarrow> f a s)"

definition at_tok :: "tokKind \<Rightarrow> string \<Rightarrow> pst \<Rightarrow> bool" where
  "at_tok k x s \<longleftrightarrow> tok_kind (peek s) = k \<and> tok_text (peek s) = x"

abbreviation atPunct :: "string \<Rightarrow> pst \<Rightarrow> bool" where
  "atPunct \<equiv> at_tok tokPunct"

abbreviation atKw :: "string \<Rightarrow> pst \<Rightarrow> bool" where
  "atKw \<equiv> at_tok tokIdent"

definition expectPunct :: "string \<Rightarrow> pst \<Rightarrow> unit presult" where
  "expectPunct x s = (if atPunct x s then ret () (next_tok s) else errf (Expected x (peek s)) s)"

definition expectKw :: "string \<Rightarrow> pst \<Rightarrow> unit presult" where
  "expectKw x s = (if atKw x s then ret () (next_tok s) else errf (Expected x (peek s)) s)"

definition takeKw :: "string \<Rightarrow> pst \<Rightarrow> bool \<times> pst" where
  "takeKw x s = (if atKw x s then (True, next_tok s) else (False, s))"

definition identOrErr :: "string \<Rightarrow> pst \<Rightarrow> string presult" where
  "identOrErr what s =
     (if tok_kind (peek s) \<noteq> tokIdent then errf (ExpectedName what (peek s)) s
      else ret (tok_text (peek s)) (next_tok s))"

definition refStopWords :: "string list" where
  "refStopWords = [''where'', ''group'', ''order'', ''limit'', ''join'', ''inner'', ''left'', ''right'',
     ''outer'', ''cross'', ''on'', ''having'', ''in'', ''not'']"

definition fieldStopWords :: "string list" where
  "fieldStopWords = [''from'', ''where'', ''group'', ''having'', ''order'', ''limit'']"

section \<open>Loops\<close>

text \<open>
  The two loops the parser is made of: items with commas between them, and a left-associative
  chain of binary operators. The first argument bounds the number of rounds.
\<close>

primrec sepBy :: "nat \<Rightarrow> (pst \<Rightarrow> 'a presult) \<Rightarrow> pst \<Rightarrow> 'a list presult" where
  "sepBy 0 p s = None"
| "sepBy (Suc n) p s = bindP (p s) (\<lambda>x s.
     if atPunct '','' s then bindP (sepBy n p (next_tok s)) (\<lambda>xs s. ret (x # xs) s) else ret [x] s)"

primrec left_loop ::
  "nat \<Rightarrow> (token \<Rightarrow> bool) \<Rightarrow> (string \<Rightarrow> expr \<Rightarrow> expr \<Rightarrow> expr) \<Rightarrow> (pst \<Rightarrow> expr presult) \<Rightarrow> expr \<Rightarrow> pst \<Rightarrow> expr presult" where
  "left_loop 0 op mk p l s = None"
| "left_loop (Suc n) op mk p l s =
     (if op (peek s) then bindP (p (next_tok s)) (\<lambda>r s'. left_loop n op mk p (mk (tok_text (peek s)) l r) s')
      else ret l s)"

section \<open>Expressions\<close>

text \<open>
  Each level takes the parsers it calls back into: \<open>pe\<close> for \<open>parseExpr\<close>, \<open>ps\<close> for \<open>parseSelect\<close>.
\<close>

definition punct_in :: "string list \<Rightarrow> token \<Rightarrow> bool" where
  "punct_in xs t \<longleftrightarrow> tok_kind t = tokPunct \<and> tok_text t \<in> set xs"

definition kw_is :: "string \<Rightarrow> token \<Rightarrow> bool" where
  "kw_is x t \<longleftrightarrow> tok_kind t = tokIdent \<and> tok_text t = x"

definition parse_num :: "string \<Rightarrow> pst \<Rightarrow> expr presult" where
  "parse_num t s =
     (if CHR ''.'' \<in> set t then
        (case f64_parse t of None \<Rightarrow> errf (BadNumber t) s | Some f \<Rightarrow> ret (Lit (VFloat f)) s)
      else if undec t > max_int64 then errf (BadNumber t) s
      else ret (Lit (VInt (undec t))) s)"

definition parse_name :: "(pst \<Rightarrow> expr presult) \<Rightarrow> string \<Rightarrow> pst \<Rightarrow> expr presult" where
  "parse_name pe name s =
     (if atPunct ''.'' s then bindP (identOrErr ''column name'' (next_tok s)) (\<lambda>cn s. ret (ColRef name cn) s)
      else if atPunct ''('' s then
        (let s = next_tok s in
         if atPunct ''*'' s then
           bindP (expectPunct '')'' (next_tok s)) (\<lambda>_ s. ret (Func name True None) s)
         else if \<not> atPunct '')'' s then
           bindP (pe s) (\<lambda>arg s. bindP (expectPunct '')'' s) (\<lambda>_ s. ret (Func name False (Some arg)) s))
         else bindP (expectPunct '')'' s) (\<lambda>_ s. ret (Func name False None) s))
      else ret (ColRef [] name) s)"

definition parsePrimary :: "(pst \<Rightarrow> expr presult) \<Rightarrow> pst \<Rightarrow> expr presult" where
  "parsePrimary pe s =
     (let t = peek s; x = tok_text t in
      case tok_kind t of
        tokNum \<Rightarrow> parse_num x (next_tok s)
      | tokStr \<Rightarrow> ret (Lit (VText x)) (next_tok s)
      | tokIdent \<Rightarrow>
          if x = ''null'' then ret (Lit VNull) (next_tok s)
          else if x = ''true'' then ret (Lit (VBool True)) (next_tok s)
          else if x = ''false'' then ret (Lit (VBool False)) (next_tok s)
          else parse_name pe x (next_tok s)
      | tokPunct \<Rightarrow>
          if x = ''('' then bindP (pe (next_tok s)) (\<lambda>e s. bindP (expectPunct '')'' s) (\<lambda>_ s. ret e s))
          else errf (Unexpected t) s
      | tokEOF \<Rightarrow> errf UnexpectedEnd s)"

primrec parseUnary :: "nat \<Rightarrow> (pst \<Rightarrow> expr presult) \<Rightarrow> pst \<Rightarrow> expr presult" where
  "parseUnary 0 pe s = None"
| "parseUnary (Suc n) pe s =
     (if atPunct ''-'' s then
        bindP (parseUnary n pe (next_tok s)) (\<lambda>x s. ret (Binary ''-'' (Lit (VInt 0)) x) s)
      else parsePrimary pe s)"

definition parseMul :: "nat \<Rightarrow> (pst \<Rightarrow> expr presult) \<Rightarrow> pst \<Rightarrow> expr presult" where
  "parseMul n pe s = bindP (parseUnary n pe s) (left_loop n (punct_in [''*'', ''/'', ''%'']) Binary (parseUnary n pe))"

definition parseAdd :: "nat \<Rightarrow> (pst \<Rightarrow> expr presult) \<Rightarrow> pst \<Rightarrow> expr presult" where
  "parseAdd n pe s = bindP (parseMul n pe s) (left_loop n (punct_in [''+'', ''-'']) Binary (parseMul n pe))"

text \<open>The right-hand side of \<open>IN\<close>, after \<open>in\<close> has been read.\<close>

definition parse_in ::
  "nat \<Rightarrow> (pst \<Rightarrow> expr presult) \<Rightarrow> (pst \<Rightarrow> select presult) \<Rightarrow> expr \<Rightarrow> bool \<Rightarrow> pst \<Rightarrow> expr presult" where
  "parse_in n pe ps l isNotIn s =
     bindP (expectPunct ''('' s) (\<lambda>_ s.
       if atKw ''select'' s then
         bindP (ps s) (\<lambda>sub s. bindP (expectPunct '')'' s) (\<lambda>_ s. ret (InSub l sub isNotIn) s))
       else
         bindP (sepBy n pe s) (\<lambda>xs s. bindP (expectPunct '')'' s) (\<lambda>_ s. ret (InList l xs isNotIn) s)))"

definition parseCmp ::
  "nat \<Rightarrow> (pst \<Rightarrow> expr presult) \<Rightarrow> (pst \<Rightarrow> select presult) \<Rightarrow> pst \<Rightarrow> expr presult" where
  "parseCmp n pe ps s = bindP (parseAdd n pe s) (\<lambda>l s.
     if punct_in [''='', ''<>'', ''<'', ''<='', ''>'', ''>=''] (peek s) then
       bindP (parseAdd n pe (next_tok s)) (\<lambda>r s'. ret (Cmp (tok_text (peek s)) l r) s')
     else if atKw ''is'' s then
       (case takeKw ''not'' (next_tok s) of (nt, s) \<Rightarrow>
          bindP (expectKw ''null'' s) (\<lambda>_ s. ret (IsNullE l nt) s))
     else if atKw ''not'' s then
       (if \<not> atKw ''in'' (next_tok s) then ret l s
        else parse_in n pe ps l True (next_tok (next_tok s)))
     else if \<not> atKw ''in'' s then ret l s
     else parse_in n pe ps l False (next_tok s))"

primrec parseNot ::
  "nat \<Rightarrow> nat \<Rightarrow> (pst \<Rightarrow> expr presult) \<Rightarrow> (pst \<Rightarrow> select presult) \<Rightarrow> pst \<Rightarrow> expr presult" where
  "parseNot 0 m pe ps s = None"
| "parseNot (Suc n) m pe ps s =
     (if atKw ''not'' s then bindP (parseNot n m pe ps (next_tok s)) (\<lambda>x s. ret (NotE x) s)
      else parseCmp m pe ps s)"

definition parseAnd ::
  "nat \<Rightarrow> (pst \<Rightarrow> expr presult) \<Rightarrow> (pst \<Rightarrow> select presult) \<Rightarrow> pst \<Rightarrow> expr presult" where
  "parseAnd n pe ps s =
     bindP (parseNot n n pe ps s) (left_loop n (kw_is ''and'') (\<lambda>_. And) (parseNot n n pe ps))"

definition parseOr ::
  "nat \<Rightarrow> (pst \<Rightarrow> expr presult) \<Rightarrow> (pst \<Rightarrow> select presult) \<Rightarrow> pst \<Rightarrow> expr presult" where
  "parseOr n pe ps s =
     bindP (parseAnd n pe ps s) (left_loop n (kw_is ''or'') (\<lambda>_. Or) (parseAnd n pe ps))"

section \<open>SELECT\<close>

definition parse_alias :: "string \<Rightarrow> string \<Rightarrow> pst \<Rightarrow> string presult" where
  "parse_alias what dflt s =
     (case takeKw ''as'' s of (b, s') \<Rightarrow>
        if b then identOrErr what s'
        else if tok_kind (peek s) = tokIdent \<and> tok_text (peek s) \<notin> set refStopWords then identOrErr what s
        else ret dflt s)"

definition parseTableRef :: "(pst \<Rightarrow> select presult) \<Rightarrow> pst \<Rightarrow> tableref presult" where
  "parseTableRef ps s =
     (if atPunct ''('' s then
        (let s = next_tok s in
         if \<not> atKw ''select'' s then errf ExpectedSelect s
         else bindP (ps s) (\<lambda>sub s. bindP (expectPunct '')'' s) (\<lambda>_ s.
                bindP (parse_alias ''derived table alias'' [] s) (\<lambda>al s.
                  if al = [] then errf AliasRequired s else ret (TableRef [] al (Some sub)) s))))
      else bindP (identOrErr ''table name'' s) (\<lambda>name s.
             bindP (parse_alias ''alias'' name s) (\<lambda>al s. ret (TableRef name al None) s)))"

definition parseOptionalAlias :: "pst \<Rightarrow> string presult" where
  "parseOptionalAlias s =
     (if atKw ''as'' s then identOrErr ''column alias'' (next_tok s)
      else if tok_kind (peek s) = tokIdent \<and> tok_text (peek s) \<notin> set fieldStopWords then
        ret (tok_text (peek s)) (next_tok s)
      else ret [] s)"

definition parse_field :: "(pst \<Rightarrow> expr presult) \<Rightarrow> pst \<Rightarrow> (expr \<times> string) presult" where
  "parse_field pe s = bindP (pe s) (\<lambda>e s. bindP (parseOptionalAlias s) (\<lambda>al s. ret (e, al) s))"

text \<open>
  The head of a join: its kind and the state after \<open>JOIN\<close>. A dangling INNER or LEFT is put back.
\<close>

definition join_head :: "pst \<Rightarrow> (string \<times> pst) option" where
  "join_head s =
     (if atKw ''join'' s then Some (''inner'', next_tok s)
      else if atKw ''inner'' s then
        (if atKw ''join'' (next_tok s) then Some (''inner'', next_tok (next_tok s)) else None)
      else if atKw ''left'' s then
        (case takeKw ''outer'' (next_tok s) of (_, s) \<Rightarrow>
           if atKw ''join'' s then Some (''left'', next_tok s) else None)
      else None)"

primrec joinLoop ::
  "nat \<Rightarrow> (pst \<Rightarrow> expr presult) \<Rightarrow> (pst \<Rightarrow> select presult) \<Rightarrow> pst \<Rightarrow> (tableref \<times> expr \<times> string) list presult" where
  "joinLoop 0 pe ps s = None"
| "joinLoop (Suc n) pe ps s =
     (case join_head s of
        None \<Rightarrow> ret [] s
      | Some (kind, s) \<Rightarrow>
          bindP (parseTableRef ps s) (\<lambda>ref s. bindP (expectKw ''on'' s) (\<lambda>_ s. bindP (pe s) (\<lambda>on s.
            bindP (joinLoop n pe ps s) (\<lambda>js s. ret ((ref, on, kind) # js) s)))))"

text \<open>An optional clause: its keyword decides whether it is there.\<close>

definition clause :: "string \<Rightarrow> (pst \<Rightarrow> 'a presult) \<Rightarrow> 'a \<Rightarrow> pst \<Rightarrow> 'a presult" where
  "clause kw p dflt s = (if atKw kw s then p (next_tok s) else ret dflt s)"

definition opt_expr :: "string \<Rightarrow> (pst \<Rightarrow> expr presult) \<Rightarrow> pst \<Rightarrow> expr option presult" where
  "opt_expr kw pe = clause kw (\<lambda>s. bindP (pe s) (\<lambda>e s. ret (Some e) s)) None"

definition parse_order :: "(pst \<Rightarrow> expr presult) \<Rightarrow> pst \<Rightarrow> orderterm presult" where
  "parse_order pe s = bindP (pe s) (\<lambda>e s.
     case takeKw ''desc'' s of (d, s) \<Rightarrow> if d then ret (OrderTerm e True) s
       else ret (OrderTerm e False) (snd (takeKw ''asc'' s)))"

definition parse_limit :: "pst \<Rightarrow> int64 option presult" where
  "parse_limit s =
     (let t = peek s in
      if tok_kind t \<noteq> tokNum \<or> CHR ''.'' \<in> set (tok_text t) then errf LimitNeedsInt s
      else if undec (tok_text t) > max_int64 then errf LimitNeedsInt s
      else ret (Some (undec (tok_text t))) (next_tok s))"

definition by_list :: "nat \<Rightarrow> (pst \<Rightarrow> 'a presult) \<Rightarrow> pst \<Rightarrow> 'a list presult" where
  "by_list n p s = bindP (expectKw ''by'' s) (\<lambda>_ s. sepBy n p s)"

definition parse_select_body ::
  "nat \<Rightarrow> (pst \<Rightarrow> expr presult) \<Rightarrow> (pst \<Rightarrow> select presult) \<Rightarrow> pst \<Rightarrow> select presult" where
  "parse_select_body n pe ps s =
     (let s = next_tok s; star = atPunct ''*'' s in
      bindP (if star then ret [] (next_tok s) else sepBy n (parse_field pe) s) (\<lambda>fs s.
      bindP (expectKw ''from'' s) (\<lambda>_ s.
      bindP (parseTableRef ps s) (\<lambda>ref s.
      bindP (joinLoop n pe ps s) (\<lambda>js s.
      bindP (opt_expr ''where'' pe s) (\<lambda>wh s.
      bindP (clause ''group'' (by_list n pe) [] s) (\<lambda>gr s.
      bindP (opt_expr ''having'' pe s) (\<lambda>hv s.
      bindP (clause ''order'' (by_list n (parse_order pe)) [] s) (\<lambda>ord s.
      bindP (clause ''limit'' parse_limit None s) (\<lambda>lim s.
        ret (Select (ref # map fst js) (map (fst \<circ> snd) js) (map (snd \<circ> snd) js) star
          (map fst fs) (map snd fs) wh gr hv ord lim) s))))))))))"

text \<open>
  The recursion through parentheses and subqueries. The number bounds its depth and every loop;
  \<open>None\<close> says that it was too small.
\<close>

fun parseExpr :: "nat \<Rightarrow> pst \<Rightarrow> expr presult"
and parseSelect :: "nat \<Rightarrow> pst \<Rightarrow> select presult" where
  "parseExpr 0 s = None"
| "parseExpr (Suc n) s = parseOr (Suc n) (parseExpr n) (parseSelect n) s"
| "parseSelect 0 s = None"
| "parseSelect (Suc n) s = parse_select_body (Suc n) (parseExpr n) (parseSelect n) s"

section \<open>Statements\<close>

definition parse_ref :: "columndef \<Rightarrow> pst \<Rightarrow> columndef presult" where
  "parse_ref cd s =
     bindP (identOrErr ''referenced table name'' s) (\<lambda>ref s.
       let cd = cd\<lparr>cd_RefTable := ref\<rparr> in
       if atPunct ''('' s then
         bindP (identOrErr ''referenced column name'' (next_tok s)) (\<lambda>c s.
           bindP (expectPunct '')'' s) (\<lambda>_ s. ret (cd\<lparr>cd_RefCol := c\<rparr>) s))
       else ret cd s)"

primrec col_options :: "nat \<Rightarrow> columndef \<Rightarrow> pst \<Rightarrow> columndef presult" where
  "col_options 0 cd s = None"
| "col_options (Suc n) cd s =
     (if atKw ''primary'' s then
        bindP (expectKw ''key'' (next_tok s)) (\<lambda>_ s. col_options n (cd\<lparr>cd_Primary := True\<rparr>) s)
      else if atKw ''not'' s then
        bindP (expectKw ''null'' (next_tok s)) (\<lambda>_ s. col_options n (cd\<lparr>cd_NotNull := True\<rparr>) s)
      else if atKw ''auto_increment'' s then col_options n (cd\<lparr>cd_AutoInc := True\<rparr>) (next_tok s)
      else if atKw ''unique'' s then col_options n (cd\<lparr>cd_Unique := True\<rparr>) (next_tok s)
      else if atKw ''references'' s then bindP (parse_ref cd (next_tok s)) (\<lambda>cd s. col_options n cd s)
      else ret cd s)"

definition parseColumnDef :: "nat \<Rightarrow> pst \<Rightarrow> columndef presult" where
  "parseColumnDef n s =
     bindP (identOrErr ''column name'' s) (\<lambda>name s.
     bindP (identOrErr ''column type'' s) (\<lambda>tn s.
       if \<not> ValidTypes tn then errf (UnknownColumnType tn) s
       else col_options n \<lparr>cd_Name = name, cd_Type = tn, cd_Primary = False, cd_NotNull = False, cd_AutoInc = False,
              cd_Unique = False, cd_RefTable = [], cd_RefCol = []\<rparr> s))"

definition parseCreate :: "nat \<Rightarrow> pst \<Rightarrow> stmt presult" where
  "parseCreate n s =
     bindP (expectKw ''table'' (next_tok s)) (\<lambda>_ s.
     bindP (identOrErr ''table name'' s) (\<lambda>name s.
     bindP (expectPunct ''('' s) (\<lambda>_ s.
     bindP (sepBy n (parseColumnDef n) s) (\<lambda>cols s.
     bindP (expectPunct '')'' s) (\<lambda>_ s. ret (CreateTable name cols) s)))))"

definition parseDrop :: "pst \<Rightarrow> stmt presult" where
  "parseDrop s =
     bindP (expectKw ''table'' (next_tok s)) (\<lambda>_ s.
     bindP (clause ''if'' (\<lambda>s. bindP (expectKw ''exists'' s) (\<lambda>_ s. ret True s)) False s) (\<lambda>ifx s.
     bindP (identOrErr ''table name'' s) (\<lambda>name s. ret (DropTable name ifx) s)))"

definition parse_tuple :: "nat \<Rightarrow> (pst \<Rightarrow> expr presult) \<Rightarrow> pst \<Rightarrow> expr list presult" where
  "parse_tuple n pe s =
     bindP (expectPunct ''('' s) (\<lambda>_ s.
     bindP (if \<not> atPunct '')'' s then sepBy n pe s else ret [] s) (\<lambda>row s.
     bindP (expectPunct '')'' s) (\<lambda>_ s. ret row s)))"

definition parseInsert :: "nat \<Rightarrow> (pst \<Rightarrow> expr presult) \<Rightarrow> pst \<Rightarrow> stmt presult" where
  "parseInsert n pe s =
     bindP (expectKw ''into'' (next_tok s)) (\<lambda>_ s.
     bindP (identOrErr ''table name'' s) (\<lambda>name s.
     bindP (if atPunct ''('' s then
              bindP (sepBy n (identOrErr ''column name'') (next_tok s)) (\<lambda>cs s.
                bindP (expectPunct '')'' s) (\<lambda>_ s. ret cs s))
            else ret [] s) (\<lambda>cols s.
     bindP (expectKw ''values'' s) (\<lambda>_ s.
     bindP (sepBy n (parse_tuple n pe) s) (\<lambda>rows s. ret (Insert name cols rows) s)))))"

definition parse_set :: "(pst \<Rightarrow> expr presult) \<Rightarrow> pst \<Rightarrow> (string \<times> expr) presult" where
  "parse_set pe s =
     bindP (identOrErr ''column name'' s) (\<lambda>c s.
     bindP (expectPunct ''='' s) (\<lambda>_ s. bindP (pe s) (\<lambda>e s. ret (c, e) s)))"

definition parseUpdate :: "nat \<Rightarrow> (pst \<Rightarrow> expr presult) \<Rightarrow> pst \<Rightarrow> stmt presult" where
  "parseUpdate n pe s =
     bindP (identOrErr ''table name'' (next_tok s)) (\<lambda>name s.
     bindP (expectKw ''set'' s) (\<lambda>_ s.
     bindP (sepBy n (parse_set pe) s) (\<lambda>sets s.
     bindP (opt_expr ''where'' pe s) (\<lambda>wh s. ret (Update name sets wh) s))))"

definition parseDelete :: "(pst \<Rightarrow> expr presult) \<Rightarrow> pst \<Rightarrow> stmt presult" where
  "parseDelete pe s =
     bindP (expectKw ''from'' (next_tok s)) (\<lambda>_ s.
     bindP (identOrErr ''table name'' s) (\<lambda>name s.
     bindP (opt_expr ''where'' pe s) (\<lambda>wh s. ret (Delete name wh) s)))"

definition parseStatement :: "nat \<Rightarrow> pst \<Rightarrow> stmt presult" where
  "parseStatement n s =
     (if atKw ''create'' s then parseCreate n s
      else if atKw ''drop'' s then parseDrop s
      else if atKw ''insert'' s then parseInsert n (parseExpr n) s
      else if atKw ''select'' s then bindP (parseSelect n s) (\<lambda>q s. ret (SelectStmt q) s)
      else if atKw ''update'' s then parseUpdate n (parseExpr n) s
      else if atKw ''delete'' s then parseDelete (parseExpr n) s
      else if atKw ''begin'' s then ret Begin (next_tok s)
      else if atKw ''start'' s then bindP (expectKw ''transaction'' (next_tok s)) (\<lambda>_ s. ret Begin s)
      else if atKw ''commit'' s then ret Commit (next_tok s)
      else if atKw ''rollback'' s then ret Rollback (next_tok s)
      else if tok_kind (peek s) = tokEOF then errf EmptyStatement s
      else errf (UnsupportedStatement (peek s)) s)"

definition parse_all :: "nat \<Rightarrow> pst \<Rightarrow> stmt presult" where
  "parse_all n s =
     bindP (parseStatement n s) (\<lambda>st s.
       let s = (if atPunct '';'' s then next_tok s else s) in
       if tok_kind (peek s) \<noteq> tokEOF then errf (TrailingInput (peek s)) s else ret st s)"

definition Parse :: "string \<Rightarrow> (parse_error, stmt) res option" where
  "Parse src = (case lex_src src 0 of
     Inl e \<Rightarrow> Some (Err e)
   | Inr toks \<Rightarrow> map_option (map_sum (\<lambda>e. e) fst) (parse_all (Suc (length toks)) (butlast toks, last toks)))"

end
