(* ===== verification/Parser_Total.thy ===== *)
theory Parser_Total
  imports Parser
begin

text \<open>
  The parser ends on every input. \<open>yields\<close> says of one call that it ended and how many tokens it left;
  the locale \<open>subparsers\<close> is the contract between the levels of the grammar and is interpreted on
  the parser itself.
\<close>

section \<open>The bound is enough\<close>

definition plen :: "pst \<Rightarrow> nat" where
  "plen s = length (fst s)"

definition eof_ok :: "pst \<Rightarrow> bool" where
  "eof_ok s \<longleftrightarrow> tok_kind (snd s) = tokEOF"

text \<open>
  \<open>yields k m\<close>: the parse ended, and if it succeeded fewer than \<open>k\<close> tokens are left.
\<close>

definition yields :: "nat \<Rightarrow> 'a presult \<Rightarrow> bool" where
  "yields k m \<longleftrightarrow> (\<exists>r. m = Some r \<and> (\<forall>a s. r = Ok (a, s) \<longrightarrow> eof_ok s \<and> plen s < k))"

lemma yields_ret [simp]: "yields k (ret a s) \<longleftrightarrow> eof_ok s \<and> plen s < k"
  unfolding yields_def ret_def by blast

lemma yields_errf [simp]: "yields k (errf m s)"
  by (simp add: yields_def errf_def)

lemma yields_mono: "yields j m \<Longrightarrow> j \<le> k \<Longrightarrow> yields k m"
  by (force simp: yields_def)

lemma yields_bind:
  assumes "yields j m" "\<And>a s. eof_ok s \<Longrightarrow> plen s < j \<Longrightarrow> yields k (f a s)"
  shows "yields k (bindP m f)"
  using assms by (auto simp: yields_def bindP_def split: option.split sum.split)

lemma eof_ok_next [simp]: "eof_ok (next_tok s) = eof_ok s"
  by (cases s) (simp add: eof_ok_def)

lemma plen_next: "plen (next_tok s) = plen s - 1"
  by (cases s) (simp add: plen_def)

lemma plen_next_le: "plen (next_tok s) \<le> plen s"
  by (simp add: plen_next)

lemma plen_pos: "eof_ok s \<Longrightarrow> tok_kind (peek s) \<noteq> tokEOF \<Longrightarrow> plen (next_tok s) < plen s"
  by (cases s) (auto simp: plen_def eof_ok_def split: list.splits)

lemma plen_at: "eof_ok s \<Longrightarrow> at_tok k x s \<Longrightarrow> k \<noteq> tokEOF \<Longrightarrow> plen (next_tok s) < plen s"
  by (simp add: at_tok_def plen_pos)

lemmas plen_kw = plen_at [of _ tokIdent, simplified] and plen_punct = plen_at [of _ tokPunct, simplified]

lemma yields_expectPunct: "eof_ok s \<Longrightarrow> yields (plen s) (expectPunct x s)"
  by (simp add: expectPunct_def plen_punct)

lemma yields_expectKw: "eof_ok s \<Longrightarrow> yields (plen s) (expectKw x s)"
  by (simp add: expectKw_def plen_kw)

lemma yields_ident: "eof_ok s \<Longrightarrow> yields (plen s) (identOrErr w s)"
  by (simp add: identOrErr_def plen_pos)

lemma takeKw_plen: "takeKw x s = (b, s') \<Longrightarrow> eof_ok s \<Longrightarrow> eof_ok s' \<and> plen s' \<le> plen s"
  using plen_next_le [of s] by (auto simp: takeKw_def split: if_splits)

text \<open>A parser that ends on every state with fewer than \<open>n\<close> tokens, reading at least one token.\<close>

definition eats :: "nat \<Rightarrow> (pst \<Rightarrow> 'a presult) \<Rightarrow> bool" where
  "eats n p \<longleftrightarrow> (\<forall>s. eof_ok s \<longrightarrow> plen s < n \<longrightarrow> yields (plen s) (p s))"

lemma eatsI: "(\<And>s. eof_ok s \<Longrightarrow> plen s < n \<Longrightarrow> yields (plen s) (p s)) \<Longrightarrow> eats n p"
  by (simp add: eats_def)

lemma eatsD: "eats n p \<Longrightarrow> eof_ok s \<Longrightarrow> plen s < n \<Longrightarrow> plen s \<le> k \<Longrightarrow> yields k (p s)"
  unfolding eats_def by (blast intro: yields_mono)

lemma eats_ident: "eats n (identOrErr w)"
  by (rule eatsI) (rule yields_ident)

lemma yields_sepBy:
  assumes "eats n p" "eof_ok s" "plen s < n" "plen s < m"
  shows "yields (plen s) (sepBy m p s)"
  using assms(2-)
proof (induction m arbitrary: s)
  case (Suc m)
  show ?case unfolding sepBy.simps
  proof (rule yields_bind [OF eatsD [OF assms(1) Suc.prems(1,2) order_refl]])
    fix a s' assume s': "eof_ok s'" "plen s' < plen s"
    show "yields (plen s) (if atPunct '','' s' then bindP (sepBy m p (next_tok s')) (\<lambda>xs s. ret (a # xs) s) else ret [a] s')"
    proof (cases "atPunct '','' s'")
      case True
      have "plen (next_tok s') < plen s'" using s'(1) True by (rule plen_punct)
      with s' Suc.prems have "yields (plen (next_tok s')) (sepBy m p (next_tok s'))" by (intro Suc.IH) simp_all
      then have "yields (plen s) (bindP (sepBy m p (next_tok s')) (\<lambda>xs s. ret (a # xs) s))"
        by (rule yields_bind) (use s' \<open>plen (next_tok s') < plen s'\<close> in simp)
      with True show ?thesis by simp
    qed (use s' in simp)
  qed
qed simp

lemma yields_left_loop:
  assumes p: "eats n p" and op: "\<And>t. op t \<Longrightarrow> tok_kind t \<noteq> tokEOF"
    and s: "eof_ok s" "plen s \<le> n" "plen s < m"
  shows "yields (Suc (plen s)) (left_loop m op mk p l s)"
  using s
proof (induction m arbitrary: s l)
  case (Suc m)
  show ?case
  proof (cases "op (peek s)")
    case True
    have lt: "plen (next_tok s) < plen s" using plen_pos [OF Suc.prems(1) op [OF True]] .
    have "yields (plen (next_tok s)) (p (next_tok s))" using Suc.prems lt by (intro eatsD [OF p]) simp_all
    then have "yields (Suc (plen s)) (bindP (p (next_tok s)) (\<lambda>r s'. left_loop m op mk p (mk (tok_text (peek s)) l r) s'))"
    proof (rule yields_bind)
      fix a s' assume s': "eof_ok s'" "plen s' < plen (next_tok s)"
      show "yields (Suc (plen s)) (left_loop m op mk p (mk (tok_text (peek s)) l a) s')"
        by (rule yields_mono [OF Suc.IH]) (use s' lt Suc.prems in simp_all)
    qed
    with True show ?thesis by simp
  qed (use Suc.prems in simp)
qed simp

lemma eats_left:
  assumes "eats (Suc n) p" "\<And>t. op t \<Longrightarrow> tok_kind t \<noteq> tokEOF"
  shows "eats (Suc n) (\<lambda>s. bindP (p s) (left_loop (Suc n) op mk p))"
proof (rule eatsI)
  fix s assume s: "eof_ok s" "plen s < Suc n"
  show "yields (plen s) (bindP (p s) (left_loop (Suc n) op mk p))"
  proof (rule yields_bind [OF eatsD [OF assms(1) s order_refl]])
    fix a s' assume s': "eof_ok s'" "plen s' < plen s"
    show "yields (plen s) (left_loop (Suc n) op mk p a s')"
      by (rule yields_mono [OF yields_left_loop [OF assms(1)]]) (use s s' assms(2) in simp_all)
  qed
qed

text \<open>
  What every level of the grammar relies on: the parsers it calls back into end on all shorter inputs.
\<close>

locale subparsers =
  fixes n :: nat and pe :: "pst \<Rightarrow> expr presult" and ps :: "pst \<Rightarrow> select presult"
  assumes pe: "eats n pe"
    and ps: "\<And>s. eof_ok s \<Longrightarrow> plen s < n \<Longrightarrow> atKw ''select'' s \<Longrightarrow> yields (plen s) (ps s)"
begin

lemma yields_parse_num: "eof_ok s \<Longrightarrow> plen s < k \<Longrightarrow> yields k (parse_num t s)"
  by (auto simp: parse_num_def split: option.split)

lemma yields_paren:
  assumes "yields j m" "j \<le> k" "\<And>a s. eof_ok s \<Longrightarrow> plen s < k \<Longrightarrow> yields k (f a s)"
  shows "yields k (bindP m (\<lambda>a s. bindP (expectPunct x s) (\<lambda>_ s. f a s)))"
proof (rule yields_bind [OF assms(1)])
  fix a s' assume s': "eof_ok s'" "plen s' < j"
  show "yields k (bindP (expectPunct x s') (\<lambda>_ s. f a s))"
    by (rule yields_bind [OF yields_expectPunct [OF s'(1)]]) (use s' assms(2,3) in simp)
qed

lemma yields_close: "eof_ok s \<Longrightarrow> plen s \<le> k \<Longrightarrow> yields k (bindP (expectPunct x s) (\<lambda>_ s. ret a s))"
  by (rule yields_bind [OF yields_expectPunct]) simp_all

lemma yields_parse_name:
  assumes "eof_ok s" "plen s < n"
  shows "yields (Suc (plen s)) (parse_name pe name s)"
proof (cases "atPunct ''.'' s")
  case True
  have "yields (Suc (plen s)) (bindP (identOrErr ''column name'' (next_tok s)) (\<lambda>cn s. ret (ColRef name cn) s))"
    by (rule yields_bind [OF yields_ident]) (use assms plen_next_le [of s] in auto)
  with True show ?thesis by (simp add: parse_name_def)
next
  case False
  note no_dot = False
  show ?thesis
  proof (cases "atPunct ''('' s")
    case True
    let ?s = "next_tok s"
    have lt: "plen ?s < plen s" by (rule plen_punct [OF assms(1) True])
    have "yields (Suc (plen s)) (bindP (expectPunct '')'' (next_tok ?s)) (\<lambda>_ s. ret (Func name True None) s))"
      by (rule yields_close) (use assms plen_next_le [of s] plen_next_le [of ?s] in auto)
    moreover have "yields (Suc (plen s)) (bindP (pe ?s) (\<lambda>arg s. bindP (expectPunct '')'' s) (\<lambda>_ s. ret (Func name False (Some arg)) s)))"
      by (rule yields_paren [OF eatsD [OF pe _ _ order_refl]]) (use assms lt in auto)
    moreover have "yields (Suc (plen s)) (bindP (expectPunct '')'' ?s) (\<lambda>_ s. ret (Func name False None) s))"
      by (rule yields_close) (use assms lt in auto)
    ultimately show ?thesis using no_dot True by (simp add: parse_name_def Let_def)
  qed (use no_dot assms in \<open>simp add: parse_name_def\<close>)
qed

lemma eats_parsePrimary: "eats (Suc n) (parsePrimary pe)"
proof (rule eatsI)
  fix s assume s: "eof_ok s" "plen s < Suc n"
  have lt: "plen (next_tok s) < plen s" if "tok_kind (peek s) \<noteq> tokEOF" using plen_pos [OF s(1) that] .
  have nm: "yields (plen s) (parse_name pe x (next_tok s))" if "tok_kind (peek s) \<noteq> tokEOF" for x
    by (rule yields_mono [OF yields_parse_name]) (use s lt [OF that] in auto)
  have par: "yields (plen s) (bindP (pe (next_tok s)) (\<lambda>e s. bindP (expectPunct '')'' s) (\<lambda>_ s. ret e s)))"
    if "tok_kind (peek s) \<noteq> tokEOF"
    by (rule yields_paren [OF eatsD [OF pe _ _ order_refl]]) (use s lt [OF that] in auto)
  show "yields (plen s) (parsePrimary pe s)"
    using s(1) lt nm par yields_parse_num by (cases "tok_kind (peek s)") (auto simp: parsePrimary_def Let_def)
qed

lemma eats_parseUnary: "eats (Suc n) (parseUnary (Suc m) pe)" if "n \<le> m"
proof (rule eatsI)
  fix s assume s: "eof_ok s" "plen s < Suc n"
  have "eof_ok s \<Longrightarrow> plen s < Suc n \<Longrightarrow> plen s < m \<Longrightarrow> yields (plen s) (parseUnary m pe s)" for m s
  proof (induction m arbitrary: s)
    case (Suc m)
    show ?case
    proof (cases "atPunct ''-'' s")
      case True
      have lt: "plen (next_tok s) < plen s" by (rule plen_punct [OF Suc.prems(1) True])
      have "yields (plen (next_tok s)) (parseUnary m pe (next_tok s))" using Suc.prems lt by (intro Suc.IH) auto
      then have "yields (plen s) (bindP (parseUnary m pe (next_tok s)) (\<lambda>x s. ret (Binary ''-'' (Lit (VInt 0)) x) s))"
        by (rule yields_bind) (use lt in simp)
      with True show ?thesis by simp
    next
      case False
      then show ?thesis using eatsD [OF eats_parsePrimary Suc.prems(1,2) order_refl] by simp
    qed
  qed simp
  from this [OF s] that s(2) show "yields (plen s) (parseUnary (Suc m) pe s)" by (simp only:)
qed

lemma eats_parseAdd: "eats (Suc n) (parseAdd (Suc n) pe)"
proof -
  have "eats (Suc n) (parseMul (Suc n) pe)"
    unfolding parseMul_def by (rule eats_left [OF eats_parseUnary]) (auto simp: punct_in_def)
  then show ?thesis unfolding parseAdd_def by (rule eats_left) (auto simp: punct_in_def)
qed

lemma yields_parse_in:
  assumes "eof_ok s" "plen s < k" "plen s \<le> n"
  shows "yields k (parse_in (Suc n) pe ps l b s)"
  unfolding parse_in_def
proof (rule yields_bind [OF yields_expectPunct [OF assms(1)]])
  fix a s' assume s': "eof_ok s'" "plen s' < plen s"
  have "yields k (bindP (ps s') (\<lambda>sub s. bindP (expectPunct '')'' s) (\<lambda>_ s. ret (InSub l sub b) s)))" if "atKw ''select'' s'"
    by (rule yields_paren [OF ps]) (use s' assms that in auto)
  moreover have "yields (plen s') (sepBy (Suc n) pe s')" by (rule yields_sepBy [OF pe]) (use s' assms in auto)
  then have "yields k (bindP (sepBy (Suc n) pe s') (\<lambda>xs s. bindP (expectPunct '')'' s) (\<lambda>_ s. ret (InList l xs b) s)))"
    by (rule yields_paren) (use s' assms in auto)
  ultimately show "yields k (if atKw ''select'' s' then bindP (ps s') (\<lambda>sub s. bindP (expectPunct '')'' s) (\<lambda>_ s. ret (InSub l sub b) s))
      else bindP (sepBy (Suc n) pe s') (\<lambda>xs s. bindP (expectPunct '')'' s) (\<lambda>_ s. ret (InList l xs b) s)))"
    by simp
qed

lemma eats_parseCmp: "eats (Suc n) (parseCmp (Suc n) pe ps)"
proof (rule eatsI)
  fix s assume s: "eof_ok s" "plen s < Suc n"
  show "yields (plen s) (parseCmp (Suc n) pe ps s)"
    unfolding parseCmp_def
  proof (rule yields_bind [OF eatsD [OF eats_parseAdd s order_refl]], goal_cases)
    case (1 l s')
    note s' = 1
    let ?s = "next_tok s'"
    have le: "plen ?s \<le> plen s'" "plen (next_tok ?s) \<le> plen ?s" by (rule plen_next_le)+
    have cmp: "yields (plen s) (bindP (parseAdd (Suc n) pe ?s) (\<lambda>r s''. ret (Cmp (tok_text (peek s')) l r) s''))"
      by (rule yields_bind [OF eatsD [OF eats_parseAdd]]) (use s s' le in auto)
    have isn: "yields (plen s) (bindP (expectKw ''null'' t) (\<lambda>_ s. ret (IsNullE l nt) s))" if "takeKw ''not'' ?s = (nt, t)" for nt t
      by (rule yields_bind [OF yields_expectKw]) (use s' le takeKw_plen [OF that] in auto)
    have inn: "yields (plen s) (parse_in (Suc n) pe ps l b t)" if "eof_ok t" "plen t \<le> plen s'" for b t
      by (rule yields_parse_in) (use s s' that in auto)
    show ?case using cmp isn inn s' le by (auto split: prod.split)
  qed
qed

lemma eats_parseNot: "eats (Suc n) (parseNot (Suc n) (Suc n) pe ps)"
proof (rule eatsI)
  fix s assume s: "eof_ok s" "plen s < Suc n"
  have "eof_ok s \<Longrightarrow> plen s < Suc n \<Longrightarrow> plen s < m \<Longrightarrow> yields (plen s) (parseNot m (Suc n) pe ps s)" for m s
  proof (induction m arbitrary: s)
    case (Suc m)
    show ?case
    proof (cases "atKw ''not'' s")
      case True
      have lt: "plen (next_tok s) < plen s" by (rule plen_kw [OF Suc.prems(1) True])
      have "yields (plen (next_tok s)) (parseNot m (Suc n) pe ps (next_tok s))" using Suc.prems lt by (intro Suc.IH) auto
      then have "yields (plen s) (bindP (parseNot m (Suc n) pe ps (next_tok s)) (\<lambda>x s. ret (NotE x) s))"
        by (rule yields_bind) (use lt in simp)
      with True show ?thesis by simp
    next
      case False
      then show ?thesis using eatsD [OF eats_parseCmp Suc.prems(1,2) order_refl] by simp
    qed
  qed simp
  from this [OF s] s(2) show "yields (plen s) (parseNot (Suc n) (Suc n) pe ps s)" by (simp only:)
qed

lemma eats_parseOr: "eats (Suc n) (parseOr (Suc n) pe ps)"
proof -
  have "eats (Suc n) (parseAnd (Suc n) pe ps)"
    unfolding parseAnd_def by (rule eats_left [OF eats_parseNot]) (auto simp: kw_is_def)
  then show ?thesis unfolding parseOr_def by (rule eats_left) (auto simp: kw_is_def)
qed

lemma yields_alias: "eof_ok s \<Longrightarrow> plen s < k \<Longrightarrow> yields k (parse_alias w d s)"
  using plen_next_le [of s]
  by (auto simp: parse_alias_def takeKw_def intro: yields_mono [OF yields_ident])

lemma eats_parseTableRef: "eats (Suc n) (parseTableRef ps)"
proof (rule eatsI)
  fix s assume s: "eof_ok s" "plen s < Suc n"
  have tab: "yields (plen s) (bindP (identOrErr ''table name'' s) (\<lambda>name s.
      bindP (parse_alias ''alias'' name s) (\<lambda>al s. ret (TableRef name al None) s)))"
  proof (rule yields_bind [OF yields_ident [OF s(1)]], goal_cases)
    case (1 a s')
    show ?case by (rule yields_bind [OF yields_alias [OF 1]]) simp
  qed
  have sub: "yields (plen s) (bindP (ps t) (\<lambda>sub s. bindP (expectPunct '')'' s) (\<lambda>_ s.
      bindP (parse_alias ''derived table alias'' [] s) (\<lambda>al s.
        if al = [] then errf AliasRequired s else ret (TableRef [] al (Some sub)) s))))"
    if "t = next_tok s" "plen t < plen s" "atKw ''select'' t" for t
  proof (rule yields_paren [OF ps [OF _ _ that(3)]], goal_cases)
    case (4 a s')
    show ?case by (rule yields_bind [OF yields_alias [OF 4]]) simp
  qed (use s that in auto)
  show "yields (plen s) (parseTableRef ps s)"
    using tab sub plen_punct [OF s(1)] by (simp add: parseTableRef_def Let_def)
qed

lemma eats_parse_field: "eats n (parse_field pe)"
proof (rule eatsI)
  fix s assume s: "eof_ok s" "plen s < n"
  show "yields (plen s) (parse_field pe s)" unfolding parse_field_def
  proof (rule yields_bind [OF eatsD [OF pe s order_refl]], goal_cases)
    case (1 e s')
    have "yields (plen s) (parseOptionalAlias s')"
      using 1 plen_next_le [of s'] by (auto simp: parseOptionalAlias_def intro: yields_mono [OF yields_ident])
    then show ?case by (rule yields_bind) simp
  qed
qed

lemma eats_parse_order: "eats n (parse_order pe)"
proof (rule eatsI)
  fix s assume s: "eof_ok s" "plen s < n"
  show "yields (plen s) (parse_order pe s)" unfolding parse_order_def
  proof (rule yields_bind [OF eatsD [OF pe s order_refl]], goal_cases)
    case (1 e s')
    then show ?case using plen_next_le [of s'] by (auto simp: takeKw_def split: prod.split)
  qed
qed

lemma join_head_plen:
  assumes "join_head s = Some (k, t)" "eof_ok s"
  shows "eof_ok t \<and> plen t < plen s"
  using assms plen_kw [OF assms(2)] plen_next_le [of s] plen_next_le [of "next_tok s"] plen_next_le [of "next_tok (next_tok s)"]
  by (auto simp: join_head_def takeKw_def split: if_splits prod.splits) (meson order_le_less_trans order_trans)+

lemma yields_joinLoop:
  "eof_ok s \<Longrightarrow> plen s \<le> n \<Longrightarrow> plen s < m \<Longrightarrow> plen s < k \<Longrightarrow> yields k (joinLoop m pe ps s)"
proof (induction m arbitrary: s)
  case (Suc m)
  show ?case
  proof (cases "join_head s")
    case None
    with Suc.prems show ?thesis by simp
  next
    case (Some p)
    obtain kind t where p: "p = (kind, t)" by (cases p) (rule that)
    have t: "eof_ok t" "plen t < plen s" using join_head_plen Some p Suc.prems(1) by blast+
    have "yields k (bindP (parseTableRef ps t) (\<lambda>ref s. bindP (expectKw ''on'' s) (\<lambda>_ s. bindP (pe s) (\<lambda>on s.
        bindP (joinLoop m pe ps s) (\<lambda>js s. ret ((ref, on, kind) # js) s)))))"
    proof (rule yields_bind [OF eatsD [OF eats_parseTableRef t(1) _ order_refl]], goal_cases)
      case (2 a s1)
      show ?case
      proof (rule yields_bind [OF yields_expectKw [OF 2(1)]], goal_cases)
        case (1 _ s2)
        show ?case
        proof (rule yields_bind [OF eatsD [OF pe 1(1) _ order_refl]], goal_cases)
          case (2 b s3)
          have "yields k (joinLoop m pe ps s3)"
            using 1 2 \<open>plen s1 < plen t\<close> t Suc.prems by (intro Suc.IH) auto
          then show ?case by (rule yields_bind) simp
        qed (use 1 \<open>plen s1 < plen t\<close> t Suc.prems in auto)
      qed
    qed (use t Suc.prems in auto)
    with Some p show ?thesis by simp
  qed
qed simp

lemma yields_opt:
  assumes "eats n p" "eof_ok s" "plen s \<le> n" "plen s < k"
  shows "yields k (clause kw (\<lambda>s. bindP (p s) (\<lambda>e s. ret (Some e) s)) None s)"
proof (cases "atKw kw s")
  case True
  have lt: "plen (next_tok s) < plen s" by (rule plen_kw [OF assms(2) True])
  have "yields k (bindP (p (next_tok s)) (\<lambda>e s. ret (Some e) s))"
    by (rule yields_bind [OF eatsD [OF assms(1) _ _ order_refl]]) (use lt assms in auto)
  with True show ?thesis by (simp add: clause_def)
qed (use assms in \<open>simp add: clause_def\<close>)

lemma yields_by:
  assumes "eats n p" "eof_ok s" "plen s \<le> n" "plen s < k"
  shows "yields k (clause kw (by_list (Suc n) p) [] s)"
proof (cases "atKw kw s")
  case True
  have lt: "plen (next_tok s) < plen s" by (rule plen_kw [OF assms(2) True])
  have "yields k (by_list (Suc n) p (next_tok s))" unfolding by_list_def
  proof (rule yields_bind [OF yields_expectKw], goal_cases)
    case (2 _ s')
    show ?case by (rule yields_mono [OF yields_sepBy [OF assms(1)]]) (use 2 lt assms in auto)
  qed (use assms in simp)
  with True show ?thesis by (simp add: clause_def)
qed (use assms in \<open>simp add: clause_def\<close>)

lemma yields_limit: "eof_ok s \<Longrightarrow> plen s < k \<Longrightarrow> yields k (clause ''limit'' parse_limit None s)"
  using plen_next_le [of s] plen_next_le [of "next_tok s"] by (auto simp: clause_def parse_limit_def Let_def)

lemma yields_parse_select_body:
  assumes "atKw ''select'' s" "eof_ok s" "plen s < Suc n"
  shows "yields (plen s) (parse_select_body (Suc n) pe ps s)"
proof -
  let ?s = "next_tok s" and ?k = "plen s"
  have lt: "plen ?s < plen s" by (rule plen_kw [OF assms(2,1)])
  have "yields ?k (sepBy (Suc n) (parse_field pe) ?s)"
    by (rule yields_mono [OF yields_sepBy [OF eats_parse_field]]) (use lt assms in auto)
  then have fs: "yields ?k (if atPunct ''*'' ?s then ret [] (next_tok ?s) else sepBy (Suc n) (parse_field pe) ?s)"
    using lt plen_next_le [of ?s] assms(2) by (simp del: sepBy.simps)
  have le: "t \<le> n" if "t < ?k" for t using that assms(3) by simp
  show ?thesis
    unfolding parse_select_body_def Let_def opt_expr_def
    apply (rule yields_bind [OF fs])
    apply (rule yields_bind [OF yields_mono [OF yields_expectKw]], assumption, erule less_imp_le)
    apply (rule yields_bind [OF yields_mono [OF eatsD [OF eats_parseTableRef _ _ order_refl]]], assumption, use assms(3) in simp, erule less_imp_le)
    apply (rule yields_bind [OF yields_joinLoop], assumption, erule le, use assms(3) in simp, assumption)
    apply (rule yields_bind [OF yields_opt [OF pe]], assumption, erule le, assumption)
    apply (rule yields_bind [OF yields_by [OF pe]], assumption, erule le, assumption)
    apply (rule yields_bind [OF yields_opt [OF pe]], assumption, erule le, assumption)
    apply (rule yields_bind [OF yields_by [OF eats_parse_order]], assumption, erule le, assumption)
    apply (rule yields_bind [OF yields_limit], assumption, assumption)
    apply simp
    done
qed

end

lemma parsers_end: "subparsers n (parseExpr n) (parseSelect n)"
proof (induction n)
  case 0
  show ?case by unfold_locales (auto simp: eats_def)
next
  case (Suc n)
  show ?case
    using subparsers.eats_parseOr [OF Suc] subparsers.yields_parse_select_body [OF Suc]
    by unfold_locales (simp_all add: eats_def)
qed

interpretation sp: subparsers n "parseExpr n" "parseSelect n" for n
  by (rule parsers_end)

lemma yields_parse_ref: "eof_ok s \<Longrightarrow> yields (plen s) (parse_ref cd s)"
  unfolding parse_ref_def
proof (rule yields_bind [OF yields_ident], assumption, goal_cases)
  case (1 a s')
  show ?case
  proof (cases "atPunct ''('' s'")
    case True
    have "yields (plen s) (bindP (identOrErr ''referenced column name'' (next_tok s')) (\<lambda>c t.
        bindP (expectPunct '')'' t) (\<lambda>_ u. ret (cd\<lparr>cd_RefTable := a, cd_RefCol := c\<rparr>) u)))"
      by (rule sp.yields_paren [OF yields_ident]) (use 1 plen_next_le [of s'] in auto)
    with True show ?thesis by (simp add: Let_def)
  qed (use 1 in \<open>simp add: Let_def\<close>)
qed

lemma yields_col_options: "eof_ok s \<Longrightarrow> plen s < n \<Longrightarrow> plen s < k \<Longrightarrow> yields k (col_options n cd s)"
proof (induction n arbitrary: cd s)
  case (Suc n)
  let ?s = "next_tok s"
  have lt: "plen ?s < plen s" if "atKw x s" for x using Suc.prems(1) that by (rule plen_kw)
  have kw: "yields k (bindP (expectKw y ?s) (\<lambda>_ s. col_options n cd' s))" if "atKw x s" for x y cd'
    by (rule yields_bind [OF yields_expectKw]) (use Suc lt [OF that] in auto)
  have rf: "yields k (bindP (parse_ref cd ?s) (\<lambda>cd s. col_options n cd s))" if "atKw x s" for x
    by (rule yields_bind [OF yields_parse_ref]) (use Suc lt [OF that] in auto)
  have op: "yields k (col_options n cd' ?s)" if "atKw x s" for x cd'
    using Suc lt [OF that] by auto
  show ?case using kw rf op Suc.prems by (simp del: split_paired_All)
qed simp

lemma eats_parseColumnDef: "eats n (parseColumnDef n)"
proof (rule eatsI)
  fix s assume s: "eof_ok s" "plen s < n"
  show "yields (plen s) (parseColumnDef n s)" unfolding parseColumnDef_def
  proof (rule yields_bind [OF yields_ident [OF s(1)]], goal_cases)
    case (1 a s1)
    show ?case
    proof (rule yields_bind [OF yields_ident [OF 1(1)]], goal_cases)
      case (1 b s2)
      with \<open>plen s1 < plen s\<close> s show ?case by (auto intro: yields_col_options)
    qed
  qed
qed

lemma eats_parse_tuple: "eats n (parse_tuple n (parseExpr n))"
proof (rule eatsI)
  fix s assume s: "eof_ok s" "plen s < n"
  show "yields (plen s) (parse_tuple n (parseExpr n) s)" unfolding parse_tuple_def
  proof (rule yields_bind [OF yields_expectPunct [OF s(1)]], goal_cases)
    case (1 a t)
    have "yields (plen s) (sepBy n (parseExpr n) t)"
      by (rule yields_mono [OF yields_sepBy [OF sp.pe]]) (use 1 s in auto)
    then have "yields (plen s) (if \<not> atPunct '')'' t then sepBy n (parseExpr n) t else ret [] t)" using 1 by simp
    then show ?case by (rule sp.yields_paren) simp_all
  qed
qed

lemma eats_parse_set: "eats n (parse_set (parseExpr n))"
proof (rule eatsI)
  fix s assume s: "eof_ok s" "plen s < n"
  show "yields (plen s) (parse_set (parseExpr n) s)" unfolding parse_set_def
  proof (rule sp.yields_paren [OF yields_ident [OF s(1)]], goal_cases)
    case (2 a t)
    show ?case by (rule yields_bind [OF eatsD [OF sp.pe 2(1) _ order_refl]]) (use 2 s in auto)
  qed simp
qed

lemma yields_where: "eof_ok s \<Longrightarrow> plen s < n \<Longrightarrow> plen s < k \<Longrightarrow> yields k (opt_expr ''where'' (parseExpr n) s)"
  unfolding opt_expr_def by (rule sp.yields_opt [OF sp.pe]) simp_all

lemma yields_parseInsert:
  assumes "eof_ok s" "plen s < n"
  shows "yields (Suc (plen s)) (parseInsert n (parseExpr n) s)"
  unfolding parseInsert_def
proof (rule yields_bind [OF yields_expectKw], goal_cases)
  case (2 a t)
  have t: "eof_ok t" "plen t < plen s" using 2 plen_next_le [of s] by auto
  show ?case
  proof (rule yields_bind [OF yields_ident [OF t(1)]], goal_cases)
    case (1 name u)
    have "yields (plen (next_tok u)) (sepBy n (identOrErr ''column name'') (next_tok u))"
      by (rule yields_sepBy [OF eats_ident]) (use 1 t assms plen_next_le [of u] in auto)
    then have "yields (plen s) (bindP (sepBy n (identOrErr ''column name'') (next_tok u)) (\<lambda>cs s.
        bindP (expectPunct '')'' s) (\<lambda>_ s. ret cs s)))"
      by (rule sp.yields_paren) (use 1 t plen_next_le [of u] in auto)
    then have "yields (plen s) (if atPunct ''('' u then bindP (sepBy n (identOrErr ''column name'') (next_tok u)) (\<lambda>cs s.
        bindP (expectPunct '')'' s) (\<lambda>_ s. ret cs s)) else ret [] u)" using 1 t by simp
    then show ?case
    proof (rule yields_bind, goal_cases)
      case (1 cols v)
      show ?case
      proof (rule yields_bind [OF yields_expectKw [OF 1(1)]], goal_cases)
        case (1 b w)
        show ?case by (rule yields_bind [OF yields_sepBy [OF eats_parse_tuple 1(1)]]) (use 1 \<open>plen v < plen s\<close> assms in auto)
      qed
    qed
  qed
qed (use assms in simp)

lemma yields_parseUpdate:
  assumes "eof_ok s" "plen s < n"
  shows "yields (Suc (plen s)) (parseUpdate n (parseExpr n) s)"
  unfolding parseUpdate_def
proof (rule yields_bind [OF yields_ident], goal_cases)
  case (2 name t)
  show ?case
  proof (rule yields_bind [OF yields_expectKw [OF 2(1)]], goal_cases)
    case (1 a u)
    have u: "plen u < plen s" using 1 2 plen_next_le [of s] by auto
    show ?case
    proof (rule yields_bind [OF yields_sepBy [OF eats_parse_set 1(1)]], goal_cases)
      case (3 sets v)
      show ?case by (rule yields_bind [OF yields_where [OF 3(1)]]) (use 3 u assms in auto)
    qed (use u assms in auto)
  qed
qed (use assms in simp)

lemma yields_parseDelete:
  assumes "eof_ok s" "plen s < n"
  shows "yields (Suc (plen s)) (parseDelete (parseExpr n) s)"
  unfolding parseDelete_def
proof (rule yields_bind [OF yields_expectKw], goal_cases)
  case (2 a t)
  show ?case
  proof (rule yields_bind [OF yields_ident [OF 2(1)]], goal_cases)
    case (1 name u)
    show ?case by (rule yields_bind [OF yields_where [OF 1(1)]]) (use 1 2 assms plen_next_le [of s] in auto)
  qed
qed (use assms in simp)

lemma yields_parseDrop: "eof_ok s \<Longrightarrow> yields (Suc (plen s)) (parseDrop s)"
  unfolding parseDrop_def
proof (rule yields_bind [OF yields_expectKw], goal_cases)
  case (2 a t)
  have "yields (plen t) (bindP (expectKw ''exists'' (next_tok t)) (\<lambda>_ s. ret True s))" if "atKw ''if'' t"
    by (rule yields_bind [OF yields_expectKw]) (use 2 plen_kw [OF 2(2) that] in auto)
  then have "yields (Suc (plen t)) (clause ''if'' (\<lambda>s. bindP (expectKw ''exists'' s) (\<lambda>_ s. ret True s)) False t)"
    using 2 by (auto simp: clause_def intro: yields_mono)
  then show ?case
  proof (rule yields_bind, goal_cases)
    case (1 b u)
    show ?case by (rule yields_bind [OF yields_ident [OF 1(1)]]) (use 1 2 plen_next_le [of s] in auto)
  qed
qed simp

lemma yields_parseCreate:
  assumes "eof_ok s" "plen s < n"
  shows "yields (Suc (plen s)) (parseCreate n s)"
  unfolding parseCreate_def
proof (rule yields_bind [OF yields_expectKw], goal_cases)
  case (2 a t)
  show ?case
  proof (rule yields_bind [OF yields_ident [OF 2(1)]], goal_cases)
    case (1 name u)
    show ?case
    proof (rule yields_bind [OF yields_expectPunct [OF 1(1)]], goal_cases)
      case (1 b v)
      have v: "plen v < plen s" using 1 2 \<open>plen u < plen t\<close> plen_next_le [of s] by auto
      show ?case by (rule sp.yields_paren [OF yields_sepBy [OF eats_parseColumnDef 1(1)]]) (use v assms in auto)
    qed
  qed
qed (use assms in simp)

lemma yields_parseStatement:
  assumes "eof_ok s" "plen s < n"
  shows "yields (Suc (plen s)) (parseStatement n s)"
proof -
  have "yields (Suc (plen s)) (bindP (parseSelect n s) (\<lambda>q s. ret (SelectStmt q) s))" if "atKw ''select'' s"
    by (rule yields_bind [OF sp.ps [OF assms that]]) simp
  moreover have "yields (Suc (plen s)) (bindP (expectKw ''transaction'' (next_tok s)) (\<lambda>_ s. ret Begin s))"
    by (rule yields_bind [OF yields_expectKw]) (use assms plen_next_le [of s] in auto)
  ultimately show ?thesis
    using yields_parseCreate [OF assms] yields_parseDrop [OF assms(1)] yields_parseInsert [OF assms] yields_parseUpdate [OF assms]
      yields_parseDelete [OF assms] plen_next_le [of s] assms(1)
    by (simp add: parseStatement_def)
qed

text \<open>
  C20: The parser returns on every input. Recursion and loops are bounded by the number of tokens, and the
  bound is never reached: every text is parsed to a statement or rejected with a syntax error.
\<close>

theorem parse_total: "\<exists>r. Parse src = Some r"
proof (cases "lex_src src 0")
  case (Inl e)
  then show ?thesis by (simp add: Parse_def)
next
  case (Inr toks)
  obtain us z where toks: "toks = us @ [z]" "tok_kind z = tokEOF" using lex_shape [OF Inr] by auto
  let ?s = "(us, z)"
  have s: "eof_ok ?s" "plen ?s < Suc (length toks)" by (simp_all add: toks eof_ok_def plen_def)
  have "yields (Suc (plen ?s)) (parse_all (Suc (length toks)) ?s)"
    unfolding parse_all_def
    by (rule yields_bind [OF yields_parseStatement [OF s]]) (auto simp: Let_def plen_def)
  then show ?thesis using Inr toks(1) by (auto simp: Parse_def yields_def)
qed

end
