(* ===== verification/Parser_Roundtrip.thy ===== *)
theory Parser_Roundtrip
  imports Parser_Total
begin

text \<open>
  A printer for statements and the proof that \<open>Parse\<close> inverts it. The printer is not part of the program: it fixes one text for
  every syntax tree (fully parenthesised, every table with its alias), and the parser must read that text back as the tree.
  \<open>reads p f k F x\<close> says that \<open>p\<close> reads the tokens \<open>f x\<close> as \<open>x\<close> when a token in \<open>F\<close> follows and at most \<open>k\<close> tokens are left.
\<close>

section \<open>A printer\<close>

type_synonym ktok = "tokKind \<times> string"

abbreviation (input) kw :: "string \<Rightarrow> ktok" where
  "kw x \<equiv> (tokIdent, x)"

abbreviation (input) pun :: "string \<Rightarrow> ktok" where
  "pun x \<equiv> (tokPunct, x)"

fun commas :: "ktok list list \<Rightarrow> ktok list" where
  "commas [] = []"
| "commas [x] = x"
| "commas (x # y # xs) = x @ pun '','' # commas (y # xs)"

fun pr_val :: "val \<Rightarrow> ktok" where
  "pr_val (VInt i) = (tokNum, dec_digits i)"
| "pr_val (VText t) = (tokStr, t)"
| "pr_val VNull = kw ''null''"
| "pr_val (VBool b) = kw (if b then ''true'' else ''false'')"
| "pr_val _ = kw ''null''"

fun join_toks :: "ktok list list \<Rightarrow> ktok list list \<Rightarrow> string list \<Rightarrow> ktok list" where
  "join_toks (r # rs) (e # es) (k # ks) =
     (if k = ''left'' then [kw ''left''] else []) @ kw ''join'' # r @ kw ''on'' # e @ join_toks rs es ks"
| "join_toks _ _ _ = []"

fun pr :: "expr \<Rightarrow> ktok list"
and pr_select :: "select \<Rightarrow> ktok list"
and pr_ref :: "tableref \<Rightarrow> ktok list"
and pr_order :: "orderterm \<Rightarrow> ktok list" where
  "pr (Lit v) = [pr_val v]"
| "pr (ColRef t n) = (if t = [] then [kw n] else [kw t, pun ''.'', kw n])"
| "pr (Func n star arg) =
     kw n # pun ''('' # (if star then [pun ''*''] else case arg of None \<Rightarrow> [] | Some e \<Rightarrow> pr e) @ [pun '')'']"
| "pr (Cmp op l r) = pun ''('' # pr l @ pun op # pr r @ [pun '')'']"
| "pr (IsNullE x nt) = pun ''('' # pr x @ kw ''is'' # (if nt then [kw ''not''] else []) @ [kw ''null'', pun '')'']"
| "pr (And l r) = pun ''('' # pr l @ kw ''and'' # pr r @ [pun '')'']"
| "pr (Or l r) = pun ''('' # pr l @ kw ''or'' # pr r @ [pun '')'']"
| "pr (NotE x) = pun ''('' # kw ''not'' # pr x @ [pun '')'']"
| "pr (Binary op l r) = pun ''('' # pr l @ pun op # pr r @ [pun '')'']"
| "pr (InList x xs nt) = pun ''('' # pr x @ (if nt then [kw ''not''] else []) @ kw ''in'' # pun ''('' #
     commas (map pr xs) @ [pun '')'', pun '')'']"
| "pr (InSub x q nt) = pun ''('' # pr x @ (if nt then [kw ''not''] else []) @ kw ''in'' # pun ''('' #
     pr_select q @ [pun '')'', pun '')'']"
| "pr_select (Select tabs ons kinds star flds als wh grp hv ord lim) =
     kw ''select'' # (if star then [pun ''*'']
        else commas (map2 (\<lambda>f al. f @ (if al = [] then [] else [kw ''as'', kw al])) (map pr flds) als)) @
     kw ''from'' # (let refs = map pr_ref tabs in
       hd refs @ join_toks (tl refs) (map pr ons) kinds) @
     (case wh of None \<Rightarrow> [] | Some e \<Rightarrow> kw ''where'' # pr e) @
     (if grp = [] then [] else kw ''group'' # kw ''by'' # commas (map pr grp)) @
     (case hv of None \<Rightarrow> [] | Some e \<Rightarrow> kw ''having'' # pr e) @
     (if ord = [] then [] else kw ''order'' # kw ''by'' # commas (map pr_order ord)) @
     (case lim of None \<Rightarrow> [] | Some k \<Rightarrow> [kw ''limit'', (tokNum, dec_digits k)])"
| "pr_ref (TableRef t al sub) = (case sub of
     None \<Rightarrow> [kw t, kw ''as'', kw al]
   | Some q \<Rightarrow> pun ''('' # pr_select q @ [pun '')'', kw ''as'', kw al])"
| "pr_order (OrderTerm e d) = pr e @ (if d then [kw ''desc''] else [])"

definition reserved :: "string list" where
  "reserved = [''null'', ''true'', ''false'', ''not'', ''select'']"

fun ok_val :: "val \<Rightarrow> bool" where
  "ok_val (VInt i) \<longleftrightarrow> 0 \<le> i \<and> i \<le> max_int64"
| "ok_val (VFloat f) \<longleftrightarrow> False"
| "ok_val (VTime t) \<longleftrightarrow> False"
| "ok_val _ \<longleftrightarrow> True"

definition cmp_ops :: "string list" where
  "cmp_ops = [''='', ''<>'', ''<'', ''<='', ''>'', ''>='']"

definition bin_ops :: "string list" where
  "bin_ops = [''+'', ''-'', ''*'', ''/'', ''%'']"

fun ok_expr :: "expr \<Rightarrow> bool"
and ok_select :: "select \<Rightarrow> bool"
and ok_ref :: "tableref \<Rightarrow> bool"
and ok_order :: "orderterm \<Rightarrow> bool" where
  "ok_expr (Lit v) = ok_val v"
| "ok_expr (ColRef t n) = (ident_wf n \<and> (if t = [] then n \<notin> set reserved else ident_wf t \<and> t \<notin> set reserved))"
| "ok_expr (Func n star arg) = (ident_wf n \<and> n \<notin> set reserved
     \<and> (case arg of None \<Rightarrow> True | Some e \<Rightarrow> \<not> star \<and> ok_expr e))"
| "ok_expr (Cmp op l r) = (op \<in> set cmp_ops \<and> ok_expr l \<and> ok_expr r)"
| "ok_expr (IsNullE x nt) = ok_expr x"
| "ok_expr (And l r) = (ok_expr l \<and> ok_expr r)"
| "ok_expr (Or l r) = (ok_expr l \<and> ok_expr r)"
| "ok_expr (NotE x) = ok_expr x"
| "ok_expr (Binary op l r) = (op \<in> set bin_ops \<and> ok_expr l \<and> ok_expr r)"
| "ok_expr (InList x xs nt) = (ok_expr x \<and> xs \<noteq> [] \<and> list_all ok_expr xs)"
| "ok_expr (InSub x q nt) = (ok_expr x \<and> ok_select q)"
| "ok_select (Select tabs ons kinds star flds als wh grp hv ord lim) =
     (tabs \<noteq> [] \<and> list_all ok_ref tabs \<and> length ons = length (tl tabs) \<and> length kinds = length (tl tabs)
      \<and> list_all ok_expr ons \<and> list_all (\<lambda>k. k = ''inner'' \<or> k = ''left'') kinds
      \<and> (star \<longleftrightarrow> flds = []) \<and> length als = length flds \<and> list_all ok_expr flds
      \<and> list_all (\<lambda>a. a = [] \<or> ident_wf a) als \<and> pred_option ok_expr wh \<and> list_all ok_expr grp
      \<and> pred_option ok_expr hv \<and> list_all ok_order ord \<and> pred_option (\<lambda>k. 0 \<le> k \<and> k \<le> max_int64) lim)"
| "ok_ref (TableRef t al sub) = (ident_wf al \<and> (case sub of None \<Rightarrow> ident_wf t | Some q \<Rightarrow> t = [] \<and> ok_select q))"
| "ok_order (OrderTerm e d) = ok_expr e"

section \<open>Reading a known sequence of tokens\<close>

definition sees :: "pst \<Rightarrow> ktok list \<Rightarrow> bool" where
  "sees s xs \<longleftrightarrow> map kt (fst s) = xs \<and> eof_ok s"

definition gives :: "'a presult \<Rightarrow> 'a \<Rightarrow> ktok list \<Rightarrow> bool" where
  "gives m a xs \<longleftrightarrow> (\<exists>s. m = ret a s \<and> sees s xs)"

definition hdk :: "ktok list \<Rightarrow> ktok" where
  "hdk xs = (case xs of [] \<Rightarrow> (tokEOF, []) | x # _ \<Rightarrow> x)"

lemma hdk_simps [simp]: "hdk [] = (tokEOF, [])" "hdk (x # xs) = x" "xs \<noteq> [] \<Longrightarrow> hdk (xs @ ys) = hdk xs"
  by (auto simp: hdk_def split: list.split)

lemma sees_kind: "sees s xs \<Longrightarrow> tok_kind (peek s) = fst (hdk xs)"
  by (cases s) (auto simp: sees_def hdk_def eof_ok_def kt_def split: list.splits)

lemma sees_text: "sees s ((k, x) # xs) \<Longrightarrow> tok_text (peek s) = x"
  by (cases s) (auto simp: sees_def kt_def split: list.splits)

lemma sees_at: "sees s xs \<Longrightarrow> k \<noteq> tokEOF \<Longrightarrow> at_tok k x s \<longleftrightarrow> hdk xs = (k, x)"
  by (cases s) (auto simp: sees_def hdk_def eof_ok_def kt_def at_tok_def split: list.splits)

lemma sees_next: "sees s (x # xs) \<Longrightarrow> sees (next_tok s) xs"
  by (cases s) (auto simp: sees_def eof_ok_def)

lemma sees_plen: "sees s xs \<Longrightarrow> plen s = length xs"
  by (auto simp: sees_def plen_def)

lemma gives_ret [simp]: "sees s xs \<Longrightarrow> gives (ret a s) a xs"
  unfolding gives_def by blast

lemma gives_bind:
  assumes "gives m a xs" "\<And>s. sees s xs \<Longrightarrow> gives (f a s) b ys"
  shows "gives (bindP m f) b ys"
  using assms unfolding gives_def bindP_def ret_def by (auto simp del: split_paired_Ex)

lemma gives_punct: "sees s ((tokPunct, x) # xs) \<Longrightarrow> gives (expectPunct x s) () xs"
  by (simp add: expectPunct_def sees_at sees_next)

lemma gives_kw: "sees s ((tokIdent, x) # xs) \<Longrightarrow> gives (expectKw x s) () xs"
  by (simp add: expectKw_def sees_at sees_next)

lemma gives_ident: "sees s ((tokIdent, x) # xs) \<Longrightarrow> gives (identOrErr w s) x xs"
  using sees_kind [of s "(tokIdent, x) # xs"] by (simp add: identOrErr_def sees_text sees_next)

lemma gives_close:
  assumes "gives m a ((tokPunct, x) # xs)" "\<And>s. sees s xs \<Longrightarrow> gives (f a s) b ys"
  shows "gives (bindP m (\<lambda>a s. bindP (expectPunct x s) (\<lambda>_ s. f a s))) b ys"
  by (rule gives_bind [OF assms(1)]) (rule gives_bind [OF gives_punct], auto intro: assms(2))

lemma takeKw_sees:
  assumes "sees s xs"
  shows "takeKw x s = (if hdk xs = (tokIdent, x) then (True, next_tok s) else (False, s))"
  using assms by (simp add: takeKw_def sees_at)

section \<open>The levels of the grammar\<close>

text \<open>An operand: read by \<open>parsePrimary\<close>, not the beginning of a prefix operator.\<close>

definition prim :: "(pst \<Rightarrow> expr presult) \<Rightarrow> pst \<Rightarrow> expr \<Rightarrow> ktok list \<Rightarrow> bool" where
  "prim pe s e xs \<longleftrightarrow> gives (parsePrimary pe s) e xs \<and> \<not> atPunct ''-'' s \<and> \<not> atKw ''not'' s"

lemma left0:
  assumes "gives (p s) l xs" "\<And>s. sees s xs \<Longrightarrow> \<not> op (peek s)"
  shows "gives (bindP (p s) (left_loop (Suc n) op mk p)) l xs"
  by (rule gives_bind [OF assms(1)]) (use assms(2) in simp)

lemma left1:
  assumes "gives (p s) l ((k, x) # ys)" "\<And>s. sees s ((k, x) # ys) \<Longrightarrow> op (peek s)"
    and "\<And>s. sees s ys \<Longrightarrow> gives (p s) r zs" "\<And>s. sees s zs \<Longrightarrow> \<not> op (peek s)"
  shows "gives (bindP (p s) (left_loop (Suc (Suc n)) op mk p)) (mk x l r) zs"
proof (rule gives_bind [OF assms(1)])
  fix t assume t: "sees t ((k, x) # ys)"
  have "gives (bindP (p (next_tok t)) (\<lambda>r' s'. left_loop (Suc n) op mk p (mk x l r') s')) (mk x l r) zs"
    by (rule gives_bind [OF assms(3) [OF sees_next [OF t]]]) (use assms(4) in simp)
  then show "gives (left_loop (Suc (Suc n)) op mk p l t) (mk x l r) zs"
    by (subst left_loop.simps(2)) (simp only: assms(2) [OF t] sees_text [OF t] if_True)
qed

lemma sees_punct_in: "sees s xs \<Longrightarrow> punct_in ops (peek s) \<longleftrightarrow> hdk xs \<in> Pair tokPunct ` set ops"
  by (cases s) (auto simp: sees_def hdk_def eof_ok_def kt_def punct_in_def split: list.splits)

lemma sees_kw_is: "sees s xs \<Longrightarrow> kw_is x (peek s) \<longleftrightarrow> hdk xs = (tokIdent, x)"
  by (cases s) (auto simp: sees_def hdk_def eof_ok_def kt_def kw_is_def split: list.splits)

abbreviation puns :: "string list \<Rightarrow> ktok set" where
  "puns xs \<equiv> Pair tokPunct ` set xs"

abbreviation mul_ops :: "string list" where
  "mul_ops \<equiv> [''*'', ''/'', ''%'']"

abbreviation add_ops :: "string list" where
  "add_ops \<equiv> [''+'', ''-'']"

lemma unary0: "prim pe s e xs \<Longrightarrow> gives (parseUnary (Suc n) pe s) e xs"
  by (simp add: prim_def)

lemma mul0: "prim pe s e xs \<Longrightarrow> hdk xs \<notin> puns mul_ops \<Longrightarrow> gives (parseMul (Suc n) pe s) e xs"
  unfolding parseMul_def by (rule left0 [OF unary0]) (simp_all only: sees_punct_in not_False_eq_True)

lemma mul1:
  assumes "prim pe s l ((tokPunct, x) # ys)" "x \<in> set mul_ops" "\<And>s. sees s ys \<Longrightarrow> prim pe s r zs" "hdk zs \<notin> puns mul_ops"
  shows "gives (parseMul (Suc (Suc n)) pe s) (Binary x l r) zs"
  unfolding parseMul_def
  by (rule left1 [where p = "parseUnary (Suc (Suc n)) pe", OF unary0 [OF assms(1)] _ unary0 [OF assms(3)]]) (use assms(2,4) in \<open>simp_all only: sees_punct_in hdk_simps imageI not_False_eq_True\<close>)

lemma add0: "gives (parseMul (Suc n) pe s) e xs \<Longrightarrow> hdk xs \<notin> puns add_ops \<Longrightarrow> gives (parseAdd (Suc n) pe s) e xs"
  unfolding parseAdd_def by (rule left0) (simp_all only: sees_punct_in not_False_eq_True)

lemma addp: "prim pe s e xs \<Longrightarrow> hdk xs \<notin> puns (mul_ops @ add_ops) \<Longrightarrow> gives (parseAdd (Suc n) pe s) e xs"
  by (rule add0 [OF mul0]) auto

lemma add1:
  assumes "prim pe s l ((tokPunct, x) # ys)" "x \<in> set add_ops" "\<And>s. sees s ys \<Longrightarrow> prim pe s r zs" "hdk zs \<notin> puns (mul_ops @ add_ops)"
  shows "gives (parseAdd (Suc (Suc n)) pe s) (Binary x l r) zs"
  unfolding parseAdd_def
proof (rule left1 [where p = "parseMul (Suc (Suc n)) pe", OF mul0 [OF assms(1)] _ mul0 [OF assms(3)]])
  show "hdk ((tokPunct, x) # ys) \<notin> puns mul_ops" using assms(2) by auto
qed (use assms(2,4) in \<open>auto simp: sees_punct_in\<close>)

text \<open>The tokens that can continue an expression.\<close>

definition cont_ops :: "ktok set" where
  "cont_ops = puns (mul_ops @ add_ops @ cmp_ops) \<union> Pair tokIdent ` {''is'', ''not'', ''in'', ''and'', ''or''}"

lemma cmp0:
  assumes "gives (parseAdd n pe s) e xs" "hdk xs \<notin> puns cmp_ops" "hdk xs \<notin> Pair tokIdent ` {''is'', ''not'', ''in''}"
  shows "gives (parseCmp n pe ps s) e xs"
  unfolding parseCmp_def
proof (rule gives_bind [OF assms(1)])
  fix t assume t: "sees t xs"
  show "gives (if punct_in [''='', ''<>'', ''<'', ''<='', ''>'', ''>=''] (peek t)
      then bindP (parseAdd n pe (next_tok t)) (\<lambda>r s'. ret (Cmp (tok_text (peek t)) e r) s')
      else if atKw ''is'' t then case takeKw ''not'' (next_tok t) of (nt, s) \<Rightarrow> bindP (expectKw ''null'' s) (\<lambda>_ s. ret (IsNullE e nt) s)
      else if atKw ''not'' t then if \<not> atKw ''in'' (next_tok t) then ret e t else parse_in n pe ps e True (next_tok (next_tok t))
      else if \<not> atKw ''in'' t then ret e t else parse_in n pe ps e False (next_tok t)) e xs"
    using assms(2,3) t by (simp add: sees_punct_in sees_at cmp_ops_def)
qed

lemma cmp1:
  assumes "gives (parseAdd n pe s) l ((tokPunct, x) # ys)" "x \<in> set cmp_ops" "\<And>s. sees s ys \<Longrightarrow> gives (parseAdd n pe s) r zs"
  shows "gives (parseCmp n pe ps s) (Cmp x l r) zs"
  unfolding parseCmp_def
proof (rule gives_bind [OF assms(1)], goal_cases)
  case (1 t)
  have "punct_in [''='', ''<>'', ''<'', ''<='', ''>'', ''>=''] (peek t)" using assms(2) sees_punct_in [OF 1] by (simp add: cmp_ops_def)
  moreover have "gives (bindP (parseAdd n pe (next_tok t)) (\<lambda>r s'. ret (Cmp x l r) s')) (Cmp x l r) zs"
    by (rule gives_bind [OF assms(3) [OF sees_next [OF 1]]]) simp
  ultimately show ?case using sees_text [OF 1] by simp
qed

lemma is_null:
  assumes "gives (parseAdd n pe s) e ((tokIdent, ''is'') # (if nt then [(tokIdent, ''not'')] else []) @ (tokIdent, ''null'') # zs)"
  shows "gives (parseCmp n pe ps s) (IsNullE e nt) zs"
  unfolding parseCmp_def
proof (rule gives_bind [OF assms], goal_cases)
  case (1 t)
  have 2: "sees (next_tok t) ((if nt then [(tokIdent, ''not'')] else []) @ (tokIdent, ''null'') # zs)" using sees_next [OF 1] .
  obtain u where u: "takeKw ''not'' (next_tok t) = (nt, u)" "sees u ((tokIdent, ''null'') # zs)"
    using takeKw_sees [OF 2] 2 sees_next [of "next_tok t"] by (cases nt) auto
  have "gives (bindP (expectKw ''null'' u) (\<lambda>_ s. ret (IsNullE e nt) s)) (IsNullE e nt) zs"
    by (rule gives_bind [OF gives_kw [OF u(2)]]) simp
  then show ?case using 1 u(1) by (auto simp: sees_punct_in sees_at)
qed

lemma not_gives: "gives (parseCmp m pe ps s) e xs \<Longrightarrow> \<not> atKw ''not'' s \<Longrightarrow> gives (parseNot (Suc n) m pe ps s) e xs"
  by simp

lemma and0:
  assumes "gives (parseNot (Suc n) (Suc n) pe ps s) e xs" "hdk xs \<noteq> (tokIdent, ''and'')"
  shows "gives (parseAnd (Suc n) pe ps s) e xs"
  unfolding parseAnd_def by (rule left0, rule assms(1)) (use assms(2) in \<open>simp add: sees_kw_is\<close>)

lemma lift_not:
  assumes "gives (parseNot (Suc n) (Suc n) pe ps s) e xs" "hdk xs \<noteq> (tokIdent, ''and'')" "hdk xs \<noteq> (tokIdent, ''or'')"
  shows "gives (parseOr (Suc n) pe ps s) e xs"
  unfolding parseOr_def by (rule left0, rule and0 [OF assms(1)]) (use assms(2,3) in \<open>simp_all add: sees_kw_is\<close>)

lemma lift_cmp:
  assumes "gives (parseCmp (Suc n) pe ps s) e xs" "\<not> atKw ''not'' s" "hdk xs \<noteq> (tokIdent, ''and'')" "hdk xs \<noteq> (tokIdent, ''or'')"
  shows "gives (parseOr (Suc n) pe ps s) e xs"
  by (rule lift_not [OF not_gives [OF assms(1,2)] assms(3,4)])

lemma cmpp:
  assumes "prim pe s e xs" "hdk xs \<notin> puns (mul_ops @ add_ops @ cmp_ops)" "hdk xs \<notin> Pair tokIdent ` {''is'', ''not'', ''in''}"
  shows "gives (parseCmp (Suc n) pe ps s) e xs"
  by (rule cmp0 [OF addp [OF assms(1)]]) (use assms(2,3) in auto)

lemma notp:
  assumes "prim pe s e xs" "hdk xs \<notin> puns (mul_ops @ add_ops @ cmp_ops)" "hdk xs \<notin> Pair tokIdent ` {''is'', ''not'', ''in''}"
  shows "gives (parseNot (Suc m) (Suc n) pe ps s) e xs"
  by (rule not_gives [OF cmpp [OF assms]]) (use assms(1) in \<open>simp add: prim_def\<close>)

text \<open>Every form of expression between parentheses, from its operands.\<close>

lemma orp:
  assumes "prim pe s e xs" "hdk xs \<notin> cont_ops"
  shows "gives (parseOr (Suc n) pe ps s) e xs"
  by (rule lift_not [OF notp [OF assms(1)]]) (use assms(2) in \<open>auto simp: cont_ops_def\<close>)

lemma or_body:
  assumes "prim pe s l ((tokIdent, ''or'') # ys)" "\<And>s. sees s ys \<Longrightarrow> prim pe s r zs" "hdk zs \<notin> cont_ops"
  shows "gives (parseOr (Suc (Suc n)) pe ps s) (Or l r) zs"
  unfolding parseOr_def
proof (rule left1 [where p = "parseAnd (Suc (Suc n)) pe ps"])
  show "gives (parseAnd (Suc (Suc n)) pe ps s) l ((tokIdent, ''or'') # ys)"
    by (rule and0 [OF notp [OF assms(1)]]) auto
  show "gives (parseAnd (Suc (Suc n)) pe ps s) r zs" if "sees s ys" for s
    by (rule and0 [OF notp [OF assms(2) [OF that]]]) (use assms(3) in \<open>auto simp: cont_ops_def\<close>)
qed (use assms(3) in \<open>auto simp: sees_kw_is cont_ops_def\<close>)

lemma and_body:
  assumes "prim pe s l ((tokIdent, ''and'') # ys)" "\<And>s. sees s ys \<Longrightarrow> prim pe s r zs" "hdk zs \<notin> cont_ops"
  shows "gives (parseOr (Suc (Suc n)) pe ps s) (And l r) zs"
  unfolding parseOr_def
proof (rule left0)
  show "gives (parseAnd (Suc (Suc n)) pe ps s) (And l r) zs"
    unfolding parseAnd_def
  proof (rule left1 [where p = "parseNot (Suc (Suc n)) (Suc (Suc n)) pe ps"])
    show "gives (parseNot (Suc (Suc n)) (Suc (Suc n)) pe ps s) l ((tokIdent, ''and'') # ys)"
      by (rule notp [OF assms(1)]) auto
    show "gives (parseNot (Suc (Suc n)) (Suc (Suc n)) pe ps s) r zs" if "sees s ys" for s
      by (rule notp [OF assms(2) [OF that]]) (use assms(3) in \<open>auto simp: cont_ops_def\<close>)
  qed (use assms(3) in \<open>auto simp: sees_kw_is cont_ops_def\<close>)
qed (use assms(3) in \<open>auto simp: sees_kw_is cont_ops_def\<close>)

lemma not_body:
  assumes "sees s ((tokIdent, ''not'') # ys)" "\<And>s. sees s ys \<Longrightarrow> prim pe s e zs" "hdk zs \<notin> cont_ops"
  shows "gives (parseOr (Suc (Suc n)) pe ps s) (NotE e) zs"
proof (rule lift_not)
  have "gives (bindP (parseNot (Suc n) (Suc (Suc n)) pe ps (next_tok s)) (\<lambda>x s. ret (NotE x) s)) (NotE e) zs"
    by (rule gives_bind [OF notp [OF assms(2) [OF sees_next [OF assms(1)]]]]) (use assms(3) in \<open>auto simp: cont_ops_def\<close>)
  then show "gives (parseNot (Suc (Suc n)) (Suc (Suc n)) pe ps s) (NotE e) zs"
    using assms(1) by (subst parseNot.simps(2)) (simp add: sees_at del: parseNot.simps)
qed (use assms(3) in \<open>auto simp: cont_ops_def\<close>)

lemma cmp_body:
  assumes "prim pe s l ((tokPunct, x) # ys)" "x \<in> set cmp_ops" "\<And>s. sees s ys \<Longrightarrow> prim pe s r zs" "hdk zs \<notin> cont_ops"
  shows "gives (parseOr (Suc (Suc n)) pe ps s) (Cmp x l r) zs"
proof (rule lift_cmp, rule cmp1)
  show "gives (parseAdd (Suc (Suc n)) pe s) l ((tokPunct, x) # ys)"
    by (rule addp [OF assms(1)]) (use assms(2) in \<open>auto simp: cmp_ops_def\<close>)
  show "gives (parseAdd (Suc (Suc n)) pe s) r zs" if "sees s ys" for s
    by (rule addp [OF assms(3) [OF that]]) (use assms(4) in \<open>auto simp: cont_ops_def\<close>)
qed (use assms in \<open>auto simp: cont_ops_def prim_def\<close>)

lemma binary_body:
  assumes "prim pe s l ((tokPunct, x) # ys)" "x \<in> set bin_ops" "\<And>s. sees s ys \<Longrightarrow> prim pe s r zs" "hdk zs \<notin> cont_ops"
  shows "gives (parseOr (Suc (Suc n)) pe ps s) (Binary x l r) zs"
proof (rule lift_cmp, rule cmp0)
  have "x \<in> set mul_ops \<or> x \<in> set add_ops" using assms(2) by (auto simp: bin_ops_def)
  then show "gives (parseAdd (Suc (Suc n)) pe s) (Binary x l r) zs"
  proof
    assume x: "x \<in> set mul_ops"
    show ?thesis by (rule add0 [OF mul1 [OF assms(1) x assms(3)]]) (use assms(4) in \<open>auto simp: cont_ops_def\<close>)
  next
    assume x: "x \<in> set add_ops"
    show ?thesis by (rule add1 [OF assms(1) x assms(3)]) (use assms(4) in \<open>auto simp: cont_ops_def\<close>)
  qed
qed (use assms in \<open>auto simp: cont_ops_def prim_def\<close>)

lemma is_null_body:
  assumes "prim pe s e ((tokIdent, ''is'') # (if nt then [(tokIdent, ''not'')] else []) @ (tokIdent, ''null'') # zs)" "hdk zs \<notin> cont_ops"
  shows "gives (parseOr (Suc (Suc n)) pe ps s) (IsNullE e nt) zs"
proof (rule lift_cmp, rule is_null)
  show "gives (parseAdd (Suc (Suc n)) pe s) e ((tokIdent, ''is'') # (if nt then [(tokIdent, ''not'')] else []) @ (tokIdent, ''null'') # zs)"
    by (rule addp [OF assms(1)]) auto
qed (use assms in \<open>auto simp: cont_ops_def prim_def\<close>)

lemma in_body:
  assumes "prim pe s e ((if nt then [(tokIdent, ''not'')] else []) @ (tokIdent, ''in'') # ys)" "hdk zs \<notin> cont_ops"
    and "\<And>s. sees s ys \<Longrightarrow> gives (parse_in (Suc (Suc n)) pe ps e nt s) r zs"
  shows "gives (parseOr (Suc (Suc n)) pe ps s) r zs"
proof (rule lift_cmp)
  have "gives (parseAdd (Suc (Suc n)) pe s) e ((if nt then [(tokIdent, ''not'')] else []) @ (tokIdent, ''in'') # ys)"
    by (rule addp [OF assms(1)]) auto
  then show "gives (parseCmp (Suc (Suc n)) pe ps s) r zs"
    unfolding parseCmp_def
  proof (rule gives_bind, goal_cases)
    case (1 t)
    show ?case
    proof (cases nt)
      case True
      then have t: "sees t ((tokIdent, ''not'') # (tokIdent, ''in'') # ys)" using 1 by simp
      then show ?thesis
        using assms(3) [OF sees_next [OF sees_next [OF t]]] sees_next [OF t] True by (simp add: sees_punct_in sees_at image_iff)
    next
      case False
      then have t: "sees t ((tokIdent, ''in'') # ys)" using 1 by simp
      then show ?thesis using assms(3) [OF sees_next [OF t]] False by (simp add: sees_punct_in sees_at image_iff)
    qed
  qed
qed (use assms in \<open>auto simp: cont_ops_def prim_def\<close>)

section \<open>Reading what was printed\<close>

definition reads :: "(pst \<Rightarrow> 'a presult) \<Rightarrow> ('a \<Rightarrow> ktok list) \<Rightarrow> nat \<Rightarrow> (ktok \<Rightarrow> bool) \<Rightarrow> 'a \<Rightarrow> bool" where
  "reads p f k F x \<longleftrightarrow> (\<forall>s rest. sees s (f x @ rest) \<longrightarrow> length (f x @ rest) < k \<longrightarrow> F (hdk rest) \<longrightarrow> gives (p s) x rest)"

lemma readsD: "reads p f k F x \<Longrightarrow> sees s (f x @ rest) \<Longrightarrow> length (f x @ rest) < k \<Longrightarrow> F (hdk rest) \<Longrightarrow> gives (p s) x rest"
  unfolding reads_def by blast

lemma readsI: "(\<And>s rest. sees s (f x @ rest) \<Longrightarrow> length (f x @ rest) < k \<Longrightarrow> F (hdk rest) \<Longrightarrow> gives (p s) x rest) \<Longrightarrow> reads p f k F x"
  unfolding reads_def by blast

lemma reads_sepBy:
  assumes "xs \<noteq> []" "\<forall>x\<in>set xs. reads p f k F x" "F (tokPunct, '','')" "F (hdk rest)" "hdk rest \<noteq> (tokPunct, '','')"
    and "sees s (commas (map f xs) @ rest)" "length (commas (map f xs) @ rest) < k" "length (commas (map f xs) @ rest) < n"
  shows "gives (sepBy n p s) xs rest"
  using assms(1,2,6,7,8)
proof (induction xs arbitrary: s n)
  case (Cons x xs)
  obtain m where m: "n = Suc m" using Cons.prems(5) by (cases n) auto
  show ?case
  proof (cases xs)
    case Nil
    have "gives (p s) x rest" by (rule readsD [of p f k F]) (use Cons.prems Nil assms(4) in auto)
    then show ?thesis unfolding m sepBy.simps(2) Nil by (rule gives_bind) (use assms(5) in \<open>simp add: sees_at\<close>)
  next
    case (Cons y ys)
    note xs = this
    have x: "gives (p s) x ((tokPunct, '','') # commas (map f xs) @ rest)"
      by (rule readsD [of p f k F]) (use Cons.prems xs assms(3) in auto)
    have IH: "gives (sepBy m p t) xs rest" if "sees t (commas (map f xs) @ rest)" for t
      by (rule Cons.IH) (use Cons.prems xs m that in auto)
    show ?thesis unfolding m sepBy.simps(2)
    proof (rule gives_bind [OF x], goal_cases)
      case (1 t)
      have "gives (bindP (sepBy m p (next_tok t)) (\<lambda>xs s. ret (x # xs) s)) (x # xs) rest"
        by (rule gives_bind [OF IH [OF sees_next [OF 1]]]) simp
      then show ?case using 1 by (simp add: sees_at)
    qed
  qed
qed simp

abbreviation (input) opt_toks :: "string \<Rightarrow> ('a \<Rightarrow> ktok list) \<Rightarrow> 'a option \<Rightarrow> ktok list" where
  "opt_toks k f x \<equiv> (case x of None \<Rightarrow> [] | Some e \<Rightarrow> (tokIdent, k) # f e)"

abbreviation (input) by_toks :: "string \<Rightarrow> ('a \<Rightarrow> ktok list) \<Rightarrow> 'a list \<Rightarrow> ktok list" where
  "by_toks k f xs \<equiv> (if xs = [] then [] else (tokIdent, k) # (tokIdent, ''by'') # commas (map f xs))"

lemma reads_opt_expr:
  assumes "pred_option (reads p f k F) x" "F (hdk rest)" "hdk rest \<noteq> (tokIdent, w)"
    and "sees s (opt_toks w f x @ rest)" "length (opt_toks w f x @ rest) < k"
  shows "gives (opt_expr w p s) x rest"
proof (cases x)
  case None
  then show ?thesis using assms(3,4) by (simp add: opt_expr_def clause_def sees_at)
next
  case (Some e)
  have s: "sees s ((tokIdent, w) # f e @ rest)" using assms(4) Some by simp
  have "gives (bindP (p (next_tok s)) (\<lambda>e s. ret (Some e) s)) (Some e) rest"
    by (rule gives_bind [OF readsD [of p f k F e, OF _ sees_next [OF s]]]) (use assms Some in auto)
  then show ?thesis using s Some by (simp add: opt_expr_def clause_def sees_at)
qed

lemma reads_by:
  assumes "\<forall>x\<in>set xs. reads p f k F x" "F (tokPunct, '','')" "F (hdk rest)" "hdk rest \<notin> {(tokIdent, w), (tokPunct, '','')}"
    and "sees s (by_toks w f xs @ rest)" "length (by_toks w f xs @ rest) < k" "length (by_toks w f xs @ rest) < n"
  shows "gives (clause w (by_list n p) [] s) xs rest"
proof (cases "xs = []")
  case True
  then show ?thesis using assms(4,5) by (auto simp: clause_def sees_at)
next
  case False
  then have s: "sees s ((tokIdent, w) # (tokIdent, ''by'') # commas (map f xs) @ rest)" using assms(5) by simp
  have "gives (by_list n p (next_tok s)) xs rest" unfolding by_list_def
    by (rule gives_bind [OF gives_kw [OF sees_next [OF s]]], rule reads_sepBy [of xs p f k F]) (use assms False in auto)
  then show ?thesis using s by (simp add: clause_def sees_at)
qed

lemma join_head_sees:
  assumes "sees s ((if kd = ''left'' then [(tokIdent, ''left'')] else []) @ (tokIdent, ''join'') # xs)" "kd = ''inner'' \<or> kd = ''left''"
  obtains u where "join_head s = Some (kd, u)" "sees u xs"
proof (cases "kd = ''left''")
  case True
  have 1: "sees s ((tokIdent, ''left'') # (tokIdent, ''join'') # xs)" using assms(1) True by simp
  show thesis
    by (rule that [of "next_tok (next_tok s)"])
      (use 1 sees_next [OF 1] sees_next [OF sees_next [OF 1]] True in \<open>simp_all add: join_head_def sees_at takeKw_sees\<close>)
next
  case False
  then show thesis using assms that [of "next_tok s"] sees_next [of s] by (simp add: join_head_def sees_at)
qed

lemma reads_joins:
  assumes "length refs = length ons" "length ons = length kinds"
    and "\<forall>r\<in>set refs. reads (parseTableRef ps) pr_ref k (\<lambda>_. True) r" "\<forall>e\<in>set ons. reads pe pr k F e"
    and "\<forall>x\<in>set kinds. x = ''inner'' \<or> x = ''left''"
    and F: "F (tokIdent, ''join'')" "F (tokIdent, ''left'')" "F (hdk rest)" "hdk rest \<notin> Pair tokIdent ` {''join'', ''inner'', ''left''}"
    and "sees s (join_toks (map pr_ref refs) (map pr ons) kinds @ rest)"
    and "length (join_toks (map pr_ref refs) (map pr ons) kinds @ rest) < k"
    and "length (join_toks (map pr_ref refs) (map pr ons) kinds @ rest) < n"
  shows "gives (joinLoop n pe ps s) (zip refs (zip ons kinds)) rest"
  using assms(1-5,10-12)
proof (induction refs ons kinds arbitrary: s n rule: list_induct3)
  case Nil
  then obtain m where "n = Suc m" by (cases n) auto
  then show ?case using Nil F(4) by (simp add: join_head_def sees_at image_iff)
next
  case (Cons r rs e es kd ks)
  let ?J = "join_toks (map pr_ref rs) (map pr es) ks"
  have kd: "kd = ''inner'' \<or> kd = ''left''" using Cons.prems(3) by simp
  obtain m where m: "n = Suc m" using Cons.prems(6) by (cases n) auto
  obtain u where u: "join_head s = Some (kd, u)" "sees u (pr_ref r @ (tokIdent, ''on'') # pr e @ ?J @ rest)"
    by (rule join_head_sees [of s kd, OF _ kd]) (use Cons.prems(4) in auto)
  have r: "gives (parseTableRef ps u) r ((tokIdent, ''on'') # pr e @ ?J @ rest)"
    by (rule readsD [of _ pr_ref k "\<lambda>_. True", OF _ u(2)]) (use Cons.prems in auto)
  have hd: "F (hdk (?J @ rest))" using F(1-3) by (cases "(map pr_ref rs, map pr es, ks)" rule: join_toks.cases) auto
  have e: "gives (pe t) e (?J @ rest)" if "sees t (pr e @ ?J @ rest)" for t
    by (rule readsD [of _ pr k F, OF _ that]) (use Cons.prems hd in auto)
  have J: "gives (joinLoop m pe ps t) (zip rs (zip es ks)) rest" if "sees t (?J @ rest)" for t
    by (rule Cons.IH) (use Cons.prems m that in auto)
  show ?case unfolding m joinLoop.simps(2) u(1) option.case prod.case
    by (rule gives_bind [OF r], rule gives_bind [OF gives_kw], assumption, rule gives_bind [OF e], assumption, rule gives_bind [OF J], assumption) simp
qed

section \<open>Primary expressions\<close>

definition pfollow :: "ktok \<Rightarrow> bool" where
  "pfollow t \<longleftrightarrow> t \<notin> puns [''.'', ''('']"

definition follow :: "ktok \<Rightarrow> bool" where
  "follow t \<longleftrightarrow> t \<notin> cont_ops \<and> pfollow t"

definition sel_end :: "ktok \<Rightarrow> bool" where
  "sel_end t \<longleftrightarrow> t \<in> {(tokEOF, []), (tokPunct, '')''), (tokPunct, '';'')}"

lemma pr_nonempty [simp]: "pr e \<noteq> []"
  by (cases e) auto

lemma pr_head:
  assumes "ok_expr e"
  shows "hdk (pr e) \<notin> {(tokPunct, ''-''), (tokPunct, ''*''), (tokPunct, '')''), (tokIdent, ''not''), (tokIdent, ''select'')}"
proof (cases e)
  case (Lit v)
  then show ?thesis by (cases v) auto
qed (use assms in \<open>auto simp: reserved_def\<close>)

lemma operand:
  assumes "reads (parsePrimary pe) pr k pfollow e" "ok_expr e" "sees s (pr e @ rest)" "length (pr e @ rest) < k" "pfollow (hdk rest)"
  shows "prim pe s e rest"
  using readsD [OF assms(1,3,4,5)] pr_head [OF assms(2)] sees_at [OF assms(3)] by (auto simp: prim_def)

lemma reads_expr:
  assumes "\<And>n. reads (parsePrimary (parseExpr n)) pr (Suc n) pfollow e" "ok_expr e"
  shows "reads (parseExpr n) pr n follow e"
proof (rule readsI)
  fix s rest
  assume s: "sees s (pr e @ rest)" "length (pr e @ rest) < n" "follow (hdk rest)"
  then obtain m where m: "n = Suc m" by (cases n) auto
  show "gives (parseExpr n s) e rest"
    unfolding m parseExpr.simps
    by (rule orp [OF operand [OF assms(1) [of m] assms(2) s(1)]]) (use s m in \<open>auto simp: follow_def\<close>)
qed

lemma reads_paren:
  assumes "\<And>n s rest. sees s (xs @ (tokPunct, '')'') # rest) \<Longrightarrow> length (xs @ (tokPunct, '')'') # rest) < Suc (Suc n) \<Longrightarrow>
      gives (parseOr (Suc (Suc n)) (parseExpr (Suc n)) (parseSelect (Suc n)) s) e ((tokPunct, '')'') # rest)"
    and "pr e = (tokPunct, ''('') # xs @ [(tokPunct, '')'')]" "xs \<noteq> []"
  shows "reads (parsePrimary (parseExpr n)) pr (Suc n) pfollow e"
proof (rule readsI)
  fix s rest
  assume s: "sees s (pr e @ rest)" "length (pr e @ rest) < Suc n"
  have s1: "sees s ((tokPunct, ''('') # xs @ (tokPunct, '')'') # rest)" using s(1) assms(2) by simp
  have "2 < n" using s(2) assms(2,3) by (cases xs) auto
  then have m: "n = Suc (Suc (n - 2))" by simp
  have "gives (parseExpr n (next_tok s)) e ((tokPunct, '')'') # rest)"
    by (subst m, subst parseExpr.simps, rule assms(1) [OF sees_next [OF s1]]) (use s(2) assms(2) m in auto)
  then have "gives (bindP (parseExpr n (next_tok s)) (\<lambda>e s. bindP (expectPunct '')'' s) (\<lambda>_ s. ret e s))) e rest"
    by (rule gives_close) simp
  then show "gives (parsePrimary (parseExpr n) s) e rest"
    using sees_kind [OF s1] sees_text [OF s1] by (simp add: parsePrimary_def)
qed

lemma sees_parse_num:
  assumes "sees s ((tokNum, dec_digits i) # rest)" "0 \<le> i" "i \<le> max_int64"
  shows "gives (parsePrimary pe s) (Lit (VInt i)) rest"
proof -
  have "CHR ''.'' \<notin> set (dec_digits i)" using dec_digits_digits [OF assms(2), of "CHR ''.''"] by (auto simp: is_digit_def less_eq_char_def)
  then show ?thesis
    using sees_kind [OF assms(1)] sees_text [OF assms(1)] sees_next [OF assms(1)] assms(2,3)
    by (simp add: parsePrimary_def parse_num_def)
qed

lemma reads_lit: "ok_val v \<Longrightarrow> reads (parsePrimary pe) pr k pfollow (Lit v)"
proof (rule readsI, goal_cases)
  case (1 s rest)
  show ?case
  proof (cases v)
    case (VInt i)
    then show ?thesis using 1 by (simp add: sees_parse_num)
  qed (use 1 sees_kind [OF 1(2)] sees_text [of s _ "snd (pr_val v)" rest] sees_next [of s _ rest] in
      \<open>auto simp: parsePrimary_def split: if_splits\<close>)
qed

lemma name_head:
  assumes "sees s ((tokIdent, x) # rest)" "x \<notin> set reserved"
  shows "parsePrimary pe s = parse_name pe x (next_tok s)"
  using sees_kind [OF assms(1)] sees_text [OF assms(1)] assms(2) by (simp add: parsePrimary_def reserved_def)

lemma reads_colref: "ok_expr (ColRef t x) \<Longrightarrow> reads (parsePrimary pe) pr k pfollow (ColRef t x)"
proof (rule readsI, goal_cases)
  case (1 s rest)
  show ?case
  proof (cases "t = []")
    case True
    then have s: "sees s ((tokIdent, x) # rest)" using 1 by simp
    show ?thesis
      using name_head [OF s, of pe] sees_next [OF s] 1(1,4) True by (simp add: parse_name_def sees_at pfollow_def)
  next
    case False
    then have s: "sees s ((tokIdent, t) # (tokPunct, ''.'') # (tokIdent, x) # rest)" using 1 by simp
    have "gives (bindP (identOrErr ''column name'' (next_tok (next_tok s))) (\<lambda>cn s. ret (ColRef t cn) s)) (ColRef t x) rest"
      by (rule gives_bind [OF gives_ident [OF sees_next [OF sees_next [OF s]]]]) simp
    then show ?thesis
      using name_head [OF s, of pe] sees_next [OF s] 1(1) False by (simp add: parse_name_def sees_at)
  qed
qed

lemma reads_func_plain:
  assumes "ok_expr (Func x star None)"
  shows "reads (parsePrimary pe) pr k pfollow (Func x star None)"
proof (rule readsI)
  fix s rest assume 1: "sees s (pr (Func x star None) @ rest)"
  have s: "sees s ((tokIdent, x) # (tokPunct, ''('') # (if star then [(tokPunct, ''*'')] else []) @ (tokPunct, '')'') # rest)"
    using 1 by (cases star) auto
  note t = sees_next [OF s] and u = sees_next [OF sees_next [OF s]]
  show "gives (parsePrimary pe s) (Func x star None) rest"
  proof (cases star)
    case True
    have v: "sees (next_tok (next_tok (next_tok s))) ((tokPunct, '')'') # rest)" using u True sees_next [of "next_tok (next_tok s)"] by simp
    have "gives (bindP (expectPunct '')'' (next_tok (next_tok (next_tok s)))) (\<lambda>_ s. ret (Func x True None) s)) (Func x True None) rest"
      by (rule gives_bind [OF gives_punct [OF v]]) simp
    then show ?thesis using name_head [OF s, of pe] t u assms True by (simp add: parse_name_def sees_at)
  next
    case False
    have v: "sees (next_tok (next_tok s)) ((tokPunct, '')'') # rest)" using u False by simp
    have "gives (bindP (expectPunct '')'' (next_tok (next_tok s))) (\<lambda>_ s. ret (Func x False None) s)) (Func x False None) rest"
      by (rule gives_bind [OF gives_punct [OF v]]) simp
    then show ?thesis using name_head [OF s, of pe] t v assms False by (simp add: parse_name_def sees_at)
  qed
qed

lemma reads_func_arg:
  assumes "ok_expr (Func x False (Some e))" "reads pe pr n follow e"
  shows "reads (parsePrimary pe) pr (Suc n) pfollow (Func x False (Some e))"
proof (rule readsI)
  fix s rest assume 1: "sees s (pr (Func x False (Some e)) @ rest)" "length (pr (Func x False (Some e)) @ rest) < Suc n"
  have s: "sees s ((tokIdent, x) # (tokPunct, ''('') # pr e @ (tokPunct, '')'') # rest)" using 1 by simp
  note t = sees_next [OF s] and u = sees_next [OF sees_next [OF s]]
  have "gives (pe (next_tok (next_tok s))) e ((tokPunct, '')'') # rest)"
    by (rule readsD [OF assms(2) u]) (use 1(2) in \<open>auto simp: follow_def pfollow_def cont_ops_def cmp_ops_def\<close>)
  then have "gives (bindP (pe (next_tok (next_tok s))) (\<lambda>arg s. bindP (expectPunct '')'' s) (\<lambda>_ s. ret (Func x False (Some arg)) s)))
      (Func x False (Some e)) rest" by (rule gives_close) simp
  then show "gives (parsePrimary pe s) (Func x False (Some e)) rest"
    using name_head [OF s, of pe] t u pr_head [of e] assms(1) by (simp add: parse_name_def sees_at)
qed

definition operand_ok :: "expr \<Rightarrow> bool" where
  "operand_ok e \<longleftrightarrow> ok_expr e \<and> (\<forall>n. reads (parsePrimary (parseExpr n)) pr (Suc n) pfollow e)"

lemma operand_okD: "operand_ok e \<Longrightarrow> reads (parseExpr n) pr n follow e"
  by (rule reads_expr) (auto simp: operand_ok_def)

lemma operand_prim:
  assumes "operand_ok e" "sees s (pr e @ rest)" "length (pr e @ rest) < Suc n" "pfollow (hdk rest)"
  shows "prim (parseExpr n) s e rest"
  by (rule operand [OF _ _ assms(2,3,4)]) (use assms(1) in \<open>auto simp: operand_ok_def\<close>)

lemma close_ok [simp]: "(tokPunct, '')'') \<notin> cont_ops" "pfollow (tokPunct, '')'')" "follow (tokPunct, '')'')"
  by (auto simp: cont_ops_def pfollow_def follow_def cmp_ops_def)

lemma reads_two:
  assumes "operand_ok l" "operand_ok r" "pfollow t" "pr e = (tokPunct, ''('') # (pr l @ t # pr r) @ [(tokPunct, '')'')]"
    and "\<And>pe ps s n ys zs. prim pe s l (t # ys) \<Longrightarrow> (\<And>s. sees s ys \<Longrightarrow> prim pe s r zs) \<Longrightarrow> hdk zs \<notin> cont_ops \<Longrightarrow>
      gives (parseOr (Suc (Suc n)) pe ps s) e zs"
  shows "reads (parsePrimary (parseExpr n)) pr (Suc n) pfollow e"
proof (rule reads_paren [OF _ assms(4)], goal_cases)
  case (1 n s rest)
  show ?case
    by (rule assms(5), rule operand_prim [OF assms(1)], use 1(1) in simp)
      (use 1(2) assms(3) in \<open>auto intro!: operand_prim [OF assms(2)]\<close>)
qed simp

lemma reads_cmp:
  assumes "operand_ok l" "operand_ok r" "ok_expr (Cmp x l r)"
  shows "operand_ok (Cmp x l r)"
proof -
  have "reads (parsePrimary (parseExpr n)) pr (Suc n) pfollow (Cmp x l r)" for n
  proof (rule reads_two [OF assms(1,2), of "(tokPunct, x)"], goal_cases)
    case (3 pe ps s n ys zs)
    show ?case by (rule cmp_body [OF 3(1) _ 3(2,3)]) (use assms(3) in auto)
  qed (use assms(3) in \<open>auto simp: pfollow_def cmp_ops_def bin_ops_def\<close>)
  then show ?thesis using assms(3) by (simp add: operand_ok_def)
qed

lemma reads_binary:
  assumes "operand_ok l" "operand_ok r" "ok_expr (Binary x l r)"
  shows "operand_ok (Binary x l r)"
proof -
  have "reads (parsePrimary (parseExpr n)) pr (Suc n) pfollow (Binary x l r)" for n
  proof (rule reads_two [OF assms(1,2), of "(tokPunct, x)"], goal_cases)
    case (3 pe ps s n ys zs)
    show ?case by (rule binary_body [OF 3(1) _ 3(2,3)]) (use assms(3) in auto)
  qed (use assms(3) in \<open>auto simp: pfollow_def cmp_ops_def bin_ops_def\<close>)
  then show ?thesis using assms(3) by (simp add: operand_ok_def)
qed

lemma reads_and:
  assumes "operand_ok l" "operand_ok r" "ok_expr (And l r)"
  shows "operand_ok (And l r)"
proof -
  have "reads (parsePrimary (parseExpr n)) pr (Suc n) pfollow (And l r)" for n
  proof (rule reads_two [OF assms(1,2), of "(tokIdent, ''and'')"], goal_cases)
    case (3 pe ps s n ys zs)
    show ?case by (rule and_body [OF 3]) (use assms(3) in auto)
  qed (use assms(3) in \<open>auto simp: pfollow_def cmp_ops_def bin_ops_def\<close>)
  then show ?thesis using assms(3) by (simp add: operand_ok_def)
qed

lemma reads_or:
  assumes "operand_ok l" "operand_ok r" "ok_expr (Or l r)"
  shows "operand_ok (Or l r)"
proof -
  have "reads (parsePrimary (parseExpr n)) pr (Suc n) pfollow (Or l r)" for n
  proof (rule reads_two [OF assms(1,2), of "(tokIdent, ''or'')"], goal_cases)
    case (3 pe ps s n ys zs)
    show ?case by (rule or_body [OF 3]) (use assms(3) in auto)
  qed (use assms(3) in \<open>auto simp: pfollow_def cmp_ops_def bin_ops_def\<close>)
  then show ?thesis using assms(3) by (simp add: operand_ok_def)
qed

lemma reads_not: "operand_ok e \<Longrightarrow> operand_ok (NotE e)"
proof -
  assume e: "operand_ok e"
  have "reads (parsePrimary (parseExpr n)) pr (Suc n) pfollow (NotE e)" for n
  proof (rule reads_paren [of "(tokIdent, ''not'') # pr e"], goal_cases)
    case (1 n s rest)
    show ?case by (rule not_body [OF 1(1) [simplified]]) (use 1(2) in \<open>auto intro!: operand_prim [OF e]\<close>)
  qed auto
  then show ?thesis using e by (simp add: operand_ok_def)
qed

lemma reads_is_null: "operand_ok e \<Longrightarrow> operand_ok (IsNullE e nt)"
proof -
  assume e: "operand_ok e"
  have "reads (parsePrimary (parseExpr n)) pr (Suc n) pfollow (IsNullE e nt)" for n
  proof (rule reads_paren [of "pr e @ (tokIdent, ''is'') # (if nt then [(tokIdent, ''not'')] else []) @ [(tokIdent, ''null'')]"], goal_cases)
    case (1 n s rest)
    show ?case by (rule is_null_body, rule operand_prim [OF e]) (use 1 in \<open>auto simp: pfollow_def\<close>)
  qed auto
  then show ?thesis using e by (simp add: operand_ok_def)
qed

lemma parse_in_list:
  assumes "sees s ((tokPunct, ''('') # commas (map pr xs) @ (tokPunct, '')'') # rest)" "xs \<noteq> []" "list_all ok_expr xs"
    and "\<forall>x\<in>set xs. reads pe pr k follow x" "length (commas (map pr xs) @ (tokPunct, '')'') # rest) < k" "k \<le> n"
  shows "gives (parse_in n pe ps e nt s) (InList e xs nt) rest"
  unfolding parse_in_def
proof (rule gives_bind [OF gives_punct [OF assms(1)]], goal_cases)
  case (1 t)
  obtain y ys where xs: "xs = y # ys" using assms(2) by (cases xs) auto
  have "hdk (commas (map pr xs) @ (tokPunct, '')'') # rest) = hdk (pr y)" using xs by (cases ys) auto
  then have "\<not> atKw ''select'' t" using sees_at [OF 1, of tokIdent "''select''"] pr_head [of y] xs assms(3) by auto
  moreover have "gives (bindP (sepBy n pe t) (\<lambda>xs s. bindP (expectPunct '')'' s) (\<lambda>_ s. ret (InList e xs nt) s))) (InList e xs nt) rest"
    by (rule gives_close [OF reads_sepBy [of xs pe pr k follow]])
      (use assms 1 in \<open>auto simp: follow_def pfollow_def cont_ops_def cmp_ops_def\<close>)
  ultimately show ?case by simp
qed

lemma reads_in_list: 
  assumes "operand_ok e" "\<forall>x\<in>set xs. operand_ok x" "xs \<noteq> []"
  shows "operand_ok (InList e xs nt)"
proof -
  have "reads (parsePrimary (parseExpr n)) pr (Suc n) pfollow (InList e xs nt)" for n
  proof (rule reads_paren [of "pr e @ (if nt then [(tokIdent, ''not'')] else []) @ (tokIdent, ''in'') # (tokPunct, ''('') # commas (map pr xs) @ [(tokPunct, '')'')]"], goal_cases)
    case (1 n s rest)
    show ?case
    proof (rule in_body, rule operand_prim [OF assms(1)], use 1(1) in \<open>simp split del: if_split\<close>, goal_cases)
      case (4 t)
      show ?case by (rule parse_in_list [OF 4, where k = "Suc n"]) (use 1(2) assms in \<open>auto simp: list_all_iff operand_ok_def intro: operand_okD\<close>)
    qed (use 1(2) in \<open>auto simp: pfollow_def\<close>)
  qed auto
  then show ?thesis using assms by (simp add: operand_ok_def list_all_iff)
qed

definition select_ok :: "select \<Rightarrow> bool" where
  "select_ok q \<longleftrightarrow> ok_select q \<and> (\<forall>n. reads (parseSelect n) pr_select n sel_end q)"

lemma hdk_pr_select [simp]: "hdk (pr_select q @ rest) = (tokIdent, ''select'')"
  by (cases q) simp

lemma reads_in_sub:
  assumes "operand_ok e" "select_ok q"
  shows "operand_ok (InSub e q nt)"
proof -
  have "reads (parsePrimary (parseExpr n)) pr (Suc n) pfollow (InSub e q nt)" for n
  proof (rule reads_paren [of "pr e @ (if nt then [(tokIdent, ''not'')] else []) @ (tokIdent, ''in'') # (tokPunct, ''('') # pr_select q @ [(tokPunct, '')'')]"], goal_cases)
    case (1 n s rest)
    show ?case
    proof (rule in_body, rule operand_prim [OF assms(1)], use 1(1) in \<open>simp split del: if_split\<close>, goal_cases)
      case (4 t)
      show ?case unfolding parse_in_def
      proof (rule gives_bind [OF gives_punct [OF 4]], goal_cases)
        case (1 u)
        have "gives (parseSelect (Suc n) u) q ((tokPunct, '')'') # (tokPunct, '')'') # rest)"
          by (rule readsD [of _ pr_select "Suc n" sel_end]) (use assms(2) 1 \<open>length _ < _\<close> in \<open>auto simp: select_ok_def sel_end_def simp del: parseSelect.simps\<close>)
        then have "gives (bindP (parseSelect (Suc n) u) (\<lambda>sub s. bindP (expectPunct '')'' s) (\<lambda>_ s. ret (InSub e sub nt) s)))
            (InSub e q nt) ((tokPunct, '')'') # rest)" by (rule gives_close) simp
        then show ?case using sees_at [OF 1, of tokIdent "''select''"] by simp
      qed
    qed (use 1(2) in \<open>auto simp: pfollow_def\<close>)
  qed auto
  then show ?thesis using assms by (simp add: operand_ok_def select_ok_def)
qed

section \<open>SELECT\<close>

lemma reads_ref_table:
  assumes "ident_wf t" "ident_wf al"
  shows "reads (parseTableRef ps) pr_ref k (\<lambda>_. True) (TableRef t al None)"
proof (rule readsI)
  fix s rest assume "sees s (pr_ref (TableRef t al None) @ rest)"
  then have s: "sees s ((tokIdent, t) # (tokIdent, ''as'') # (tokIdent, al) # rest)" by simp
  have al: "gives (parse_alias ''alias'' t u) al rest" if u: "sees u ((tokIdent, ''as'') # (tokIdent, al) # rest)" for u
    using gives_ident [OF sees_next [OF u]] takeKw_sees [OF u, of "''as''"] by (simp add: parse_alias_def)
  have "gives (bindP (identOrErr ''table name'' s) (\<lambda>name s. bindP (parse_alias ''alias'' name s) (\<lambda>al s. ret (TableRef name al None) s)))
      (TableRef t al None) rest"
    by (intro gives_bind [OF gives_ident [OF s]] gives_bind [OF al]) auto
  then show "gives (parseTableRef ps s) (TableRef t al None) rest" using s by (simp add: parseTableRef_def sees_at)
qed

lemma reads_ref_sub:
  assumes "reads ps pr_select k sel_end q" "ident_wf al"
  shows "reads (parseTableRef ps) pr_ref k (\<lambda>_. True) (TableRef [] al (Some q))"
proof (rule readsI)
  fix s rest assume 1: "sees s (pr_ref (TableRef [] al (Some q)) @ rest)" "length (pr_ref (TableRef [] al (Some q)) @ rest) < k"
  then have s: "sees s ((tokPunct, ''('') # pr_select q @ (tokPunct, '')'') # (tokIdent, ''as'') # (tokIdent, al) # rest)" by simp
  have al: "gives (parse_alias ''derived table alias'' [] u) al rest" if u: "sees u ((tokIdent, ''as'') # (tokIdent, al) # rest)" for u
    using gives_ident [OF sees_next [OF u]] takeKw_sees [OF u, of "''as''"] by (simp add: parse_alias_def)
  have q: "gives (ps (next_tok s)) q ((tokPunct, '')'') # (tokIdent, ''as'') # (tokIdent, al) # rest)"
    by (rule readsD [OF assms(1) sees_next [OF s]]) (use 1(2) in \<open>auto simp: sel_end_def\<close>)
  have "al \<noteq> []" using assms(2) by (auto simp: ident_wf_def)
  then have "gives (bindP (ps (next_tok s)) (\<lambda>sub s. bindP (expectPunct '')'' s) (\<lambda>_ s. bindP (parse_alias ''derived table alias'' [] s) (\<lambda>al s.
      if al = [] then errf AliasRequired s else ret (TableRef [] al (Some sub)) s)))) (TableRef [] al (Some q)) rest"
    by (intro gives_close [OF q] gives_bind [OF al]) auto
  then show "gives (parseTableRef ps s) (TableRef [] al (Some q)) rest"
    using s sees_next [OF s] by (simp add: parseTableRef_def sees_at)
qed

definition pr_field :: "expr \<times> string \<Rightarrow> ktok list" where
  "pr_field = (\<lambda>(e, al). pr e @ (if al = [] then [] else [(tokIdent, ''as''), (tokIdent, al)]))"

lemma reads_field:
  assumes "reads pe pr k follow e"
  shows "reads (parse_field pe) pr_field k (\<lambda>t. t \<in> {(tokPunct, '',''), (tokIdent, ''from'')}) (e, al)"
proof (rule readsI)
  fix s rest
  assume s: "sees s (pr_field (e, al) @ rest)" "length (pr_field (e, al) @ rest) < k" "hdk rest \<in> {(tokPunct, '',''), (tokIdent, ''from'')}"
  let ?a = "if al = [] then [] else [(tokIdent, ''as''), (tokIdent, al)]"
  have e: "gives (pe s) e (?a @ rest)"
    by (rule readsD [OF assms]) (use s in \<open>auto simp: pr_field_def follow_def pfollow_def cont_ops_def cmp_ops_def\<close>)
  have a: "gives (parseOptionalAlias t) al rest" if t: "sees t (?a @ rest)" for t
  proof (cases "al = []")
    case True
    then have t: "sees t rest" using t by simp
    have "tok_kind (peek t) = tokIdent \<Longrightarrow> tok_text (peek t) = ''from''"
      using sees_kind [OF t] sees_text [of t tokIdent] t s(3) by (cases rest) auto
    then show ?thesis using sees_at [OF t, of tokIdent "''as''"] s(3) t True by (auto simp: parseOptionalAlias_def fieldStopWords_def)
  next
    case False
    then have t: "sees t ((tokIdent, ''as'') # (tokIdent, al) # rest)" using t by simp
    then show ?thesis using gives_ident [OF sees_next [OF t]] by (simp add: parseOptionalAlias_def sees_at)
  qed
  show "gives (parse_field pe s) (e, al) rest" unfolding parse_field_def by (intro gives_bind [OF e] gives_bind [OF a]) auto
qed

definition ofollow :: "ktok \<Rightarrow> bool" where
  "ofollow t \<longleftrightarrow> follow t \<and> t \<notin> Pair tokIdent ` {''desc'', ''asc''}"

lemma reads_order:
  assumes "reads pe pr k follow e"
  shows "reads (parse_order pe) pr_order k ofollow (OrderTerm e d)"
proof (rule readsI)
  fix s rest
  assume s: "sees s (pr_order (OrderTerm e d) @ rest)" "length (pr_order (OrderTerm e d) @ rest) < k" "ofollow (hdk rest)"
  let ?a = "if d then [(tokIdent, ''desc'')] else []"
  have e: "gives (pe s) e (?a @ rest)"
    by (rule readsD [OF assms]) (use s in \<open>auto simp: ofollow_def follow_def pfollow_def cont_ops_def cmp_ops_def\<close>)
  have "gives (case takeKw ''desc'' t of (d, s) \<Rightarrow> if d then ret (OrderTerm e True) s
       else ret (OrderTerm e False) (snd (takeKw ''asc'' s))) (OrderTerm e d) rest" if t: "sees t (?a @ rest)" for t
    using takeKw_sees [OF t] t s(3) sees_next [of t] by (cases d) (auto simp: ofollow_def)
  then show "gives (parse_order pe s) (OrderTerm e d) rest" unfolding parse_order_def by (intro gives_bind [OF e])
qed

lemma reads_limit:
  assumes "pred_option (\<lambda>k. 0 \<le> k \<and> k \<le> max_int64) lim" "sel_end (hdk rest)"
    and s: "sees s (opt_toks ''limit'' (\<lambda>k. [(tokNum, dec_digits k)]) lim @ rest)"
  shows "gives (clause ''limit'' parse_limit None s) lim rest"
proof (cases lim)
  case None
  then show ?thesis using assms(2) s by (auto simp: clause_def sees_at sel_end_def)
next
  case (Some k)
  have t: "sees (next_tok s) ((tokNum, dec_digits k) # rest)" using s Some sees_next [of s] by simp
  have "CHR ''.'' \<notin> set (dec_digits k)" using dec_digits_digits [of k "CHR ''.''"] assms(1) Some by (auto simp: is_digit_def less_eq_char_def)
  then show ?thesis
    using s Some assms(1) sees_kind [OF t] sees_text [OF t] sees_next [OF t] by (simp add: clause_def sees_at parse_limit_def)
qed

text \<open>What can follow a clause: one of the later clause keywords, or the end of the statement.\<close>

definition tail_in :: "string list \<Rightarrow> ktok \<Rightarrow> bool" where
  "tail_in ws t \<longleftrightarrow> t \<in> Pair tokIdent ` set ws \<or> sel_end t"

lemma tail_opt: "tail_in ws (hdk rest) \<Longrightarrow> tail_in (w # ws) (hdk (opt_toks w f x @ rest))"
  by (cases x) (auto simp: tail_in_def)

lemma tail_by: "tail_in ws (hdk rest) \<Longrightarrow> tail_in (w # ws) (hdk (by_toks w f xs @ rest))"
  by (auto simp: tail_in_def)

lemma tail_follow:
  assumes "tail_in ws t" "set ws \<subseteq> {''where'', ''group'', ''having'', ''order'', ''limit''}"
  shows "ofollow t" "follow t" "t \<noteq> (tokPunct, '','')"
  using assms by (auto simp: tail_in_def sel_end_def ofollow_def follow_def pfollow_def cont_ops_def cmp_ops_def)

lemma commas_nonempty: "xs \<noteq> [] \<Longrightarrow> (\<And>x. f x \<noteq> []) \<Longrightarrow> hdk (commas (map f xs) @ rest) = hdk (f (hd xs))"
  by (cases "map f xs" rule: commas.cases) (auto simp: map_eq_Cons_conv)

lemma reads_fields:
  assumes "star \<longleftrightarrow> fs = []" "\<forall>f\<in>set fs. ok_expr (fst f) \<and> reads pe pr k follow (fst f)"
    and s: "sees s ((if star then [(tokPunct, ''*'')] else commas (map pr_field fs)) @ (tokIdent, ''from'') # rest)"
    and k: "length ((if star then [(tokPunct, ''*'')] else commas (map pr_field fs)) @ (tokIdent, ''from'') # rest) < k" "k \<le> n"
  shows "atPunct ''*'' s = star" "gives (if star then ret [] (next_tok s) else sepBy n (parse_field pe) s) fs ((tokIdent, ''from'') # rest)"
proof -
  have "hdk (pr_field (hd fs)) \<noteq> (tokPunct, ''*'')" if "fs \<noteq> []"
    using assms(2) that pr_head [of "fst (hd fs)"] by (cases fs) (auto simp: pr_field_def)
  moreover have "pr_field f \<noteq> []" for f by (cases f) (simp add: pr_field_def)
  ultimately show "atPunct ''*'' s = star"
    using sees_at [OF s, of tokPunct "''*''"] assms(1) commas_nonempty [of fs pr_field] by (cases star) auto
  show "gives (if star then ret [] (next_tok s) else sepBy n (parse_field pe) s) fs ((tokIdent, ''from'') # rest)"
  proof (cases star)
    case True
    then show ?thesis using s sees_next [of s] assms(1) by simp
  next
    case False
    have "gives (sepBy n (parse_field pe) s) fs ((tokIdent, ''from'') # rest)"
      by (rule reads_sepBy [of fs _ pr_field k "\<lambda>t. t \<in> {(tokPunct, '',''), (tokIdent, ''from'')}"])
        (use assms False in \<open>auto intro!: reads_field simp del: insert_iff\<close>)
    then show ?thesis using False by simp
  qed
qed

lemma map2_pr_field: "length als = length flds \<Longrightarrow>
  map2 (\<lambda>f al. f @ (if al = [] then [] else [(tokIdent, ''as''), (tokIdent, al)])) (map pr flds) als = map pr_field (zip flds als)"
  by (induction als flds rule: list_induct2) (auto simp: pr_field_def)

text \<open>The tail of a statement from each optional clause on.\<close>

definition t_limit :: "int64 option \<Rightarrow> ktok list \<Rightarrow> ktok list" where
  "t_limit lim rest = opt_toks ''limit'' (\<lambda>k. [(tokNum, dec_digits k)]) lim @ rest"

definition t_order :: "orderterm list \<Rightarrow> int64 option \<Rightarrow> ktok list \<Rightarrow> ktok list" where
  "t_order ord lim rest = by_toks ''order'' pr_order ord @ t_limit lim rest"

definition t_having :: "expr option \<Rightarrow> orderterm list \<Rightarrow> int64 option \<Rightarrow> ktok list \<Rightarrow> ktok list" where
  "t_having hv ord lim rest = opt_toks ''having'' pr hv @ t_order ord lim rest"

definition t_group :: "expr list \<Rightarrow> expr option \<Rightarrow> orderterm list \<Rightarrow> int64 option \<Rightarrow> ktok list \<Rightarrow> ktok list" where
  "t_group grp hv ord lim rest = by_toks ''group'' pr grp @ t_having hv ord lim rest"

definition t_where :: "expr option \<Rightarrow> expr list \<Rightarrow> expr option \<Rightarrow> orderterm list \<Rightarrow> int64 option \<Rightarrow> ktok list \<Rightarrow> ktok list" where
  "t_where wh grp hv ord lim rest = opt_toks ''where'' pr wh @ t_group grp hv ord lim rest"

lemmas t_defs = t_limit_def t_order_def t_having_def t_group_def t_where_def

lemma t_heads:
  assumes "sel_end (hdk rest)"
  shows "tail_in [''limit''] (hdk (t_limit lim rest))"
    and "tail_in [''order'', ''limit''] (hdk (t_order ord lim rest))"
    and "tail_in [''having'', ''order'', ''limit''] (hdk (t_having hv ord lim rest))"
    and "tail_in [''group'', ''having'', ''order'', ''limit''] (hdk (t_group grp hv ord lim rest))"
    and "tail_in [''where'', ''group'', ''having'', ''order'', ''limit''] (hdk (t_where wh grp hv ord lim rest))"
proof -
  have "tail_in [] (hdk rest)" using assms by (simp add: tail_in_def)
  note 1 = tail_opt [OF this, where w = "''limit''" and f = "\<lambda>k. [(tokNum, dec_digits k)]"]
  note 2 = tail_by [OF 1, where w = "''order''" and f = pr_order]
  note 3 = tail_opt [OF 2, where w = "''having''" and f = pr]
  note 4 = tail_by [OF 3, where w = "''group''" and f = pr]
  note 5 = tail_opt [OF 4, where w = "''where''" and f = pr]
  show "tail_in [''limit''] (hdk (t_limit lim rest))"
    and "tail_in [''order'', ''limit''] (hdk (t_order ord lim rest))"
    and "tail_in [''having'', ''order'', ''limit''] (hdk (t_having hv ord lim rest))"
    and "tail_in [''group'', ''having'', ''order'', ''limit''] (hdk (t_group grp hv ord lim rest))"
    and "tail_in [''where'', ''group'', ''having'', ''order'', ''limit''] (hdk (t_where wh grp hv ord lim rest))"
    unfolding t_defs by (rule 1 2 3 4 5)+
qed

lemma stage_order:
  assumes "\<forall>x\<in>set ord. reads pe pr k follow (ot_Expr x)" "sel_end (hdk rest)" "k \<le> n"
    and "sees t (t_order ord lim rest)" "length (t_order ord lim rest) < k"
  shows "gives (clause ''order'' (by_list n (parse_order pe)) [] t) ord (t_limit lim rest)"
proof (rule reads_by [of _ _ pr_order k ofollow])
  show "\<forall>x\<in>set ord. reads (parse_order pe) pr_order k ofollow x"
    using assms(1) reads_order by (metis orderterm.exhaust_sel)
  show "ofollow (hdk (t_limit lim rest))" by (rule tail_follow(1) [OF t_heads(1) [OF assms(2)]]) simp
  show "hdk (t_limit lim rest) \<notin> {(tokIdent, ''order''), (tokPunct, '','')}"
    using t_heads(1) [OF assms(2), of lim] by (auto simp: tail_in_def sel_end_def)
qed (use assms in \<open>auto simp: t_order_def ofollow_def follow_def pfollow_def cont_ops_def cmp_ops_def\<close>)

lemma stage_having:
  assumes "pred_option (reads pe pr k follow) hv" "sel_end (hdk rest)"
    and "sees t (t_having hv ord lim rest)" "length (t_having hv ord lim rest) < k"
  shows "gives (opt_expr ''having'' pe t) hv (t_order ord lim rest)"
proof (rule reads_opt_expr [of _ pr k follow])
  show "follow (hdk (t_order ord lim rest))" by (rule tail_follow(2) [OF t_heads(2) [OF assms(2)]]) simp
  show "hdk (t_order ord lim rest) \<noteq> (tokIdent, ''having'')"
    using t_heads(2) [OF assms(2), of ord lim] by (auto simp: tail_in_def sel_end_def)
qed (use assms in \<open>auto simp: t_having_def\<close>)

lemma stage_group:
  assumes "\<forall>x\<in>set grp. reads pe pr k follow x" "sel_end (hdk rest)" "k \<le> n"
    and "sees t (t_group grp hv ord lim rest)" "length (t_group grp hv ord lim rest) < k"
  shows "gives (clause ''group'' (by_list n pe) [] t) grp (t_having hv ord lim rest)"
proof (rule reads_by [of _ _ pr k follow])
  show "follow (hdk (t_having hv ord lim rest))" by (rule tail_follow(2) [OF t_heads(3) [OF assms(2)]]) simp
  show "hdk (t_having hv ord lim rest) \<notin> {(tokIdent, ''group''), (tokPunct, '','')}"
    using t_heads(3) [OF assms(2), of hv ord lim] by (auto simp: tail_in_def sel_end_def)
qed (use assms in \<open>auto simp: t_group_def follow_def pfollow_def cont_ops_def cmp_ops_def\<close>)

lemma stage_where:
  assumes "pred_option (reads pe pr k follow) wh" "sel_end (hdk rest)"
    and "sees t (t_where wh grp hv ord lim rest)" "length (t_where wh grp hv ord lim rest) < k"
  shows "gives (opt_expr ''where'' pe t) wh (t_group grp hv ord lim rest)"
proof (rule reads_opt_expr [of _ pr k follow])
  show "follow (hdk (t_group grp hv ord lim rest))" by (rule tail_follow(2) [OF t_heads(4) [OF assms(2)]]) simp
  show "hdk (t_group grp hv ord lim rest) \<noteq> (tokIdent, ''where'')"
    using t_heads(4) [OF assms(2), of grp hv ord lim] by (auto simp: tail_in_def sel_end_def)
qed (use assms in \<open>auto simp: t_where_def\<close>)

lemma stage_joins:
  assumes "length rs = length ons" "length ons = length kinds" "\<forall>r\<in>set rs. reads (parseTableRef ps) pr_ref k (\<lambda>_. True) r"
    and "\<forall>e\<in>set ons. reads pe pr k follow e" "\<forall>x\<in>set kinds. x = ''inner'' \<or> x = ''left''" "sel_end (hdk rest)" "k \<le> n"
    and "sees t (join_toks (map pr_ref rs) (map pr ons) kinds @ t_where wh grp hv ord lim rest)"
    and "length (join_toks (map pr_ref rs) (map pr ons) kinds @ t_where wh grp hv ord lim rest) < k"
  shows "gives (joinLoop n pe ps t) (zip rs (zip ons kinds)) (t_where wh grp hv ord lim rest)"
proof (rule reads_joins [OF assms(1-5), of "t_where wh grp hv ord lim rest"])
  show "follow (hdk (t_where wh grp hv ord lim rest))" by (rule tail_follow(2) [OF t_heads(5) [OF assms(6)]]) simp
  show "hdk (t_where wh grp hv ord lim rest) \<notin> Pair tokIdent ` {''join'', ''inner'', ''left''}"
    using t_heads(5) [OF assms(6), of wh grp hv ord lim] by (auto simp: tail_in_def sel_end_def)
qed (use assms(7-9) in \<open>auto simp: follow_def pfollow_def cont_ops_def cmp_ops_def\<close>)

lemma select_chain:
  assumes "atPunct ''*'' (next_tok s) = star"
    and "gives (if star then ret [] (next_tok (next_tok s)) else sepBy n (parse_field pe) (next_tok s)) fs ((tokIdent, ''from'') # X)"
    and "\<And>t. sees t X \<Longrightarrow> gives (parseTableRef ps t) r T0" "\<And>t. sees t T0 \<Longrightarrow> gives (joinLoop n pe ps t) js T1"
    and "\<And>t. sees t T1 \<Longrightarrow> gives (opt_expr ''where'' pe t) wh T2" "\<And>t. sees t T2 \<Longrightarrow> gives (clause ''group'' (by_list n pe) [] t) grp T3"
    and "\<And>t. sees t T3 \<Longrightarrow> gives (opt_expr ''having'' pe t) hv T4"
    and "\<And>t. sees t T4 \<Longrightarrow> gives (clause ''order'' (by_list n (parse_order pe)) [] t) ord T5"
    and "\<And>t. sees t T5 \<Longrightarrow> gives (clause ''limit'' parse_limit None t) lim rest"
  shows "gives (parse_select_body n pe ps s) (Select (r # map fst js) (map (fst \<circ> snd) js) (map (snd \<circ> snd) js) star
      (map fst fs) (map snd fs) wh grp hv ord lim) rest"
  unfolding parse_select_body_def Let_def assms(1)
  by (rule gives_bind [OF assms(2)], rule gives_bind [OF gives_kw], assumption, rule gives_bind [OF assms(3)], assumption,
      rule gives_bind [OF assms(4)], assumption, rule gives_bind [OF assms(5)], assumption, rule gives_bind [OF assms(6)], assumption,
      rule gives_bind [OF assms(7)], assumption, rule gives_bind [OF assms(8)], assumption, rule gives_bind [OF assms(9)], assumption) simp

lemma select_body_reads:
  assumes ok: "ok_select (Select (r # rs) ons kinds star flds als wh grp hv ord lim)"
    and E: "\<forall>e\<in>set ons \<union> set flds \<union> set_option wh \<union> set grp \<union> set_option hv \<union> ot_Expr ` set ord. operand_ok e"
    and R: "\<forall>x\<in>set (r # rs). reads (parseTableRef (parseSelect m)) pr_ref m (\<lambda>_. True) x"
    and s: "sees s (pr_select (Select (r # rs) ons kinds star flds als wh grp hv ord lim) @ rest)" "sel_end (hdk rest)"
    and m: "length (pr_select (Select (r # rs) ons kinds star flds als wh grp hv ord lim) @ rest) \<le> m"
  shows "gives (parse_select_body (Suc m) (parseExpr m) (parseSelect m) s) (Select (r # rs) ons kinds star flds als wh grp hv ord lim) rest"
proof -
  define fs where "fs = zip flds als"
  define W where "W = t_where wh grp hv ord lim rest"
  define J where "J = join_toks (map pr_ref rs) (map pr ons) kinds @ W"
  let ?F = "if star then [(tokPunct, ''*'')] else commas (map pr_field fs)"
  have len: "length rs = length ons" "length ons = length kinds" "length als = length flds" using ok by auto
  have fs: "map fst fs = flds" "map snd fs = als" "star \<longleftrightarrow> fs = []" using ok len by (auto simp: fs_def)
  have js: "map fst (zip rs (zip ons kinds)) = rs" "map (fst \<circ> snd) (zip rs (zip ons kinds)) = ons" "map (snd \<circ> snd) (zip rs (zip ons kinds)) = kinds"
    using len by (simp_all add: map_map [symmetric] del: map_map)
  have pr_q: "pr_select (Select (r # rs) ons kinds star flds als wh grp hv ord lim) @ rest
      = (tokIdent, ''select'') # ?F @ (tokIdent, ''from'') # pr_ref r @ J"
    by (simp add: W_def J_def t_defs fs_def map2_pr_field len)
  have s1: "sees (next_tok s) (?F @ (tokIdent, ''from'') # pr_ref r @ J)" using s(1) unfolding pr_q by (rule sees_next)
  have l: "Suc (length ?F + length (pr_ref r) + length J) < m" "length W \<le> length J" using m unfolding pr_q J_def by auto
  have rd: "reads (parseExpr m) pr m follow e" if "operand_ok e" for e by (rule operand_okD [OF that])
  have fld: "ok_expr (fst f) \<and> reads (parseExpr m) pr m follow (fst f)" if "f \<in> set fs" for f
    using E that rd [of "fst f"] unfolding fs(1) [symmetric] by (simp add: operand_ok_def)
  have "gives (parse_select_body (Suc m) (parseExpr m) (parseSelect m) s) (Select (r # map fst (zip rs (zip ons kinds)))
      (map (fst \<circ> snd) (zip rs (zip ons kinds))) (map (snd \<circ> snd) (zip rs (zip ons kinds))) star (map fst fs) (map snd fs) wh grp hv ord lim) rest"
  proof (rule select_chain)
    show "atPunct ''*'' (next_tok s) = star" by (rule reads_fields(1) [where pe = "parseExpr m" and k = m and n = m, OF fs(3) _ s1]) (use fld l in auto)
    show "gives (if star then ret [] (next_tok (next_tok s)) else sepBy (Suc m) (parse_field (parseExpr m)) (next_tok s)) fs
        ((tokIdent, ''from'') # pr_ref r @ J)" by (rule reads_fields(2) [where k = m, OF fs(3) _ s1]) (use fld l in auto)
    show "gives (parseTableRef (parseSelect m) t) r J" if "sees t (pr_ref r @ J)" for t
      by (rule readsD [of _ pr_ref m "\<lambda>_. True", OF _ that]) (use R l in auto)
    show "gives (joinLoop (Suc m) (parseExpr m) (parseSelect m) t) (zip rs (zip ons kinds)) W" if "sees t J" for t
      unfolding W_def by (rule stage_joins [where k = m]) (use ok E R len rd s(2) l that in \<open>auto simp: J_def W_def list_all_iff\<close>)
    show "gives (opt_expr ''where'' (parseExpr m) t) wh (t_group grp hv ord lim rest)" if "sees t W" for t
      by (rule stage_where [where k = m]) (use E rd s(2) l that in \<open>auto simp: W_def option.pred_set\<close>)
    show "gives (clause ''group'' (by_list (Suc m) (parseExpr m)) [] t) grp (t_having hv ord lim rest)" if "sees t (t_group grp hv ord lim rest)" for t
      by (rule stage_group [where k = m, OF _ s(2) _ that]) (use E rd l in \<open>auto simp: W_def t_where_def\<close>)
    show "gives (opt_expr ''having'' (parseExpr m) t) hv (t_order ord lim rest)" if "sees t (t_having hv ord lim rest)" for t
      by (rule stage_having [where k = m, OF _ s(2) that]) (use E rd l in \<open>auto simp: W_def t_where_def t_group_def option.pred_set\<close>)
    show "gives (clause ''order'' (by_list (Suc m) (parse_order (parseExpr m))) [] t) ord (t_limit lim rest)" if "sees t (t_order ord lim rest)" for t
      by (rule stage_order [where k = m, OF _ s(2) _ that]) (use E rd l in \<open>auto simp: W_def t_where_def t_group_def t_having_def\<close>)
    show "gives (clause ''limit'' parse_limit None t) lim rest" if "sees t (t_limit lim rest)" for t
      by (rule reads_limit [OF _ s(2) that [unfolded t_limit_def]]) (use ok in auto)
  qed
  then show ?thesis unfolding js fs .
qed

lemma reads_select:
  assumes "ok_select (Select tabs ons kinds star flds als wh grp hv ord lim)"
    and "\<forall>e\<in>set ons \<union> set flds \<union> set_option wh \<union> set grp \<union> set_option hv \<union> ot_Expr ` set ord. operand_ok e"
    and "\<forall>x\<in>set tabs. \<forall>m. reads (parseTableRef (parseSelect m)) pr_ref m (\<lambda>_. True) x"
  shows "select_ok (Select tabs ons kinds star flds als wh grp hv ord lim)"
proof -
  obtain r rs where tabs: "tabs = r # rs" using assms(1) by (cases tabs) auto
  have "reads (parseSelect n) pr_select n sel_end (Select tabs ons kinds star flds als wh grp hv ord lim)" for n
  proof (rule readsI, goal_cases)
    case (1 s rest)
    then obtain m where m: "n = Suc m" by (cases n) auto
    show ?case unfolding m tabs parseSelect.simps
      by (rule select_body_reads) (use assms 1 m tabs in \<open>simp_all del: ok_select.simps pr_select.simps\<close>)
  qed
  then show ?thesis using assms(1) by (simp add: select_ok_def)
qed

definition ref_ok :: "tableref \<Rightarrow> bool" where
  "ref_ok r \<longleftrightarrow> (\<forall>m. reads (parseTableRef (parseSelect m)) pr_ref m (\<lambda>_. True) r)"

theorem printed_reads:
  "ok_expr e \<Longrightarrow> operand_ok e" "ok_select q \<Longrightarrow> select_ok q" "ok_ref r \<Longrightarrow> ref_ok r" "ok_order x \<Longrightarrow> operand_ok (ot_Expr x)"
proof (induction e and q and r and x)
  case (Lit v)
  then show ?case by (auto simp: operand_ok_def intro: reads_lit)
next
  case (ColRef t x)
  then show ?case by (auto simp: operand_ok_def simp del: ok_expr.simps intro: reads_colref)
next
  case (Func x star arg)
  show ?case
  proof (cases arg)
    case None
    then show ?thesis using Func.prems by (auto simp: operand_ok_def simp del: ok_expr.simps intro: reads_func_plain)
  next
    case (Some e)
    then have "operand_ok e" "\<not> star" using Func by auto
    then show ?thesis using Func.prems Some operand_okD [of e] reads_func_arg [of x e] by (simp add: operand_ok_def del: ok_expr.simps)
  qed
next
  case (InList e xs nt)
  then show ?case by (intro reads_in_list) (auto simp: list_all_iff)
next
  case (Select tabs ons kinds star flds als wh grp hv ord lim)
  show ?case
    by (rule reads_select [OF Select.prems]) (use Select in \<open>auto simp: list_all_iff option.pred_set ref_ok_def\<close>)
next
  case (TableRef t al sub)
  then show ?case
    by (cases sub) (auto simp: ref_ok_def select_ok_def intro: reads_ref_table reads_ref_sub)
qed (auto intro!: reads_cmp reads_binary reads_and reads_or reads_not reads_is_null reads_in_sub)

section \<open>Statements\<close>

fun pr_flag :: "bool \<Rightarrow> string list \<Rightarrow> ktok list" where
  "pr_flag b ws = (if b then map (Pair tokIdent) ws else [])"

definition pr_refs :: "columndef \<Rightarrow> ktok list" where
  "pr_refs cd = (if cd_RefTable cd = [] then [] else [kw ''references'', kw (cd_RefTable cd)] @
     (if cd_RefCol cd = [] then [] else [pun ''('', kw (cd_RefCol cd), pun '')'']))"

definition pr_col :: "columndef \<Rightarrow> ktok list" where
  "pr_col cd = kw (cd_Name cd) # kw (cd_Type cd) # pr_flag (cd_Primary cd) [''primary'', ''key''] @
     pr_flag (cd_NotNull cd) [''not'', ''null''] @ pr_flag (cd_AutoInc cd) [''auto_increment''] @
     pr_flag (cd_Unique cd) [''unique''] @ pr_refs cd"

definition pr_tuple :: "expr list \<Rightarrow> ktok list" where
  "pr_tuple xs = pun ''('' # commas (map pr xs) @ [pun '')'']"

definition pr_set :: "string \<times> expr \<Rightarrow> ktok list" where
  "pr_set = (\<lambda>(c, e). kw c # pun ''='' # pr e)"

fun pr_stmt :: "stmt \<Rightarrow> ktok list" where
  "pr_stmt (CreateTable t cds) = kw ''create'' # kw ''table'' # kw t # pun ''('' # commas (map pr_col cds) @ [pun '')'']"
| "pr_stmt (DropTable t ifx) = kw ''drop'' # kw ''table'' # (if ifx then [kw ''if'', kw ''exists''] else []) @ [kw t]"
| "pr_stmt (Insert t cols rows) = kw ''insert'' # kw ''into'' # kw t #
     (if cols = [] then [] else pun ''('' # commas (map (\<lambda>c. [kw c]) cols) @ [pun '')'']) @ kw ''values'' # commas (map pr_tuple rows)"
| "pr_stmt (SelectStmt q) = pr_select q"
| "pr_stmt (Update t sets wh) = kw ''update'' # kw t # kw ''set'' # commas (map pr_set sets) @ opt_toks ''where'' pr wh"
| "pr_stmt (Delete t wh) = kw ''delete'' # kw ''from'' # kw t # opt_toks ''where'' pr wh"
| "pr_stmt Begin = [kw ''begin'']"
| "pr_stmt Commit = [kw ''commit'']"
| "pr_stmt Rollback = [kw ''rollback'']"

definition ok_col :: "columndef \<Rightarrow> bool" where
  "ok_col cd \<longleftrightarrow> ident_wf (cd_Name cd) \<and> ValidTypes (cd_Type cd)
     \<and> (if cd_RefTable cd = [] then cd_RefCol cd = []
        else ident_wf (cd_RefTable cd) \<and> (cd_RefCol cd = [] \<or> ident_wf (cd_RefCol cd)))"

fun ok_stmt :: "stmt \<Rightarrow> bool" where
  "ok_stmt (CreateTable t cds) \<longleftrightarrow> ident_wf t \<and> cds \<noteq> [] \<and> list_all ok_col cds"
| "ok_stmt (DropTable t ifx) \<longleftrightarrow> ident_wf t \<and> (ifx \<or> t \<noteq> ''if'')"
| "ok_stmt (Insert t cols rows) \<longleftrightarrow> ident_wf t \<and> list_all ident_wf cols \<and> rows \<noteq> [] \<and> list_all (list_all ok_expr) rows"
| "ok_stmt (SelectStmt q) \<longleftrightarrow> ok_select q"
| "ok_stmt (Update t sets wh) \<longleftrightarrow> ident_wf t \<and> sets \<noteq> [] \<and> list_all (\<lambda>(c, e). ident_wf c \<and> ok_expr e) sets \<and> pred_option ok_expr wh"
| "ok_stmt (Delete t wh) \<longleftrightarrow> ident_wf t \<and> pred_option ok_expr wh"
| "ok_stmt _ \<longleftrightarrow> True"

lemma expr_reads: "ok_expr e \<Longrightarrow> reads (parseExpr n) pr n follow e"
  by (rule operand_okD [OF printed_reads(1)])

lemma reads_ident: "reads (identOrErr w) (\<lambda>c. [(tokIdent, c)]) k F x"
  by (rule readsI) (auto intro: gives_ident)

lemma reads_tuple:
  assumes "list_all ok_expr xs" "m \<le> n"
  shows "reads (parse_tuple n (parseExpr m)) pr_tuple m (\<lambda>_. True) xs"
proof (rule readsI)
  fix s rest assume s: "sees s (pr_tuple xs @ rest)" "length (pr_tuple xs @ rest) < m"
  have s1: "sees s ((tokPunct, ''('') # commas (map pr xs) @ (tokPunct, '')'') # rest)" using s(1) by (simp add: pr_tuple_def)
  have row: "gives (if \<not> atPunct '')'' t then sepBy n (parseExpr m) t else ret [] t) xs ((tokPunct, '')'') # rest)"
    if t: "sees t (commas (map pr xs) @ (tokPunct, '')'') # rest)" for t
  proof (cases "xs = []")
    case True
    then show ?thesis using t by (simp add: sees_at)
  next
    case False
    then have "\<not> atPunct '')'' t"
      using sees_at [OF t, of tokPunct "'')''"] commas_nonempty [of xs pr] pr_head [of "hd xs"] assms(1) by (cases xs) auto
    moreover have "gives (sepBy n (parseExpr m) t) xs ((tokPunct, '')'') # rest)"
      by (rule reads_sepBy [of xs _ pr m follow])
        (use assms s(2) t False in \<open>auto simp: pr_tuple_def list_all_iff follow_def pfollow_def cont_ops_def cmp_ops_def intro: expr_reads\<close>)
    ultimately show ?thesis by simp
  qed
  show "gives (parse_tuple n (parseExpr m) s) xs rest"
    unfolding parse_tuple_def by (rule gives_bind [OF gives_punct [OF s1]], rule gives_close [OF row]) auto
qed

lemma reads_set:
  assumes "ok_expr e"
  shows "reads (parse_set (parseExpr m)) pr_set m follow (c, e)"
proof (rule readsI)
  fix s rest assume s: "sees s (pr_set (c, e) @ rest)" "length (pr_set (c, e) @ rest) < m" "follow (hdk rest)"
  have s1: "sees s ((tokIdent, c) # (tokPunct, ''='') # pr e @ rest)" using s(1) by (simp add: pr_set_def)
  have e: "gives (parseExpr m t) e rest" if "sees t (pr e @ rest)" for t
    by (rule readsD [OF expr_reads [OF assms] that]) (use s in \<open>auto simp: pr_set_def\<close>)
  show "gives (parse_set (parseExpr m) s) (c, e) rest" unfolding parse_set_def
    by (rule gives_bind [OF gives_ident [OF s1]], rule gives_bind [OF gives_punct], assumption, rule gives_bind [OF e]) auto
qed

text \<open>One column attribute after the other.\<close>

lemma opt_stage:
  assumes s: "sees s (pr_flag b (w # ws) @ X)" "length (pr_flag b (w # ws) @ X) < n"
    and step: "\<And>t m. sees t ((tokIdent, w) # map (Pair tokIdent) ws @ X) \<Longrightarrow>
        col_options (Suc m) cd t = (case ws of [] \<Rightarrow> col_options m (f cd) (next_tok t)
          | v # _ \<Rightarrow> bindP (expectKw v (next_tok t)) (\<lambda>_ s. col_options m (f cd) s))"
    and ws: "length ws \<le> 1"
    and "\<And>t m. sees t X \<Longrightarrow> length X < m \<Longrightarrow> gives (col_options m (if b then f cd else cd) t) r zs"
  shows "gives (col_options n cd s) r zs"
proof (cases b)
  case False
  then show ?thesis using s assms(5) [of s n] by simp
next
  case True
  obtain m where m: "n = Suc m" using s(2) by (cases n) auto
  have s1: "sees s ((tokIdent, w) # map (Pair tokIdent) ws @ X)" using s(1) True by simp
  have k: "gives (col_options m (f cd) t) r zs" if "sees t X" for t
    using assms(5) [OF that, of m] s(2) True m by simp
  show ?thesis
  proof (cases ws)
    case Nil
    then show ?thesis using step [OF s1, of m] k sees_next [OF s1] m by simp
  next
    case (Cons v vs)
    then have v: "sees (next_tok s) ((tokIdent, v) # X)" using sees_next [OF s1] ws by simp
    show ?thesis unfolding m step [OF s1] Cons list.case by (rule gives_bind [OF gives_kw [OF v] k])
  qed
qed

lemma opt_done:
  assumes "sees t rest" "hdk rest \<in> puns ['','', '')'']"
  shows "gives (col_options (Suc k) cd t) cd rest"
proof -
  have "\<not> atKw x t" for x using sees_at [OF assms(1), of tokIdent x] assms(2) by auto
  then show ?thesis using assms(1) by simp
qed

lemma ref_reads:
  assumes t: "sees t ((tokIdent, rt) # (if rc = [] then [] else [(tokPunct, ''(''), (tokIdent, rc), (tokPunct, '')'')]) @ rest)"
    and rest: "hdk rest \<in> puns ['','', '')'']" and cd: "cd_RefCol cd = []"
  shows "gives (parse_ref cd t) (cd\<lparr>cd_RefTable := rt, cd_RefCol := rc\<rparr>) rest"
  unfolding parse_ref_def Let_def
proof (rule gives_bind [OF gives_ident [OF t]], goal_cases)
  case (1 u)
  show ?case
  proof (cases "rc = []")
    case True
    then have "cd\<lparr>cd_RefTable := rt, cd_RefCol := rc\<rparr> = cd\<lparr>cd_RefTable := rt\<rparr>" using cd by simp
    moreover have "\<not> atPunct ''('' u" "sees u rest" using sees_at [OF 1, of tokPunct "''(''"] rest 1 True by auto
    ultimately show ?thesis by simp
  next
    case False
    then have u: "sees u ((tokPunct, ''('') # (tokIdent, rc) # (tokPunct, '')'') # rest)" using 1 by simp
    have "gives (bindP (identOrErr ''referenced column name'' (next_tok u)) (\<lambda>c s. bindP (expectPunct '')'' s)
        (\<lambda>_ s. ret (cd\<lparr>cd_RefTable := rt, cd_RefCol := c\<rparr>) s))) (cd\<lparr>cd_RefTable := rt, cd_RefCol := rc\<rparr>) rest"
      by (rule gives_close [OF gives_ident [OF sees_next [OF u]]]) simp
    then show ?thesis using sees_at [OF u, of tokPunct "''(''"] by simp
  qed
qed

lemma opt_refs:
  assumes s: "sees s (pr_refs cd' @ rest)" "length (pr_refs cd' @ rest) < n" "hdk rest \<in> puns ['','', '')'']"
    and cd': "cd_RefTable cd' = [] \<longrightarrow> cd_RefCol cd' = []" "cd_RefTable cd = []" "cd_RefCol cd = []"
  shows "gives (col_options n cd s) (cd\<lparr>cd_RefTable := cd_RefTable cd', cd_RefCol := cd_RefCol cd'\<rparr>) rest"
proof (cases "cd_RefTable cd' = []")
  case True
  obtain m where m: "n = Suc m" using s(2) by (cases n) auto
  have "cd\<lparr>cd_RefTable := cd_RefTable cd', cd_RefCol := cd_RefCol cd'\<rparr> = cd" using cd' True by simp
  then show ?thesis using opt_done [OF _ s(3), of s m cd] s(1) True m by (simp add: pr_refs_def del: col_options.simps)
next
  case False
  let ?A = "if cd_RefCol cd' = [] then [] else [(tokPunct, ''(''), (tokIdent, cd_RefCol cd'), (tokPunct, '')'')]"
  have s1: "sees s ((tokIdent, ''references'') # (tokIdent, cd_RefTable cd') # ?A @ rest)" using s(1) False by (simp add: pr_refs_def)
  have "2 < n" using s(2) False by (simp add: pr_refs_def)
  then have m: "n = Suc (Suc (n - 2))" by simp
  have at: "atKw x s \<longleftrightarrow> x = ''references''" for x using sees_at [OF s1, of tokIdent x] by auto
  have "gives (bindP (parse_ref cd (next_tok s)) (\<lambda>cd s. col_options (Suc (n - 2)) cd s))
      (cd\<lparr>cd_RefTable := cd_RefTable cd', cd_RefCol := cd_RefCol cd'\<rparr>) rest"
    by (rule gives_bind [OF ref_reads [OF sees_next [OF s1] s(3) cd'(3)] opt_done [OF _ s(3)]])
  then show ?thesis by (subst m, subst col_options.simps(2)) (simp add: at del: col_options.simps)
qed

lemma at_head: "sees t ((tokIdent, w) # xs) \<Longrightarrow> atKw x t \<longleftrightarrow> x = w"
  using sees_at [of t "(tokIdent, w) # xs" tokIdent x] by auto

lemma opt_primary: "sees t ((tokIdent, ''primary'') # map (Pair tokIdent) [''key''] @ X) \<Longrightarrow>
  col_options (Suc m) cd t = (case [''key''] of [] \<Rightarrow> col_options m (cd\<lparr>cd_Primary := True\<rparr>) (next_tok t)
    | v # _ \<Rightarrow> bindP (expectKw v (next_tok t)) (\<lambda>_ s. col_options m (cd\<lparr>cd_Primary := True\<rparr>) s))"
  by (simp add: at_head)

lemma opt_not_null: "sees t ((tokIdent, ''not'') # map (Pair tokIdent) [''null''] @ X) \<Longrightarrow>
  col_options (Suc m) cd t = (case [''null''] of [] \<Rightarrow> col_options m (cd\<lparr>cd_NotNull := True\<rparr>) (next_tok t)
    | v # _ \<Rightarrow> bindP (expectKw v (next_tok t)) (\<lambda>_ s. col_options m (cd\<lparr>cd_NotNull := True\<rparr>) s))"
  by (simp add: at_head)

lemma opt_auto: "sees t ((tokIdent, ''auto_increment'') # map (Pair tokIdent) [] @ X) \<Longrightarrow>
  col_options (Suc m) cd t = (case [] of [] \<Rightarrow> col_options m (cd\<lparr>cd_AutoInc := True\<rparr>) (next_tok t)
    | v # _ \<Rightarrow> bindP (expectKw v (next_tok t)) (\<lambda>_ s. col_options m (cd\<lparr>cd_AutoInc := True\<rparr>) s))"
  by (simp add: at_head)

lemma opt_unique: "sees t ((tokIdent, ''unique'') # map (Pair tokIdent) [] @ X) \<Longrightarrow>
  col_options (Suc m) cd t = (case [] of [] \<Rightarrow> col_options m (cd\<lparr>cd_Unique := True\<rparr>) (next_tok t)
    | v # _ \<Rightarrow> bindP (expectKw v (next_tok t)) (\<lambda>_ s. col_options m (cd\<lparr>cd_Unique := True\<rparr>) s))"
  by (simp add: at_head)

lemma col_options_reads:
  assumes "sees s (pr_flag p [''primary'', ''key''] @ pr_flag nn [''not'', ''null''] @ pr_flag ai [''auto_increment''] @
      pr_flag un [''unique''] @ pr_refs cd' @ rest)" (is "sees s (?A @ ?B @ ?C @ ?D @ ?E)")
    and "length (pr_flag p [''primary'', ''key''] @ pr_flag nn [''not'', ''null''] @ pr_flag ai [''auto_increment''] @
      pr_flag un [''unique''] @ pr_refs cd' @ rest) < n"
    and "hdk rest \<in> puns ['','', '')'']" "cd_RefTable cd' = [] \<longrightarrow> cd_RefCol cd' = []"
  shows "gives (col_options n \<lparr>cd_Name = nm, cd_Type = ty, cd_Primary = False, cd_NotNull = False, cd_AutoInc = False,
        cd_Unique = False, cd_RefTable = [], cd_RefCol = []\<rparr> s)
      \<lparr>cd_Name = nm, cd_Type = ty, cd_Primary = p, cd_NotNull = nn, cd_AutoInc = ai,
        cd_Unique = un, cd_RefTable = cd_RefTable cd', cd_RefCol = cd_RefCol cd'\<rparr> rest"
proof (rule opt_stage [where f = "\<lambda>cd. cd\<lparr>cd_Primary := True\<rparr>", OF assms(1,2)], goal_cases)
  case (1 t m)
  then show ?case by (rule opt_primary)
next
  case (3 s n)
  show ?case
  proof (rule opt_stage [where f = "\<lambda>cd. cd\<lparr>cd_NotNull := True\<rparr>", OF 3], goal_cases)
    case (1 t m)
    then show ?case by (rule opt_not_null)
  next
    case (3 s n)
    show ?case
    proof (rule opt_stage [where f = "\<lambda>cd. cd\<lparr>cd_AutoInc := True\<rparr>", OF 3], goal_cases)
      case (1 t m)
      then show ?case by (rule opt_auto)
    next
      case (3 s n)
      show ?case
      proof (rule opt_stage [where f = "\<lambda>cd. cd\<lparr>cd_Unique := True\<rparr>", OF 3], goal_cases)
        case (1 t m)
        then show ?case by (rule opt_unique)
      next
        case (3 s n)
        then show ?case
          using opt_refs [OF 3 assms(3,4), where cd = "\<lparr>cd_Name = nm, cd_Type = ty, cd_Primary = p, cd_NotNull = nn, cd_AutoInc = ai,
            cd_Unique = un, cd_RefTable = [], cd_RefCol = []\<rparr>"] by (cases p; cases nn; cases ai; cases un) simp_all
      qed simp
    qed simp
  qed simp
qed simp

lemma reads_col:
  assumes "ok_col cd" "m \<le> n"
  shows "reads (parseColumnDef n) pr_col m (\<lambda>t. t \<in> puns ['','', '')'']) cd"
proof (rule readsI)
  fix s rest assume s: "sees s (pr_col cd @ rest)" "length (pr_col cd @ rest) < m" "hdk rest \<in> puns ['','', '')'']"
  let ?X = "pr_flag (cd_Primary cd) [''primary'', ''key''] @ pr_flag (cd_NotNull cd) [''not'', ''null''] @
     pr_flag (cd_AutoInc cd) [''auto_increment''] @ pr_flag (cd_Unique cd) [''unique''] @ pr_refs cd @ rest"
  have s1: "sees s ((tokIdent, cd_Name cd) # (tokIdent, cd_Type cd) # ?X)" using s(1) by (simp add: pr_col_def)
  have l: "length ?X < n" using s(2) assms(2) by (simp add: pr_col_def)
  have o: "gives (if \<not> ValidTypes (cd_Type cd) then errf (UnknownColumnType (cd_Type cd)) t
       else col_options n \<lparr>cd_Name = cd_Name cd, cd_Type = cd_Type cd, cd_Primary = False, cd_NotNull = False, cd_AutoInc = False,
              cd_Unique = False, cd_RefTable = [], cd_RefCol = []\<rparr> t) cd rest" if t: "sees t ?X" for t
    using col_options_reads [OF t l s(3), of "cd_Name cd" "cd_Type cd"] assms(1) by (cases cd) (simp add: ok_col_def del: col_options.simps split: if_splits)
  show "gives (parseColumnDef n s) cd rest" unfolding parseColumnDef_def
    by (rule gives_bind [OF gives_ident [OF s1]], rule gives_bind [OF gives_ident], assumption, rule o)
qed

lemma stmt_select:
  assumes "ok_select q" "sees s (pr_select q)" "length (pr_select q) < n"
  shows "gives (parseStatement n s) (SelectStmt q) []"
proof -
  have q: "gives (parseSelect n s) q []"
    by (rule readsD [of _ pr_select n sel_end]) (use assms printed_reads(2) [of q] in \<open>auto simp: select_ok_def sel_end_def simp del: parseSelect.simps\<close>)
  obtain xs where xs: "pr_select q = (tokIdent, ''select'') # xs" by (cases q) simp
  have "gives (bindP (parseSelect n s) (\<lambda>q s. ret (SelectStmt q) s)) (SelectStmt q) []" by (rule gives_bind [OF q]) simp
  then show ?thesis using at_head [of s "''select''" xs] assms(2) xs by (simp add: parseStatement_def)
qed

lemma reads_where:
  assumes "pred_option ok_expr wh" "sees s (opt_toks ''where'' pr wh)" "length (opt_toks ''where'' pr wh) < n"
  shows "gives (opt_expr ''where'' (parseExpr n) s) wh []"
  by (rule reads_opt_expr [of _ pr n follow])
    (use assms in \<open>auto simp: option.pred_set follow_def pfollow_def cont_ops_def intro: expr_reads\<close>)

lemma stmt_delete:
  assumes "ok_stmt (Delete t wh)" "sees s (pr_stmt (Delete t wh))" "length (pr_stmt (Delete t wh)) < n"
  shows "gives (parseStatement n s) (Delete t wh) []"
proof -
  have s: "sees s ((tokIdent, ''delete'') # (tokIdent, ''from'') # (tokIdent, t) # opt_toks ''where'' pr wh)" using assms(2) by simp
  have "gives (parseDelete (parseExpr n) s) (Delete t wh) []" unfolding parseDelete_def
    by (rule gives_bind [OF gives_kw [OF sees_next [OF s]]], rule gives_bind [OF gives_ident], assumption, rule gives_bind [OF reads_where])
      (use assms in auto)
  then show ?thesis using at_head [OF s] by (simp add: parseStatement_def)
qed

lemma stmt_update:
  assumes "ok_stmt (Update t sets wh)" "sees s (pr_stmt (Update t sets wh))" "length (pr_stmt (Update t sets wh)) < n"
  shows "gives (parseStatement n s) (Update t sets wh) []"
proof -
  have s: "sees s ((tokIdent, ''update'') # (tokIdent, t) # (tokIdent, ''set'') # commas (map pr_set sets) @ opt_toks ''where'' pr wh)"
    using assms(2) by simp
  have sets: "gives (sepBy n (parse_set (parseExpr n)) u) sets (opt_toks ''where'' pr wh)"
    if u: "sees u (commas (map pr_set sets) @ opt_toks ''where'' pr wh)" for u
    by (rule reads_sepBy [of sets _ pr_set n follow])
      (use assms u in \<open>auto simp: list_all_iff follow_def pfollow_def cont_ops_def cmp_ops_def split: option.splits intro: reads_set\<close>)
  have "gives (parseUpdate n (parseExpr n) s) (Update t sets wh) []" unfolding parseUpdate_def
    by (rule gives_bind [OF gives_ident [OF sees_next [OF s]]], rule gives_bind [OF gives_kw], assumption, rule gives_bind [OF sets], assumption,
        rule gives_bind [OF reads_where]) (use assms in auto)
  then show ?thesis using at_head [OF s] by (simp add: parseStatement_def)
qed

lemma stmt_insert:
  assumes "ok_stmt (Insert t cols rows)" "sees s (pr_stmt (Insert t cols rows))" "length (pr_stmt (Insert t cols rows)) < n"
  shows "gives (parseStatement n s) (Insert t cols rows) []"
proof -
  let ?C = "if cols = [] then [] else (tokPunct, ''('') # commas (map (\<lambda>c. [(tokIdent, c)]) cols) @ [(tokPunct, '')'')]"
  let ?V = "(tokIdent, ''values'') # commas (map pr_tuple rows)"
  have s: "sees s ((tokIdent, ''insert'') # (tokIdent, ''into'') # (tokIdent, t) # ?C @ ?V)" using assms(2) by simp
  have C: "gives (if atPunct ''('' u then bindP (sepBy n (identOrErr ''column name'') (next_tok u)) (\<lambda>cs s.
        bindP (expectPunct '')'' s) (\<lambda>_ s. ret cs s)) else ret [] u) cols ?V" if u: "sees u (?C @ ?V)" for u
  proof (cases "cols = []")
    case True
    then show ?thesis using u by (simp add: sees_at)
  next
    case False
    then have u: "sees u ((tokPunct, ''('') # commas (map (\<lambda>c. [(tokIdent, c)]) cols) @ (tokPunct, '')'') # ?V)" using u by simp
    have "gives (bindP (sepBy n (identOrErr ''column name'') (next_tok u)) (\<lambda>cs s. bindP (expectPunct '')'' s) (\<lambda>_ s. ret cs s))) cols ?V"
      by (rule gives_close [OF reads_sepBy [OF False _ _ _ _ sees_next [OF u], of _ n "\<lambda>_. True"]])
        (use assms(3) False in \<open>auto intro: reads_ident\<close>)
    then show ?thesis using sees_at [OF u, of tokPunct "''(''"] by simp
  qed
  have V: "gives (sepBy n (parse_tuple n (parseExpr n)) u) rows []" if u: "sees u (commas (map pr_tuple rows))" for u
    by (rule reads_sepBy [of rows _ pr_tuple n "\<lambda>_. True"]) (use assms u in \<open>auto simp: list_all_iff intro!: reads_tuple\<close>)
  have "gives (parseInsert n (parseExpr n) s) (Insert t cols rows) []" unfolding parseInsert_def
    by (rule gives_bind [OF gives_kw [OF sees_next [OF s]]], rule gives_bind [OF gives_ident], assumption, rule gives_bind [OF C], assumption,
        rule gives_bind [OF gives_kw], assumption, rule gives_bind [OF V]) auto
  then show ?thesis using at_head [OF s] by (simp add: parseStatement_def)
qed

lemma stmt_create:
  assumes "ok_stmt (CreateTable t cds)" "sees s (pr_stmt (CreateTable t cds))" "length (pr_stmt (CreateTable t cds)) < n"
  shows "gives (parseStatement n s) (CreateTable t cds) []"
proof -
  have s: "sees s ((tokIdent, ''create'') # (tokIdent, ''table'') # (tokIdent, t) # (tokPunct, ''('') # commas (map pr_col cds) @ [(tokPunct, '')'')])"
    using assms(2) by simp
  have C: "gives (sepBy n (parseColumnDef n) u) cds [(tokPunct, '')'')]" if u: "sees u (commas (map pr_col cds) @ [(tokPunct, '')'')])" for u
    by (rule reads_sepBy [of cds _ pr_col n "\<lambda>t. t \<in> puns ['','', '')'']"]) (use assms u in \<open>auto simp: list_all_iff intro!: reads_col [simplified]\<close>)
  have "gives (parseCreate n s) (CreateTable t cds) []" unfolding parseCreate_def
    by (rule gives_bind [OF gives_kw [OF sees_next [OF s]]], rule gives_bind [OF gives_ident], assumption,
        rule gives_bind [OF gives_punct], assumption, rule gives_close [OF C]) auto
  then show ?thesis using at_head [OF s] by (simp add: parseStatement_def)
qed

lemma stmt_drop:
  assumes "ok_stmt (DropTable t ifx)" "sees s (pr_stmt (DropTable t ifx))"
  shows "gives (parseStatement n s) (DropTable t ifx) []"
proof -
  let ?I = "if ifx then [(tokIdent, ''if''), (tokIdent, ''exists'')] else []"
  have s: "sees s ((tokIdent, ''drop'') # (tokIdent, ''table'') # ?I @ [(tokIdent, t)])" using assms(2) by simp
  have I: "gives (clause ''if'' (\<lambda>s. bindP (expectKw ''exists'' s) (\<lambda>_ s. ret True s)) False u) ifx [(tokIdent, t)]"
    if u: "sees u (?I @ [(tokIdent, t)])" for u
  proof (cases ifx)
    case True
    then have u: "sees u ((tokIdent, ''if'') # (tokIdent, ''exists'') # [(tokIdent, t)])" using u by simp
    have "gives (bindP (expectKw ''exists'' (next_tok u)) (\<lambda>_ s. ret True s)) True [(tokIdent, t)]"
      by (rule gives_bind [OF gives_kw [OF sees_next [OF u]]]) simp
    then show ?thesis using at_head [OF u] True by (simp add: clause_def)
  next
    case False
    then show ?thesis using u assms(1) at_head [of u t "[]" "''if''"] by (auto simp: clause_def)
  qed
  have "gives (parseDrop s) (DropTable t ifx) []" unfolding parseDrop_def
    by (rule gives_bind [OF gives_kw [OF sees_next [OF s]]], rule gives_bind [OF I], assumption, rule gives_bind [OF gives_ident]) auto
  then show ?thesis using at_head [OF s] by (simp add: parseStatement_def)
qed

lemma stmt_reads:
  assumes "ok_stmt st" "sees s (pr_stmt st)" "length (pr_stmt st) < n"
  shows "gives (parseStatement n s) st []"
proof (cases st)
  case (SelectStmt q)
  then show ?thesis using assms stmt_select by simp
qed (use assms stmt_create stmt_drop stmt_insert stmt_update stmt_delete at_head [of s _ "[]"] sees_next [of s _ "[]"] in
    \<open>auto simp: parseStatement_def simp del: ok_stmt.simps\<close>)

section \<open>The round trip\<close>

definition wf_toks :: "ktok list \<Rightarrow> bool" where
  "wf_toks = list_all (case_prod tok_wf)"

lemma wf_toks_simps [simp]:
  "wf_toks []" "wf_toks ((k, x) # xs) \<longleftrightarrow> tok_wf k x \<and> wf_toks xs" "wf_toks (xs @ ys) \<longleftrightarrow> wf_toks xs \<and> wf_toks ys"
  by (auto simp: wf_toks_def)

lemma kw_wf [simp]:
  "ident_wf ''null''" "ident_wf ''true''" "ident_wf ''false''" "ident_wf ''is''" "ident_wf ''not''" "ident_wf ''in''" "ident_wf ''and''"
  "ident_wf ''or''" "ident_wf ''select''" "ident_wf ''from''" "ident_wf ''as''" "ident_wf ''join''" "ident_wf ''left''" "ident_wf ''on''"
  "ident_wf ''where''" "ident_wf ''group''" "ident_wf ''by''" "ident_wf ''having''" "ident_wf ''order''" "ident_wf ''desc''" "ident_wf ''limit''"
  "ident_wf ''create''" "ident_wf ''table''" "ident_wf ''drop''" "ident_wf ''if''" "ident_wf ''exists''" "ident_wf ''insert''" "ident_wf ''into''"
  "ident_wf ''values''" "ident_wf ''update''" "ident_wf ''set''" "ident_wf ''delete''" "ident_wf ''begin''" "ident_wf ''commit''" "ident_wf ''rollback''"
  "ident_wf ''primary''" "ident_wf ''key''" "ident_wf ''auto_increment''" "ident_wf ''unique''" "ident_wf ''references''"
  by code_simp+

lemma pun_wf [simp]: "punct_wf ''(''" "punct_wf '')''" "punct_wf '',''" "punct_wf ''.''" "punct_wf ''*''" "punct_wf ''=''"
  by code_simp+

lemma op_wf: "x \<in> set cmp_ops \<union> set bin_ops \<Longrightarrow> punct_wf x"
proof -
  have "\<forall>x\<in>set (cmp_ops @ bin_ops). punct_wf x" by code_simp
  then show "x \<in> set cmp_ops \<union> set bin_ops \<Longrightarrow> punct_wf x" by auto
qed

lemma type_wf: "ValidTypes x \<Longrightarrow> ident_wf x"
proof -
  have "\<forall>x\<in>set [TypeInt, TypeBigint, TypeFloat, TypeText, TypeBool, TypeTimestamp]. ident_wf x" by code_simp
  then show "ValidTypes x \<Longrightarrow> ident_wf x" by (auto simp: ValidTypes_def)
qed

lemma num_wf_dec: "0 \<le> i \<Longrightarrow> num_wf (dec_digits i)"
  unfolding num_wf_def using dec_digits_digits [of i]
  by (intro exI [of _ "dec_digits i"] exI [of _ "[]"]) (auto simp: list_all_iff dec_digits.simps [of i])

lemma commas_wf [simp]: "wf_toks (commas xs) \<longleftrightarrow> (\<forall>x\<in>set xs. wf_toks x)"
  by (induction xs rule: commas.induct) auto

lemma join_wf: "\<forall>x\<in>set rs. wf_toks x \<Longrightarrow> \<forall>x\<in>set es. wf_toks x \<Longrightarrow> wf_toks (join_toks rs es ks)"
  by (induction rs es ks rule: join_toks.induct) auto

lemma fields_wf:
  assumes "length als = length flds" "\<forall>e\<in>set flds. wf_toks (pr e)" "\<forall>a\<in>set als. a = [] \<or> ident_wf a"
  shows "\<forall>x\<in>set (map pr_field (zip flds als)). wf_toks x"
  using assms by (induction als flds rule: list_induct2) (auto simp: pr_field_def)

lemma val_wf: "ok_val v \<Longrightarrow> wf_toks [pr_val v]"
  by (cases v) (auto intro: num_wf_dec)

lemma printed_wf:
  "ok_expr e \<Longrightarrow> wf_toks (pr e)" "ok_select q \<Longrightarrow> wf_toks (pr_select q)" "ok_ref r \<Longrightarrow> wf_toks (pr_ref r)" "ok_order x \<Longrightarrow> wf_toks (pr_order x)"
proof (induction e and q and r and x)
  case (Lit v)
  then show ?case by (simp add: val_wf)
next
  case (Select tabs ons kinds star flds als wh grp hv ord lim)
  then have 1: "length als = length flds" "\<forall>e\<in>set flds. wf_toks (pr e)" "\<forall>a\<in>set als. a = [] \<or> ident_wf a" by (auto simp: list_all_iff)
  obtain r rs where tabs: "tabs = r # rs" using Select.prems by (cases tabs) auto
  have 2: "wf_toks (join_toks (map pr_ref rs) (map pr ons) kinds)" using Select tabs by (intro join_wf) (auto simp: list_all_iff)
  have 3: "wf_toks (opt_toks ''where'' pr wh)" "wf_toks (opt_toks ''having'' pr hv)" "wf_toks (opt_toks ''limit'' (\<lambda>k. [(tokNum, dec_digits k)]) lim)"
    using Select by (auto split: option.splits intro: num_wf_dec)
  have 4: "wf_toks (by_toks ''group'' pr grp)" "wf_toks (by_toks ''order'' pr_order ord)" "wf_toks (pr_ref r)"
    using Select tabs by (auto simp: list_all_iff)
  show ?case unfolding pr_select.simps map2_pr_field [OF 1(1)] tabs using 2 3 4 fields_wf [OF 1] by (auto simp del: set_map)
qed (auto simp: list_all_iff op_wf split: option.splits)

lemma stmt_wf: "ok_stmt st \<Longrightarrow> wf_toks (pr_stmt st)"
proof (cases st)
  case (CreateTable t cds)
  have "wf_toks (pr_col cd)" if "ok_col cd" for cd using that by (auto simp: ok_col_def pr_col_def pr_refs_def type_wf)
  then show "ok_stmt st \<Longrightarrow> ?thesis" using CreateTable by (auto simp: list_all_iff)
next
  case (Update t sets wh)
  have "wf_toks (pr_set (c, e))" if "ident_wf c" "ok_expr e" for c e using that by (simp add: pr_set_def printed_wf)
  then show "ok_stmt st \<Longrightarrow> ?thesis" using Update by (auto simp: list_all_iff printed_wf split: option.splits)
qed (auto simp: list_all_iff pr_tuple_def printed_wf split: option.splits)


definition sample_query :: stmt where
  "sample_query = SelectStmt (Select [TableRef ''users'' ''u'' None, TableRef [] ''d'' (Some (Select [TableRef ''orders'' ''orders'' None] [] [] True []
       [] None [] None [] (Some 3)))] [Cmp ''='' (ColRef ''u'' ''id'') (ColRef ''d'' ''user_id'')] [''left''] False
     [ColRef ''u'' ''name'', Func ''count'' True None] [[], ''n''] (Some (And (InList (ColRef [] ''age'') [Lit (VInt 18), Lit (VInt 21)] True)
        (NotE (IsNullE (ColRef [] ''name'') False)))) [ColRef ''u'' ''name'']
     (Some (Cmp ''>'' (Func ''count'' True None) (Lit (VInt 1)))) [OrderTerm (ColRef [] ''n'') True] None)"


end
