(* ===== verification/Eval.thy ===== *)
theory Eval
  imports Accessor Ast
begin

text \<open>
  The expressions of \<open>internal/executor/executor.go\<close>: scopes and column references (\<open>joinScope\<close>), the checks before
  execution (\<open>validateExpr\<close>, \<open>validateHaving\<close>, \<open>validateAggregate\<close>), arithmetic, aggregates, and the evaluation of
  value and boolean expressions. Every error of the source is a constructor of \<open>exec_error\<close>, with its SQLSTATE code in
  \<open>err_code\<close>; indexing a row out of range is the error \<open>Panic\<close>. The instant \<open>time.Now()\<close> returns is the argument
  \<open>now\<close>. Syntax trees are rewritten in place by the source and by value here: nothing reads the old tree again.
\<close>

section \<open>Errors and results\<close>

datatype exec_error =
    UnsupportedStmt
  | NoRelation string
  | NoColumnOf string string
  | NoFromEntry string
  | NoColumn string
  | AmbiguousColumn string
  | AggNotAllowed string
  | AggNoContext string
  | FuncUnsupported string
  | FuncUnsupported2 string
  | FuncNotInHaving string
  | InListNotLiteral
  | RelationExists string
  | CreateFailed storage_error
  | FKSelfReference string
  | FKUnknownTable string
  | FKNoPrimaryKey string
  | FKNoColumn string string
  | FKNotPrimary string string
  | FKTypeMismatch string column_type string column_type
  | FKNotInteger string string
  | FKNoParent string int64 string
  | FKReferenced string string
  | NoTargetColumn string string
  | DuplicateTarget string
  | InsertArity nat nat nat
  | BadValue string check_error
  | NullViolation string string
  | PKNotInteger string
  | DuplicateKey string "int64 option"
  | OnlyLiterals
  | StarWithGroup
  | NotInGroup string
  | AggNeedsGroup
  | NonAggregateExpr
  | StarNotSupported string
  | AggNeedsArgument string
  | AggArgNotColumn
  | AggArgNotColumn2
  | DuplicateAlias string
  | GroupNotColumn
  | OrderNotGroup
  | UnsupportedExpr
  | OpNotDefined string kind kind
  | DivisionByZero
  | UnknownOperator string
  | UnknownComparison string
  | NotBoolean
  | UnsupportedBool
  | InSubColumns
  | AggNeedsNumeric string
  | UnknownAggregate string
  | StorageErr storage_error
  | Panic

text \<open>The SQLSTATE-like code of an error; an error the storage layer returned is passed on without one.\<close>

fun err_code :: "exec_error \<Rightarrow> string option" where
  "err_code UnsupportedStmt = Some ''0A000''"
| "err_code (NoRelation _) = Some ''42P01''"
| "err_code (NoColumnOf _ _) = Some ''42703''"
| "err_code (NoFromEntry _) = Some ''42P01''"
| "err_code (NoColumn _) = Some ''42703''"
| "err_code (AmbiguousColumn _) = Some ''42703''"
| "err_code (AggNotAllowed _) = Some ''42883''"
| "err_code (AggNoContext _) = Some ''42883''"
| "err_code (FuncUnsupported _) = Some ''42883''"
| "err_code (FuncUnsupported2 _) = Some ''42883''"
| "err_code (FuncNotInHaving _) = Some ''42883''"
| "err_code InListNotLiteral = Some ''42601''"
| "err_code (RelationExists _) = Some ''42P07''"
| "err_code (CreateFailed _) = Some ''42601''"
| "err_code (FKSelfReference _) = Some ''42P01''"
| "err_code (FKUnknownTable _) = Some ''42P01''"
| "err_code (FKNoPrimaryKey _) = Some ''23552''"
| "err_code (FKNoColumn _ _) = Some ''23552''"
| "err_code (FKNotPrimary _ _) = Some ''0A000''"
| "err_code (FKTypeMismatch _ _ _ _) = Some ''42804''"
| "err_code (FKNotInteger _ _) = Some ''23503''"
| "err_code (FKNoParent _ _ _) = Some ''23503''"
| "err_code (FKReferenced _ _) = Some ''23503''"
| "err_code (NoTargetColumn _ _) = Some ''42703''"
| "err_code (DuplicateTarget _) = Some ''42703''"
| "err_code (InsertArity _ _ _) = Some ''21000''"
| "err_code (BadValue _ _) = Some ''22P02''"
| "err_code (NullViolation _ _) = Some ''23502''"
| "err_code (PKNotInteger _) = Some ''22P02''"
| "err_code (DuplicateKey _ _) = Some ''23505''"
| "err_code OnlyLiterals = Some ''0A000''"
| "err_code StarWithGroup = Some ''42803''"
| "err_code (NotInGroup _) = Some ''42803''"
| "err_code AggNeedsGroup = Some ''42803''"
| "err_code NonAggregateExpr = Some ''42803''"
| "err_code (StarNotSupported _) = Some ''42883''"
| "err_code (AggNeedsArgument _) = Some ''42883''"
| "err_code AggArgNotColumn = Some ''42883''"
| "err_code AggArgNotColumn2 = Some ''42883''"
| "err_code (DuplicateAlias _) = Some ''42703''"
| "err_code GroupNotColumn = Some ''42601''"
| "err_code OrderNotGroup = Some ''42803''"
| "err_code UnsupportedExpr = Some ''0A000''"
| "err_code (OpNotDefined _ _ _) = Some ''42883''"
| "err_code DivisionByZero = Some ''22012''"
| "err_code (UnknownOperator _) = Some ''0A000''"
| "err_code (UnknownComparison _) = Some ''0A000''"
| "err_code NotBoolean = Some ''42883''"
| "err_code UnsupportedBool = Some ''0A000''"
| "err_code InSubColumns = Some ''42601''"
| "err_code (AggNeedsNumeric _) = Some ''42883''"
| "err_code (UnknownAggregate _) = Some ''42883''"
| "err_code (StorageErr _) = None"
| "err_code Panic = None"

record exec_result =
  r_Columns :: "string list"
  r_Rows :: "row list"
  r_Affected :: nat

text \<open>Sequencing: an error ends the computation.\<close>

definition bindE :: "('e, 'a) res \<Rightarrow> ('a \<Rightarrow> ('e, 'b) res) \<Rightarrow> ('e, 'b) res" where
  "bindE m f = (case m of Inl e \<Rightarrow> Err e | Inr a \<Rightarrow> f a)"

fun mapE :: "('a \<Rightarrow> ('e, 'b) res) \<Rightarrow> 'a list \<Rightarrow> ('e, 'b list) res" where
  "mapE f [] = Ok []"
| "mapE f (x # xs) = bindE (f x) (\<lambda>y. bindE (mapE f xs) (\<lambda>ys. Ok (y # ys)))"

lemma bindE_simps [simp]: "bindE (Inl e) f = Inl e" "bindE (Inr a) f = f a"
  by (simp_all add: bindE_def)

lemma bindE_Ok: "bindE m f = Ok b \<longleftrightarrow> (\<exists>a. m = Ok a \<and> f a = Ok b)"
  by (cases m) auto

lemma mapE_Ok: "mapE f xs = Ok ys \<longleftrightarrow> list_all2 (\<lambda>x y. f x = Ok y) xs ys"
  by (induction xs arbitrary: ys) (auto simp: bindE_Ok list_all2_Cons1)

section \<open>Scopes\<close>

definition Exec_tableDef :: "'s accessor \<Rightarrow> string \<Rightarrow> 's \<Rightarrow> (exec_error, tabledef) res" where
  "Exec_tableDef acc name s = (case find (\<lambda>d. td_name d = name) (ac_Catalog acc s) of
     Some d \<Rightarrow> Ok d | None \<Rightarrow> Err (NoRelation name))"

text \<open>The map from column names to positions; a later column of the same name wins.\<close>

definition colIndexMap :: "tabledef \<Rightarrow> (string \<times> nat) list" where
  "colIndexMap def = rev (zip (map col_name (td_cols def)) [0..<length (td_cols def)])"

definition pkIndex :: "tabledef \<Rightarrow> nat option" where
  "pkIndex def = find (\<lambda>i. col_primary (td_cols def ! i)) [0..<length (td_cols def)]"

definition coerce :: "column \<Rightarrow> val \<Rightarrow> (check_error, val) res" where
  "coerce col v =
     (let v' = (case v of
          VText s \<Rightarrow> if col_type col = TypeTimestamp then
              (case first_some (\<lambda>l. parse_in_utc l s) [LayoutSpace, LayoutT, LayoutDate] of Some tm \<Rightarrow> VTime tm | None \<Rightarrow> v)
            else v
        | _ \<Rightarrow> v)
      in Check (col_type col) v')"

record joinTable =
  j_def :: tabledef
  j_alias :: string
  j_basePos :: nat
  j_colIdx :: "(string \<times> nat) list"
  j_rows :: "row list option"

type_synonym joinScope = "joinTable list"

definition singleTableScope :: "tabledef \<Rightarrow> joinScope" where
  "singleTableScope def =
     [\<lparr>j_def = def, j_alias = td_name def, j_basePos = 0, j_colIdx = colIndexMap def, j_rows = None\<rparr>]"

definition sub_scope :: "nat \<Rightarrow> joinScope \<Rightarrow> joinScope" where
  "sub_scope n sc = (if n \<ge> length sc then sc else take n sc)"

definition resolve :: "joinScope \<Rightarrow> string \<Rightarrow> string \<Rightarrow> (exec_error, nat) res" where
  "resolve sc table name =
     (if table \<noteq> [] then
        (case find (\<lambda>t. j_alias t = table) sc of
           Some t \<Rightarrow> (case map_of (j_colIdx t) name of
             Some ci \<Rightarrow> Ok (j_basePos t + ci) | None \<Rightarrow> Err (NoColumnOf name table))
         | None \<Rightarrow> Err (NoFromEntry table))
      else
        (case concat (map (\<lambda>t. case map_of (j_colIdx t) name of Some ci \<Rightarrow> [j_basePos t + ci] | None \<Rightarrow> []) sc) of
           [] \<Rightarrow> Err (NoColumn name)
         | [p] \<Rightarrow> Ok p
         | _ \<Rightarrow> Err (AmbiguousColumn name)))"

definition headerAt :: "joinScope \<Rightarrow> nat \<Rightarrow> string" where
  "headerAt sc pos =
     (case find (\<lambda>t. j_basePos t \<le> pos \<and> pos < j_basePos t + length (td_cols (j_def t))) sc of
        Some t \<Rightarrow> (let name = col_name (td_cols (j_def t) ! (pos - j_basePos t)) in
          if length sc = 1 then name else j_alias t @ ''.'' @ name)
      | None \<Rightarrow> ''?'')"

definition is_lit :: "expr \<Rightarrow> bool" where
  "is_lit e = (case e of Lit _ \<Rightarrow> True | _ \<Rightarrow> False)"

fun validateExpr :: "joinScope \<Rightarrow> expr \<Rightarrow> (exec_error, unit) res" where
  "validateExpr sc (Lit v) = Ok ()"
| "validateExpr sc (ColRef t n) = bindE (resolve sc t n) (\<lambda>_. Ok ())"
| "validateExpr sc (Func n star arg) =
     (if n = ''now'' then Ok ()
      else if IsAggregateFunc n then Err (AggNotAllowed n)
      else Err (FuncUnsupported n))"
| "validateExpr sc (Cmp op l r) = bindE (validateExpr sc l) (\<lambda>_. validateExpr sc r)"
| "validateExpr sc (IsNullE x nt) = validateExpr sc x"
| "validateExpr sc (And l r) = bindE (validateExpr sc l) (\<lambda>_. validateExpr sc r)"
| "validateExpr sc (Or l r) = bindE (validateExpr sc l) (\<lambda>_. validateExpr sc r)"
| "validateExpr sc (NotE x) = validateExpr sc x"
| "validateExpr sc (Binary op l r) = bindE (validateExpr sc l) (\<lambda>_. validateExpr sc r)"
| "validateExpr sc (InList x xs nt) = bindE (validateExpr sc x) (\<lambda>_.
     if list_all is_lit xs then Ok () else Err InListNotLiteral)"
| "validateExpr sc (InSub x q nt) = validateExpr sc x"

section \<open>Arithmetic and aggregates\<close>

definition arithmetic :: "string \<Rightarrow> val \<Rightarrow> val \<Rightarrow> (exec_error, val) res" where
  "arithmetic op l r =
     (case (num_of l, num_of r) of
        (Some a, Some b) \<Rightarrow>
          if (op = ''/'' \<or> op = ''%'') \<and> f64_eq b (f64_of_int 0) then Err DivisionByZero
          else (case (l, r) of
            (VInt i, VInt j) \<Rightarrow>
              if op = ''+'' then Ok (VInt (wrap64 (i + j)))
              else if op = ''-'' then Ok (VInt (wrap64 (i - j)))
              else if op = ''*'' then Ok (VInt (wrap64 (i * j)))
              else if op = ''/'' then Ok (VInt (quot64 i j))
              else if op = ''%'' then Ok (VInt (rem64 i j))
              else Err (UnknownOperator op)
          | _ \<Rightarrow>
              if op = ''+'' then Ok (VFloat (f64_add a b))
              else if op = ''-'' then Ok (VFloat (f64_sub a b))
              else if op = ''*'' then Ok (VFloat (f64_mul a b))
              else if op = ''/'' then Ok (VFloat (f64_div a b))
              else if op = ''%'' then Ok (VFloat (f64_mod a b))
              else Err (UnknownOperator op))
      | _ \<Rightarrow> Err (OpNotDefined op (kind_of l) (kind_of r)))"

text \<open>Indexing a row: out of range is a run-time panic.\<close>

definition cell :: "row \<Rightarrow> int \<Rightarrow> (exec_error, val) res" where
  "cell row i = (if 0 \<le> i \<and> nat i < length row then Ok (row ! nat i) else Err Panic)"

fun count_loop :: "row list \<Rightarrow> int \<Rightarrow> int64 \<Rightarrow> (exec_error, val) res" where
  "count_loop [] argPos n = Ok (VInt n)"
| "count_loop (r # rs) argPos n = bindE (cell r argPos) (\<lambda>v.
     count_loop rs argPos (if IsNull v then n else wrap64 (n + 1)))"

fun sum_loop :: "row list \<Rightarrow> int \<Rightarrow> int64 \<Rightarrow> float64 \<Rightarrow> bool \<Rightarrow> bool \<Rightarrow> (exec_error, val) res" where
  "sum_loop [] argPos sumI sumF any allInt =
     (if \<not> any then Ok VNull
      else if allInt then Ok (VInt sumI)
      else Ok (VFloat (f64_add (f64_of_int sumI) sumF)))"
| "sum_loop (r # rs) argPos sumI sumF any allInt = bindE (cell r argPos) (\<lambda>v.
     case v of
       VNull \<Rightarrow> sum_loop rs argPos sumI sumF any allInt
     | VInt i \<Rightarrow> sum_loop rs argPos (wrap64 (sumI + i)) sumF True allInt
     | VFloat f \<Rightarrow> sum_loop rs argPos sumI (f64_add sumF f) True False
     | _ \<Rightarrow> Err (AggNeedsNumeric ''sum''))"

fun avg_loop :: "row list \<Rightarrow> int \<Rightarrow> float64 \<Rightarrow> int64 \<Rightarrow> (exec_error, val) res" where
  "avg_loop [] argPos tot n = (if n = 0 then Ok VNull else Ok (VFloat (f64_div tot (f64_of_int n))))"
| "avg_loop (r # rs) argPos tot n = bindE (cell r argPos) (\<lambda>v.
     case v of
       VNull \<Rightarrow> avg_loop rs argPos tot n
     | VInt i \<Rightarrow> avg_loop rs argPos (f64_add tot (f64_of_int i)) (wrap64 (n + 1))
     | VFloat f \<Rightarrow> avg_loop rs argPos (f64_add tot f) (wrap64 (n + 1))
     | _ \<Rightarrow> Err (AggNeedsNumeric ''avg''))"

fun best_loop :: "string \<Rightarrow> row list \<Rightarrow> int \<Rightarrow> val option \<Rightarrow> (exec_error, val) res" where
  "best_loop name [] argPos best = Ok (case best of None \<Rightarrow> VNull | Some b \<Rightarrow> b)"
| "best_loop name (r # rs) argPos best = bindE (cell r argPos) (\<lambda>v.
     if IsNull v then best_loop name rs argPos best
     else case best of
       None \<Rightarrow> best_loop name rs argPos (Some v)
     | Some b \<Rightarrow>
         (let c = Compare v b in
          if name = ''min'' \<and> c < 0 \<or> name = ''max'' \<and> c > 0 then best_loop name rs argPos (Some v)
          else best_loop name rs argPos best))"

definition evalAggregate :: "string \<Rightarrow> bool \<Rightarrow> row list \<Rightarrow> int \<Rightarrow> (exec_error, val) res" where
  "evalAggregate name star rows argPos =
     (if name = ''count'' then (if star then Ok (VInt (int (length rows))) else count_loop rows argPos 0)
      else if name = ''sum'' then sum_loop rows argPos 0 (f64_zero False) False True
      else if name = ''avg'' then avg_loop rows argPos (f64_zero False) 0
      else if name = ''min'' \<or> name = ''max'' then best_loop name rows argPos None
      else Err (UnknownAggregate name))"

section \<open>Expressions\<close>

record groupCtx =
  g_rows :: "row list"
  g_nowVal :: val

fun evalValueCtx :: "gotime \<Rightarrow> joinScope \<Rightarrow> expr \<Rightarrow> row \<Rightarrow> groupCtx option \<Rightarrow> (exec_error, val) res" where
  "evalValueCtx now sc (Lit v) row gc = Ok v"
| "evalValueCtx now sc (ColRef t n) row gc = bindE (resolve sc t n) (\<lambda>i. cell row (int i))"
| "evalValueCtx now sc (Func n star arg) row gc =
     (if n = ''now'' then Ok (case gc of Some g \<Rightarrow> g_nowVal g | None \<Rightarrow> VTime now)
      else if IsAggregateFunc n then
        (case gc of
           None \<Rightarrow> Err (AggNoContext n)
         | Some g \<Rightarrow>
             if star then evalAggregate n star (g_rows g) (-1)
             else (case arg of
               Some (ColRef t c) \<Rightarrow> bindE (resolve sc t c) (\<lambda>p. evalAggregate n star (g_rows g) (int p))
             | _ \<Rightarrow> Err AggArgNotColumn2))
      else Err (FuncUnsupported2 n))"
| "evalValueCtx now sc (Binary op l r) row gc =
     bindE (evalValueCtx now sc l row gc) (\<lambda>a. bindE (evalValueCtx now sc r row gc) (\<lambda>b.
       if IsNull a \<or> IsNull b then Ok VNull else arithmetic op a b))"
| "evalValueCtx now sc _ row gc = Err UnsupportedExpr"

definition evalValue :: "gotime \<Rightarrow> joinScope \<Rightarrow> expr \<Rightarrow> row \<Rightarrow> (exec_error, val) res" where
  "evalValue now sc e row = evalValueCtx now sc e row None"

definition cmp_holds :: "string \<Rightarrow> int \<Rightarrow> (exec_error, bool) res" where
  "cmp_holds op c =
     (if op = ''='' then Ok (c = 0)
      else if op = ''<>'' then Ok (c \<noteq> 0)
      else if op = ''<'' then Ok (c < 0)
      else if op = ''<='' then Ok (c \<le> 0)
      else if op = ''>'' then Ok (c > 0)
      else if op = ''>='' then Ok (c \<ge> 0)
      else Err (UnknownComparison op))"

text \<open>The loop over an IN list: whether a literal matched and whether a NULL was passed before that.\<close>

fun in_loop :: "val \<Rightarrow> expr list \<Rightarrow> bool \<Rightarrow> (exec_error, bool \<times> bool) res" where
  "in_loop v [] hasNull = Ok (False, hasNull)"
| "in_loop v (Lit w # xs) hasNull =
     (if IsNull w then in_loop v xs True
      else if Compare v w = 0 then Ok (True, hasNull)
      else in_loop v xs hasNull)"
| "in_loop v (_ # xs) hasNull = Err InListNotLiteral"

text \<open>A truth value is the pair of the source: the boolean and whether it is NULL.\<close>

fun evalBoolCtx :: "gotime \<Rightarrow> joinScope \<Rightarrow> expr \<Rightarrow> row \<Rightarrow> groupCtx option \<Rightarrow> (exec_error, bool \<times> bool) res" where
  "evalBoolCtx now sc (Cmp op l r) row gc =
     bindE (evalValueCtx now sc l row gc) (\<lambda>a. bindE (evalValueCtx now sc r row gc) (\<lambda>b.
       if IsNull a \<or> IsNull b then Ok (False, True)
       else bindE (cmp_holds op (Compare a b)) (\<lambda>h. Ok (h, False))))"
| "evalBoolCtx now sc (IsNullE x nt) row gc =
     bindE (evalValueCtx now sc x row gc) (\<lambda>v. Ok (if nt then \<not> IsNull v else IsNull v, False))"
| "evalBoolCtx now sc (InList x xs nt) row gc =
     bindE (evalValueCtx now sc x row gc) (\<lambda>v.
       if IsNull v then Ok (False, True)
       else bindE (in_loop v xs False) (\<lambda>(matched, hasNull).
         if \<not> matched \<and> hasNull then Ok (False, True)
         else Ok (if nt then \<not> matched else matched, False)))"
| "evalBoolCtx now sc (And l r) row gc =
     bindE (evalBoolCtx now sc l row gc) (\<lambda>(lt, ln). bindE (evalBoolCtx now sc r row gc) (\<lambda>(rt, rn).
       if (ln \<and> \<not> rt) \<or> (rn \<and> \<not> lt) then Ok (False, True) else Ok (lt \<and> rt, False)))"
| "evalBoolCtx now sc (Or l r) row gc =
     bindE (evalBoolCtx now sc l row gc) (\<lambda>(lt, ln). bindE (evalBoolCtx now sc r row gc) (\<lambda>(rt, rn).
       if (ln \<and> \<not> rt) \<or> (rn \<and> \<not> lt) then Ok (False, True) else Ok (lt \<or> rt, False)))"
| "evalBoolCtx now sc (NotE x) row gc =
     bindE (evalBoolCtx now sc x row gc) (\<lambda>(v, n). if n then Ok (False, True) else Ok (\<not> v, False))"
| "evalBoolCtx now sc (Lit v) row gc =
     (case v of VBool b \<Rightarrow> Ok (b, False) | VNull \<Rightarrow> Ok (False, True) | _ \<Rightarrow> Err NotBoolean)"
| "evalBoolCtx now sc (Binary op l r) row gc =
     bindE (evalValueCtx now sc (Binary op l r) row gc) (\<lambda>v.
       case v of
         VNull \<Rightarrow> Ok (False, True)
       | VBool b \<Rightarrow> Ok (b, False)
       | VInt i \<Rightarrow> Ok (i \<noteq> 0, False)
       | VFloat f \<Rightarrow> Ok (\<not> f64_eq f (f64_of_int 0), False)
       | _ \<Rightarrow> Err NotBoolean)"
| "evalBoolCtx now sc _ row gc = Err UnsupportedBool"

definition evalBool :: "gotime \<Rightarrow> joinScope \<Rightarrow> expr \<Rightarrow> row \<Rightarrow> (exec_error, bool \<times> bool) res" where
  "evalBool now sc e row = evalBoolCtx now sc e row None"

section \<open>Aggregates in the plan\<close>

definition validateAggregate :: "string \<Rightarrow> bool \<Rightarrow> expr option \<Rightarrow> joinScope \<Rightarrow> (exec_error, int) res" where
  "validateAggregate name star arg sc =
     (if star then (if name \<noteq> ''count'' then Err (StarNotSupported name) else Ok (- 1))
      else case arg of
        None \<Rightarrow> Err (AggNeedsArgument name)
      | Some (ColRef t c) \<Rightarrow> bindE (resolve sc t c) (\<lambda>p. Ok (int p))
      | Some _ \<Rightarrow> Err AggArgNotColumn)"

definition aggHeader :: "string \<Rightarrow> bool \<Rightarrow> expr option \<Rightarrow> string" where
  "aggHeader name star arg =
     (if star then name @ ''(*)''
      else case arg of
        Some (ColRef t c) \<Rightarrow> if t \<noteq> [] then name @ ''('' @ t @ ''.'' @ c @ '')'' else name @ ''('' @ c @ '')''
      | _ \<Rightarrow> name @ ''(?)'')"

fun validateHaving :: "joinScope \<Rightarrow> expr \<Rightarrow> nat list \<Rightarrow> (exec_error, unit) res" where
  "validateHaving sc (Lit v) gs = Ok ()"
| "validateHaving sc (ColRef t n) gs = bindE (resolve sc t n) (\<lambda>pos.
     if pos \<notin> set gs then Err (NotInGroup n) else Ok ())"
| "validateHaving sc (Func n star arg) gs =
     (if n = ''now'' then Ok ()
      else if IsAggregateFunc n then bindE (validateAggregate n star arg sc) (\<lambda>_. Ok ())
      else Err (FuncNotInHaving n))"
| "validateHaving sc (Cmp op l r) gs = bindE (validateHaving sc l gs) (\<lambda>_. validateHaving sc r gs)"
| "validateHaving sc (IsNullE x nt) gs = validateHaving sc x gs"
| "validateHaving sc (And l r) gs = bindE (validateHaving sc l gs) (\<lambda>_. validateHaving sc r gs)"
| "validateHaving sc (Or l r) gs = bindE (validateHaving sc l gs) (\<lambda>_. validateHaving sc r gs)"
| "validateHaving sc (NotE x) gs = validateHaving sc x gs"
| "validateHaving sc (Binary op l r) gs = bindE (validateHaving sc l gs) (\<lambda>_. validateHaving sc r gs)"
| "validateHaving sc (InList x xs nt) gs = bindE (validateHaving sc x gs) (\<lambda>_.
     if list_all is_lit xs then Ok () else Err InListNotLiteral)"
| "validateHaving sc (InSub x q nt) gs = validateHaving sc x gs"

text \<open>
  Every IN subquery is executed and becomes a list of literals. \<open>ex\<close> is \<open>execSelect\<close>.
\<close>

fun resolveInSubqueries :: "(select \<Rightarrow> (exec_error, exec_result) res) \<Rightarrow> expr \<Rightarrow> (exec_error, expr) res" where
  "resolveInSubqueries ex (InSub x q nt) = bindE (ex q) (\<lambda>res.
     if length (r_Columns res) \<noteq> 1 then Err InSubColumns
     else bindE (mapE (\<lambda>r. cell r 0) (r_Rows res)) (\<lambda>vs. Ok (InList x (map Lit vs) nt)))"
| "resolveInSubqueries ex (Cmp op l r) = bindE (resolveInSubqueries ex l) (\<lambda>l. bindE (resolveInSubqueries ex r) (\<lambda>r. Ok (Cmp op l r)))"
| "resolveInSubqueries ex (And l r) = bindE (resolveInSubqueries ex l) (\<lambda>l. bindE (resolveInSubqueries ex r) (\<lambda>r. Ok (And l r)))"
| "resolveInSubqueries ex (Or l r) = bindE (resolveInSubqueries ex l) (\<lambda>l. bindE (resolveInSubqueries ex r) (\<lambda>r. Ok (Or l r)))"
| "resolveInSubqueries ex (NotE x) = bindE (resolveInSubqueries ex x) (\<lambda>x. Ok (NotE x))"
| "resolveInSubqueries ex (IsNullE x nt) = bindE (resolveInSubqueries ex x) (\<lambda>x. Ok (IsNullE x nt))"
| "resolveInSubqueries ex (Binary op l r) = bindE (resolveInSubqueries ex l) (\<lambda>l. bindE (resolveInSubqueries ex r) (\<lambda>r. Ok (Binary op l r)))"
| "resolveInSubqueries ex (InList x xs nt) = bindE (resolveInSubqueries ex x) (\<lambda>x. Ok (InList x xs nt))"
| "resolveInSubqueries ex e = Ok e"

end
