(* ===== verification/Logic.thy ===== *)
theory Logic
  imports Eval
begin

text \<open>
  The boolean evaluator against SQL's three-valued logic. \<open>kleene\<close> is the reference: comparisons, IS NULL, IN and literals as the
  evaluator computes them, combined with Kleene's connectives. OR and NOT implement them; AND does not (NULL AND TRUE is FALSE, NULL
  AND FALSE is NULL), which shows as soon as it stands under a NOT.
\<close>

datatype truth = TTrue | TFalse | TNull

definition truth_of :: "bool \<times> bool \<Rightarrow> truth" where
  "truth_of = (\<lambda>(b, isNull). if isNull then TNull else if b then TTrue else TFalse)"

fun k_not :: "truth \<Rightarrow> truth" where
  "k_not TTrue = TFalse"
| "k_not TFalse = TTrue"
| "k_not TNull = TNull"

fun k_and :: "truth \<Rightarrow> truth \<Rightarrow> truth" where
  "k_and TTrue b = b"
| "k_and TFalse b = TFalse"
| "k_and TNull b = (if b = TFalse then TFalse else TNull)"

fun k_or :: "truth \<Rightarrow> truth \<Rightarrow> truth" where
  "k_or TFalse b = b"
| "k_or TTrue b = TTrue"
| "k_or TNull b = (if b = TTrue then TTrue else TNull)"

fun kleene :: "gotime \<Rightarrow> joinScope \<Rightarrow> expr \<Rightarrow> row \<Rightarrow> groupCtx option \<Rightarrow> (exec_error, truth) res" where
  "kleene now sc (And l r) row gc = bindE (kleene now sc l row gc) (\<lambda>a. bindE (kleene now sc r row gc) (\<lambda>b. Ok (k_and a b)))"
| "kleene now sc (Or l r) row gc = bindE (kleene now sc l row gc) (\<lambda>a. bindE (kleene now sc r row gc) (\<lambda>b. Ok (k_or a b)))"
| "kleene now sc (NotE x) row gc = bindE (kleene now sc x row gc) (\<lambda>a. Ok (k_not a))"
| "kleene now sc e row gc = bindE (evalBoolCtx now sc e row gc) (\<lambda>p. Ok (truth_of p))"

text \<open>AND anywhere, and AND anywhere under a NOT.\<close>

fun has_and :: "expr \<Rightarrow> bool" where
  "has_and (And l r) = True"
| "has_and (Or l r) = (has_and l \<or> has_and r)"
| "has_and (NotE x) = has_and x"
| "has_and _ = False"

fun and_under_not :: "expr \<Rightarrow> bool" where
  "and_under_not (And l r) = (and_under_not l \<or> and_under_not r)"
| "and_under_not (Or l r) = (and_under_not l \<or> and_under_not r)"
| "and_under_not (NotE x) = has_and x"
| "and_under_not _ = False"

text \<open>A NULL carries the boolean false.\<close>

lemma eval_null_false: "evalBoolCtx now sc e row gc = Ok (b, n) \<Longrightarrow> n \<Longrightarrow> \<not> b"
  by (induction now sc e row gc arbitrary: b n rule: evalBoolCtx.induct)
    (auto simp: bindE_def split: sum.splits if_splits prod.splits val.splits)

lemma kleene_exact:
  "\<not> has_and e \<Longrightarrow> bindE (evalBoolCtx now sc e row gc) (\<lambda>p. Ok (truth_of p)) = kleene now sc e row gc"
proof (induction now sc e row gc rule: kleene.induct)
  case (2 now sc l r row gc)
  then have IH: "kleene now sc l row gc = bindE (evalBoolCtx now sc l row gc) (\<lambda>p. Ok (truth_of p))"
    "kleene now sc r row gc = bindE (evalBoolCtx now sc r row gc) (\<lambda>p. Ok (truth_of p))" by simp_all
  show ?case
    using eval_null_false [of now sc l row gc] eval_null_false [of now sc r row gc]
    by (cases "evalBoolCtx now sc l row gc"; cases "evalBoolCtx now sc r row gc") (auto simp: IH truth_of_def)
next
  case (3 now sc x row gc)
  then have IH: "kleene now sc x row gc = bindE (evalBoolCtx now sc x row gc) (\<lambda>p. Ok (truth_of p))" by simp
  show ?case by (cases "evalBoolCtx now sc x row gc") (auto simp: IH truth_of_def)
qed simp_all

text \<open>Same error, or the same answer to the question whether the row is kept.\<close>

definition same_rows :: "(exec_error, bool \<times> bool) res \<Rightarrow> (exec_error, truth) res \<Rightarrow> bool" where
  "same_rows a b \<longleftrightarrow> bindE a (\<lambda>p. Ok (truth_of p = TTrue)) = bindE b (\<lambda>t. Ok (t = TTrue))"

lemma same_rows_iff:
  "same_rows a b \<longleftrightarrow> (case (a, b) of (Inl x, Inl y) \<Rightarrow> x = y | (Inr p, Inr t) \<Rightarrow> (truth_of p = TTrue) = (t = TTrue) | _ \<Rightarrow> False)"
  by (auto simp: same_rows_def split: sum.split)

lemma k_true: "k_and a b = TTrue \<longleftrightarrow> a = TTrue \<and> b = TTrue" "k_or a b = TTrue \<longleftrightarrow> a = TTrue \<or> b = TTrue"
  by (cases a; cases b; simp)+

lemma truth_true [simp]: "truth_of (b, n) = TTrue \<longleftrightarrow> b \<and> \<not> n"
  by (simp add: truth_of_def)

lemma same_rows_cases:
  assumes "same_rows A a"
  obtains e where "A = Inl e" "a = Inl e" | b n t where "A = Inr (b, n)" "a = Inr t" "(t = TTrue) = (b \<and> \<not> n)"
  using assms by (auto simp: same_rows_iff split: sum.splits)

lemma same_rows_simps [simp]:
  "same_rows (Inl x) (Inl y) \<longleftrightarrow> x = y"
  "same_rows (Inr (b, n)) (Inr t) \<longleftrightarrow> (b \<and> \<not> n) = (t = TTrue)"
  by (simp_all add: same_rows_iff)

lemma same_rows_leaf: "same_rows a (bindE a (\<lambda>p. Ok (truth_of p)))"
  by (cases a) auto

lemma kleene_positive: "\<not> and_under_not e \<Longrightarrow> same_rows (evalBoolCtx now sc e row gc) (kleene now sc e row gc)"
proof (induction now sc e row gc rule: kleene.induct)
  case (1 now sc l r row gc)
  then have a: "same_rows (evalBoolCtx now sc l row gc) (kleene now sc l row gc)"
    and b: "same_rows (evalBoolCtx now sc r row gc) (kleene now sc r row gc)" by simp_all
  show ?case
    by (rule same_rows_cases [OF a]; rule same_rows_cases [OF b]) (auto simp: k_true dest: eval_null_false)
next
  case (2 now sc l r row gc)
  then have a: "same_rows (evalBoolCtx now sc l row gc) (kleene now sc l row gc)"
    and b: "same_rows (evalBoolCtx now sc r row gc) (kleene now sc r row gc)" by simp_all
  show ?case
    by (rule same_rows_cases [OF a]; rule same_rows_cases [OF b]) (auto simp: k_true dest: eval_null_false)
next
  case (3 now sc x row gc)
  then have "kleene now sc x row gc = bindE (evalBoolCtx now sc x row gc) (\<lambda>p. Ok (truth_of p))"
    using kleene_exact [of x] by simp
  then show ?case by (cases "evalBoolCtx now sc x row gc") (auto simp: truth_of_def)
qed (simp_all del: evalBoolCtx.simps add: same_rows_leaf)

text \<open>
  C9: WHERE, ON and HAVING keep a row exactly when SQL's three-valued logic makes the condition true, with the same errors, for every
  condition in which no AND stands under a NOT. Without that restriction it is wrong: NOT (NULL AND TRUE) is NULL, but evaluates to
  true.
\<close>

theorem where_kleene:
  "(\<forall>e now sc row gc. \<not> and_under_not e \<longrightarrow>
      bindE (evalBoolCtx now sc e row gc) (\<lambda>(b, isNull). Ok (b \<and> \<not> isNull)) = bindE (kleene now sc e row gc) (\<lambda>t. Ok (t = TTrue)))
   \<and> (\<exists>e. evalBoolCtx 0 [] e [] None = Ok (True, False) \<and> kleene 0 [] e [] None = Ok TNull)"
proof (intro conjI allI impI)
  fix e now sc row gc assume "\<not> and_under_not e"
  from kleene_positive [OF this, of now sc row gc]
  show "bindE (evalBoolCtx now sc e row gc) (\<lambda>(b, isNull). Ok (b \<and> \<not> isNull)) = bindE (kleene now sc e row gc) (\<lambda>t. Ok (t = TTrue))"
    by (auto simp: same_rows_iff bindE_def split: sum.splits)
next
  have "evalBoolCtx 0 [] (NotE (And (Lit VNull) (Lit (VBool True)))) [] None = Ok (True, False)"
    "kleene 0 [] (NotE (And (Lit VNull) (Lit (VBool True)))) [] None = Ok TNull" by (simp_all add: truth_of_def)
  then show "\<exists>e. evalBoolCtx 0 [] e [] None = Ok (True, False) \<and> kleene 0 [] e [] None = Ok TNull" by blast
qed

theorem where_kleene_witness:
  "\<not> and_under_not (And (NotE (Lit VNull)) (Lit (VBool True)))
   \<and> bindE (evalBoolCtx 0 [] (And (NotE (Lit VNull)) (Lit (VBool True))) [] None) (\<lambda>(b, isNull). Ok (b \<and> \<not> isNull)) = Ok False"
proof -
  have "\<not> and_under_not (And (NotE (Lit VNull)) (Lit (VBool True)))" by simp
  then show ?thesis using where_kleene by (simp add: truth_of_def)
qed

end
