(* ===== verification/Select.thy ===== *)
theory Select
  imports Eval Gostrings
begin

text \<open>
  SELECT of \<open>internal/executor/executor.go\<close>: the plan (\<open>planFields\<close>, the ORDER BY and GROUP BY plans), the candidate rows
  (\<open>uniqueEquality\<close>, \<open>collectJoined\<close>), grouping, ordering, LIMIT and the recursion of \<open>execSelect\<close> through derived tables and
  IN subqueries. All calls of \<open>time.Now()\<close> in one statement return the same instant, \<open>w_now\<close>. A nil slice of preloaded rows
  is \<open>None\<close>, and as in the source an empty result is nil.
\<close>

section \<open>The environment\<close>

text \<open>What a statement sees of the outside: the clock, the library's table of printable runes beyond ASCII, and the text of the
  errors that come from the operating system.\<close>

record world =
  w_now :: gotime
  w_isPrint :: "nat \<Rightarrow> bool"
  w_osError :: string

fun filterE :: "('a \<Rightarrow> ('e, bool) res) \<Rightarrow> 'a list \<Rightarrow> ('e, 'a list) res" where
  "filterE p [] = Ok []"
| "filterE p (x # xs) = bindE (p x) (\<lambda>b. bindE (filterE p xs) (\<lambda>ys. Ok (if b then x # ys else ys)))"

lemma filterE_subset: "filterE p xs = Ok ys \<Longrightarrow> set ys \<subseteq> set xs"
  by (induction xs arbitrary: ys) (auto simp: bindE_Ok split: if_splits)

section \<open>Group keys\<close>

fun valKeyPart :: "(nat \<Rightarrow> bool) \<Rightarrow> val \<Rightarrow> string" where
  "valKeyPart isPrint (VInt i) = ''i'' @ format_int i"
| "valKeyPart isPrint (VFloat f) = ''f'' @ format_float f"
| "valKeyPart isPrint (VText s) = ''s'' @ Quote isPrint s"
| "valKeyPart isPrint (VBool b) = (if b then ''b1'' else ''b0'')"
| "valKeyPart isPrint (VTime t) = ''t'' @ format_int (wrap64 t)"
| "valKeyPart isPrint VNull = ''n''"

section \<open>Sorting\<close>

text \<open>
  \<open>sort.SliceStable\<close>: insertion from the right into the sorted prefix, kept reversed here. Up to 20 elements this is
  the library's algorithm; beyond that it merges blocks, with the same result for every strict weak order.
\<close>

fun insert_right :: "('a \<Rightarrow> 'a \<Rightarrow> bool) \<Rightarrow> 'a \<Rightarrow> 'a list \<Rightarrow> 'a list" where
  "insert_right lt x [] = [x]"
| "insert_right lt x (y # ys) = (if lt x y then y # insert_right lt x ys else x # y # ys)"

definition SliceStable :: "('a \<Rightarrow> 'a \<Rightarrow> bool) \<Rightarrow> 'a list \<Rightarrow> 'a list" where
  "SliceStable lt xs = rev (fold (insert_right lt) xs [])"

fun keys_less :: "bool list \<Rightarrow> val list \<Rightarrow> val list \<Rightarrow> bool" where
  "keys_less (d # ds) (a # as) (b # bs) =
     (let c = Compare a b in
      if c \<noteq> 0 then (if d then c > 0 else c < 0) else keys_less ds as bs)"
| "keys_less _ _ _ = False"

section \<open>Planning\<close>

datatype fieldPlan = FieldCol nat | FieldAgg int string bool "expr option" | FieldNow | FieldExpr expr

definition plan_field :: "joinScope \<Rightarrow> bool \<Rightarrow> nat list \<Rightarrow> expr \<times> string \<Rightarrow> (exec_error, fieldPlan \<times> string) res" where
  "plan_field sc grouping gs = (\<lambda>(f, alias).
     let named = (\<lambda>h. if alias \<noteq> [] then alias else h) in
     case f of
       ColRef t n \<Rightarrow> bindE (resolve sc t n) (\<lambda>pos.
         if grouping \<and> pos \<notin> set gs then Err (NotInGroup n)
         else Ok (FieldCol pos, named (headerAt sc pos)))
     | Func n star arg \<Rightarrow>
         if n = ''now'' then Ok (FieldNow, named ''now()'')
         else if IsAggregateFunc n then
           (if \<not> grouping then Err AggNeedsGroup
            else bindE (validateAggregate n star arg sc) (\<lambda>pos. Ok (FieldAgg pos n star arg, named (aggHeader n star arg))))
         else Err (FuncUnsupported n)
     | _ \<Rightarrow>
         if grouping then Err NonAggregateExpr
         else bindE (validateExpr sc f) (\<lambda>_. Ok (FieldExpr f, named ''expr'')))"

definition planFields :: "joinScope \<Rightarrow> select \<Rightarrow> bool \<Rightarrow> nat list \<Rightarrow> (exec_error, (fieldPlan \<times> string) list) res" where
  "planFields sc s grouping gs =
     (if Star s then
        (if grouping then Err StarWithGroup
         else Ok (concat (map (\<lambda>t. map (\<lambda>j. (FieldCol (j_basePos t + j), headerAt sc (j_basePos t + j)))
                [0..<length (td_cols (j_def t))]) sc)))
      else mapE (plan_field sc grouping gs) (zip (Fields s) (FieldAliases s @ replicate (length (Fields s)) [])))"

definition plan_order :: "joinScope \<Rightarrow> bool \<Rightarrow> nat list \<Rightarrow> expr \<Rightarrow> (exec_error, fieldPlan) res" where
  "plan_order sc grouping gs e =
     (if grouping then
        (case e of
           ColRef t n \<Rightarrow> bindE (resolve sc t n) (\<lambda>pos. if pos \<notin> set gs then Err (NotInGroup n) else Ok (FieldCol pos))
         | Func n star arg \<Rightarrow>
             if n = ''now'' then Ok FieldNow
             else if IsAggregateFunc n then
               bindE (validateAggregate n star arg sc) (\<lambda>pos. Ok (FieldAgg pos n star arg))
             else Err (FuncUnsupported n)
         | Lit v \<Rightarrow> Ok (FieldExpr e)
         | _ \<Rightarrow> Err OrderNotGroup)
      else bindE (validateExpr sc e) (\<lambda>_.
        case e of
          ColRef t n \<Rightarrow> bindE (resolve sc t n) (\<lambda>pos. Ok (FieldCol pos))
        | _ \<Rightarrow> Ok (FieldExpr e)))"

definition group_pos :: "joinScope \<Rightarrow> expr \<Rightarrow> (exec_error, nat) res" where
  "group_pos sc g = (case g of ColRef t n \<Rightarrow> resolve sc t n | _ \<Rightarrow> Err GroupNotColumn)"

definition is_agg :: "expr \<Rightarrow> bool" where
  "is_agg e = (case e of Func n star arg \<Rightarrow> IsAggregateFunc n | _ \<Rightarrow> False)"

section \<open>Candidate rows\<close>

definition uniqueEquality :: "expr option \<Rightarrow> string \<Rightarrow> tabledef \<Rightarrow> (nat \<times> val) option" where
  "uniqueEquality wh alias def =
     (case wh of
        Some (Cmp op l r) \<Rightarrow>
          if op \<noteq> ''='' then None
          else (case (case (l, r) of (ColRef t n, Lit v) \<Rightarrow> Some (t, n, v) | (Lit v, ColRef t n) \<Rightarrow> Some (t, n, v) | _ \<Rightarrow> None) of
            None \<Rightarrow> None
          | Some (t, n, v) \<Rightarrow>
              if t \<noteq> [] \<and> t \<noteq> alias then None
              else (case find (\<lambda>i. col_name (td_cols def ! i) = n \<and> col_unique (td_cols def ! i)) [0..<length (td_cols def)] of
                None \<Rightarrow> None
              | Some i \<Rightarrow> (case Check (col_type (td_cols def ! i)) v of Inl _ \<Rightarrow> None | Inr cv \<Rightarrow> Some (i, cv))))
      | _ \<Rightarrow> None)"

definition holds :: "gotime \<Rightarrow> joinScope \<Rightarrow> expr \<Rightarrow> row \<Rightarrow> (exec_error, bool) res" where
  "holds now sc e row = bindE (evalBool now sc e row) (\<lambda>(b, isNull). Ok (b \<and> \<not> isNull))"

definition holds_opt :: "gotime \<Rightarrow> joinScope \<Rightarrow> expr option \<Rightarrow> row \<Rightarrow> (exec_error, bool) res" where
  "holds_opt now sc wh row = (case wh of None \<Rightarrow> Ok True | Some e \<Rightarrow> holds now sc e row)"

definition load_rows :: "'s accessor \<Rightarrow> 's \<Rightarrow> joinTable \<Rightarrow> (exec_error, row list) res" where
  "load_rows acc st t = (case j_rows t of
     Some rows \<Rightarrow> Ok rows
   | None \<Rightarrow> (case ac_AllRows acc (td_name (j_def t)) st of Inl e \<Rightarrow> Err (StorageErr e) | Inr (ids, rows) \<Rightarrow> Ok rows))"

definition join_row :: "gotime \<Rightarrow> joinScope \<Rightarrow> expr \<Rightarrow> bool \<Rightarrow> nat \<Rightarrow> row list \<Rightarrow> row \<Rightarrow> (exec_error, row list) res" where
  "join_row now partial on left width rrows lrow =
     bindE (filterE (holds now partial on) (map (\<lambda>rrow. lrow @ rrow) rrows)) (\<lambda>ms.
       Ok (if left \<and> ms = [] then [lrow @ replicate width VNull] else ms))"

fun join_loop :: "gotime \<Rightarrow> joinScope \<Rightarrow> select \<Rightarrow> row list list \<Rightarrow> nat list \<Rightarrow> row list \<Rightarrow> (exec_error, row list) res" where
  "join_loop now sc s tableRows [] joined = Ok joined"
| "join_loop now sc s tableRows (i # is) joined =
     (if i - 1 < length (On s) \<and> i - 1 < length (JoinKinds s) then
        bindE (mapE (join_row now (sub_scope (i + 1) sc) (On s ! (i - 1)) (JoinKinds s ! (i - 1) = ''left'')
                 (length (td_cols (j_def (sc ! i)))) (tableRows ! i)) joined)
          (\<lambda>xss. join_loop now sc s tableRows is (concat xss))
      else Err Panic)"

definition collectJoined :: "gotime \<Rightarrow> 's accessor \<Rightarrow> 's \<Rightarrow> joinScope \<Rightarrow> select \<Rightarrow> (exec_error, row list) res" where
  "collectJoined now acc st sc s =
     bindE (mapE (load_rows acc st) sc) (\<lambda>tableRows.
       if tableRows = [] then Err Panic
       else bindE (join_loop now sc s tableRows [1..<length sc] (hd tableRows))
              (filterE (holds_opt now sc (Where s))))"

definition select_rows :: "gotime \<Rightarrow> 's accessor \<Rightarrow> 's \<Rightarrow> joinScope \<Rightarrow> select \<Rightarrow> (exec_error, row list) res" where
  "select_rows now acc st sc s =
     (case sc of
        [t] \<Rightarrow>
          if j_rows t \<noteq> None then collectJoined now acc st sc s
          else (case uniqueEquality (Where s) (j_alias t) (j_def t) of
            None \<Rightarrow> collectJoined now acc st sc s
          | Some (ci, lit) \<Rightarrow>
              (case ac_UniqueGet acc (td_name (j_def t)) ci lit st of
                 None \<Rightarrow> Ok []
               | Some i \<Rightarrow> (case ac_Get acc (td_name (j_def t)) i st of
                   None \<Rightarrow> Ok []
                 | Some row \<Rightarrow> filterE (holds_opt now sc (Where s)) [row])))
      | _ \<Rightarrow> collectJoined now acc st sc s)"

section \<open>Output\<close>

definition limit_rows :: "int64 option \<Rightarrow> 'a list \<Rightarrow> (exec_error, 'a list) res" where
  "limit_rows lim xs = (case lim of
     None \<Rightarrow> Ok xs
   | Some k \<Rightarrow> if int (length xs) > k then (if k < 0 then Err Panic else Ok (take (nat k) xs)) else Ok xs)"

definition plan_value :: "gotime \<Rightarrow> joinScope \<Rightarrow> row \<Rightarrow> fieldPlan \<Rightarrow> (exec_error, val) res" where
  "plan_value now sc row p = (case p of
     FieldCol pos \<Rightarrow> cell row (int pos)
   | FieldNow \<Rightarrow> Ok (VTime now)
   | FieldExpr e \<Rightarrow> evalValue now sc e row
   | FieldAgg _ _ _ _ \<Rightarrow> Err UnsupportedExpr)"

definition order_by :: "select \<Rightarrow> ('a \<Rightarrow> (exec_error, val list) res) \<Rightarrow> 'a list \<Rightarrow> (exec_error, 'a list) res" where
  "order_by s keys xs =
     bindE (mapE keys xs) (\<lambda>ks.
       Ok (map snd (SliceStable (\<lambda>a b. keys_less (map ot_Desc (Order s)) (fst a) (fst b)) (zip ks xs))))"

definition plain_result ::
  "gotime \<Rightarrow> joinScope \<Rightarrow> select \<Rightarrow> (fieldPlan \<times> string) list \<Rightarrow> fieldPlan list \<Rightarrow> row list \<Rightarrow> (exec_error, exec_result) res" where
  "plain_result now sc s plans orderPlans filtered =
     bindE (if orderPlans = [] then Ok filtered
            else order_by s (\<lambda>row. mapE (plan_value now sc row) orderPlans) filtered) (\<lambda>rows.
     bindE (limit_rows (Limit s) rows) (\<lambda>rows.
     bindE (mapE (\<lambda>row. mapE (plan_value now sc row) (map fst plans)) rows) (\<lambda>out.
       Ok \<lparr>r_Columns = map snd plans, r_Rows = out, r_Affected = 0\<rparr>)))"

type_synonym grp = "row \<times> row list"

fun add_group :: "string \<Rightarrow> row \<Rightarrow> (string \<times> grp) list \<Rightarrow> (string \<times> grp) list" where
  "add_group key row [] = [(key, row, [row])]"
| "add_group key row ((k, repr, rows) # gs) =
     (if k = key then (k, repr, rows @ [row]) # gs else (k, repr, rows) # add_group key row gs)"

definition group_key :: "(nat \<Rightarrow> bool) \<Rightarrow> nat list \<Rightarrow> row \<Rightarrow> (exec_error, string) res" where
  "group_key isPrint groupPos row =
     bindE (mapE (\<lambda>p. cell row (int p)) groupPos) (\<lambda>vs. Ok (concat (map (\<lambda>v. valKeyPart isPrint v @ [CHR 0x00]) vs)))"

fun group_loop :: "(nat \<Rightarrow> bool) \<Rightarrow> nat list \<Rightarrow> row list \<Rightarrow> (string \<times> grp) list \<Rightarrow> (exec_error, (string \<times> grp) list) res" where
  "group_loop isPrint groupPos [] gs = Ok gs"
| "group_loop isPrint groupPos (row # rows) gs =
     bindE (group_key isPrint groupPos row) (\<lambda>key. group_loop isPrint groupPos rows (add_group key row gs))"

definition group_rows :: "(nat \<Rightarrow> bool) \<Rightarrow> nat list \<Rightarrow> row list \<Rightarrow> (exec_error, grp list) res" where
  "group_rows isPrint groupPos rows =
     bindE (group_loop isPrint groupPos rows []) (\<lambda>gs.
       Ok (if groupPos = [] \<and> gs = [] then [([], [])] else map snd gs))"

definition group_value :: "gotime \<Rightarrow> joinScope \<Rightarrow> grp \<Rightarrow> fieldPlan \<Rightarrow> (exec_error, val) res" where
  "group_value now sc g p = (case p of
     FieldCol pos \<Rightarrow> cell (fst g) (int pos)
   | FieldAgg pos n star arg \<Rightarrow> evalAggregate n star (snd g) pos
   | FieldNow \<Rightarrow> Ok (VTime now)
   | FieldExpr e \<Rightarrow> evalValue now sc e (fst g))"

definition keep_group :: "gotime \<Rightarrow> joinScope \<Rightarrow> expr option \<Rightarrow> grp \<Rightarrow> (exec_error, bool) res" where
  "keep_group now sc having g = (case having of
     None \<Rightarrow> Ok True
   | Some h \<Rightarrow> bindE (evalBoolCtx now sc h (fst g) (Some \<lparr>g_rows = snd g, g_nowVal = VTime now\<rparr>)) (\<lambda>(b, isNull). Ok (b \<and> \<not> isNull)))"

definition group_result ::
  "world \<Rightarrow> joinScope \<Rightarrow> select \<Rightarrow> nat list \<Rightarrow> (fieldPlan \<times> string) list \<Rightarrow> fieldPlan list \<Rightarrow> row list \<Rightarrow> (exec_error, exec_result) res" where
  "group_result w sc s groupPos plans orderPlans filtered =
     bindE (group_rows (w_isPrint w) groupPos filtered) (\<lambda>groups.
     bindE (filterE (keep_group (w_now w) sc (Having s)) groups) (\<lambda>groups.
     bindE (if orderPlans = [] then Ok groups
            else order_by s (\<lambda>g. mapE (group_value (w_now w) sc g) orderPlans) groups) (\<lambda>groups.
     bindE (limit_rows (Limit s) groups) (\<lambda>groups.
     bindE (mapE (\<lambda>g. mapE (group_value (w_now w) sc g) (map fst plans)) groups) (\<lambda>out.
       Ok \<lparr>r_Columns = map snd plans, r_Rows = out, r_Affected = 0\<rparr>)))))"

section \<open>SELECT\<close>

definition kind_type :: "kind \<Rightarrow> column_type" where
  "kind_type k = (case k of
     KindInt \<Rightarrow> TypeInt | KindFloat \<Rightarrow> TypeFloat | KindBool \<Rightarrow> TypeBool | KindTime \<Rightarrow> TypeTimestamp | _ \<Rightarrow> TypeText)"

definition plain_column :: "string \<Rightarrow> column_type \<Rightarrow> column" where
  "plain_column name ct = \<lparr>col_name = name, col_type = ct, col_notnull = False, col_primary = False, col_autoinc = False,
     col_unique = False, col_fktable = [], col_fkcol = []\<rparr>"

definition derivedDef :: "string \<Rightarrow> exec_result \<Rightarrow> (exec_error, tabledef) res" where
  "derivedDef alias res =
     bindE (mapE (\<lambda>(i, h). case r_Rows res of
         [] \<Rightarrow> Ok (plain_column h TypeText)
       | row # _ \<Rightarrow> bindE (cell row (int i)) (\<lambda>v. Ok (plain_column h (kind_type (kind_of v)))))
       (zip [0..<length (r_Columns res)] (r_Columns res))) (\<lambda>cols. Ok \<lparr>td_name = alias, td_cols = cols\<rparr>)"

fun build_scope ::
  "(select \<Rightarrow> (exec_error, exec_result) res) \<Rightarrow> 's accessor \<Rightarrow> 's \<Rightarrow> string list \<Rightarrow> nat \<Rightarrow> tableref list \<Rightarrow> (exec_error, joinScope) res" where
  "build_scope ex acc st seen base [] = Ok []"
| "build_scope ex acc st seen base (tr # trs) =
     bindE (case tr_Sub tr of
         Some q \<Rightarrow> bindE (ex q) (\<lambda>res. bindE (derivedDef (tr_Alias tr) res) (\<lambda>def.
           Ok (def, if r_Rows res = [] then None else Some (r_Rows res))))
       | None \<Rightarrow> bindE (Exec_tableDef acc (tr_Table tr) st) (\<lambda>def. Ok (def, None))) (\<lambda>(def, rows).
       if tr_Alias tr \<in> set seen then Err (DuplicateAlias (tr_Alias tr))
       else bindE (build_scope ex acc st (tr_Alias tr # seen) (base + length (td_cols def)) trs) (\<lambda>js.
         Ok (\<lparr>j_def = def, j_alias = tr_Alias tr, j_basePos = base, j_colIdx = colIndexMap def, j_rows = rows\<rparr> # js)))"

definition mapE_opt :: "('a \<Rightarrow> ('e, 'b) res) \<Rightarrow> 'a option \<Rightarrow> ('e, 'b option) res" where
  "mapE_opt f x = (case x of None \<Rightarrow> Ok None | Some a \<Rightarrow> bindE (f a) (\<lambda>b. Ok (Some b)))"

definition resolve_subqueries :: "(select \<Rightarrow> (exec_error, exec_result) res) \<Rightarrow> select \<Rightarrow> (exec_error, select) res" where
  "resolve_subqueries ex s =
     bindE (mapE_opt (resolveInSubqueries ex) (Where s)) (\<lambda>wh.
     bindE (mapE_opt (resolveInSubqueries ex) (Having s)) (\<lambda>hv.
     bindE (mapE (resolveInSubqueries ex) (On s)) (\<lambda>ons.
       Ok (Select (Tables s) ons (JoinKinds s) (Star s) (Fields s) (FieldAliases s) wh (Group s) hv (Order s) (Limit s)))))"

text \<open>The part of \<open>execSelect\<close> after subqueries are gone: checks, plan, candidate rows, result.\<close>

definition run_select :: "world \<Rightarrow> 's accessor \<Rightarrow> 's \<Rightarrow> joinScope \<Rightarrow> select \<Rightarrow> (exec_error, exec_result) res" where
  "run_select w acc st sc s =
     bindE (mapE (\<lambda>(i, on). validateExpr (sub_scope (i + 2) sc) on) (zip [0..<length (On s)] (On s))) (\<lambda>_.
     bindE (mapE_opt (validateExpr sc) (Where s)) (\<lambda>_.
     bindE (mapE (group_pos sc) (Group s)) (\<lambda>groupPos.
     let grouping = (groupPos \<noteq> [] \<or> list_ex is_agg (Fields s) \<or> Having s \<noteq> None) in
     bindE (mapE_opt (\<lambda>h. validateHaving sc h groupPos) (Having s)) (\<lambda>_.
     bindE (planFields sc s grouping groupPos) (\<lambda>plans.
     bindE (mapE (\<lambda>ot. plan_order sc grouping groupPos (ot_Expr ot)) (Order s)) (\<lambda>orderPlans.
     bindE (select_rows (w_now w) acc st sc s) (\<lambda>filtered.
       if grouping then group_result w sc s groupPos plans orderPlans filtered
       else plain_result (w_now w) sc s plans orderPlans filtered)))))))"

definition select_body ::
  "world \<Rightarrow> 's accessor \<Rightarrow> 's \<Rightarrow> (select \<Rightarrow> (exec_error, exec_result) res) \<Rightarrow> select \<Rightarrow> (exec_error, exec_result) res" where
  "select_body w acc st ex s =
     bindE (build_scope ex acc st [] 0 (Tables s)) (\<lambda>sc.
     bindE (resolve_subqueries ex s) (run_select w acc st sc))"

text \<open>
  The recursion runs through derived tables and IN subqueries. The congruence rules below tell the termination proof
  which statements the body passes to \<open>ex\<close>: only those inside the statement, which are smaller.
\<close>

fun in_subs :: "expr \<Rightarrow> select set" where
  "in_subs (InSub x q nt) = {q}"
| "in_subs (Cmp op l r) = in_subs l \<union> in_subs r"
| "in_subs (And l r) = in_subs l \<union> in_subs r"
| "in_subs (Or l r) = in_subs l \<union> in_subs r"
| "in_subs (NotE x) = in_subs x"
| "in_subs (IsNullE x nt) = in_subs x"
| "in_subs (Binary op l r) = in_subs l \<union> in_subs r"
| "in_subs (InList x xs nt) = in_subs x"
| "in_subs _ = {}"

definition subqueries :: "select \<Rightarrow> select set" where
  "subqueries s = (\<Union>tr\<in>set (Tables s). set_option (tr_Sub tr)) \<union> (\<Union>e\<in>set_option (Where s) \<union> set_option (Having s) \<union> set (On s). in_subs e)"

lemma in_subs_size: "q \<in> in_subs e \<Longrightarrow> size q < size e"
  by (induction e rule: in_subs.induct) auto

lemma tr_sub_size: "q \<in> set_option (tr_Sub tr) \<Longrightarrow> size q < size tr"
  by (cases tr) auto

lemma list_size_mem: "x \<in> set xs \<Longrightarrow> f x \<le> size_list f xs"
  by (induction xs) auto

lemma subqueries_size: "q \<in> subqueries s \<Longrightarrow> size q < size s"
proof (cases s)
  case (Select tabs ons kinds star flds als wh grp hv ord lim)
  assume "q \<in> subqueries s"
  then consider tr where "tr \<in> set tabs" "q \<in> set_option (tr_Sub tr)" | e where "wh = Some e" "q \<in> in_subs e"
    | e where "hv = Some e" "q \<in> in_subs e" | e where "e \<in> set ons" "q \<in> in_subs e"
    using Select by (auto simp: subqueries_def)
  then show ?thesis
  proof cases
    case 1
    then show ?thesis using Select tr_sub_size [of q tr] list_size_mem [of tr tabs size] by simp
  next
    case 4
    then show ?thesis using Select in_subs_size [of q e] list_size_mem [of e ons size] by simp
  qed (use Select in_subs_size in fastforce)+
qed

lemma bindE_cong [fundef_cong]:
  "m = m' \<Longrightarrow> (\<And>a. m' = Ok a \<Longrightarrow> f a = f' a) \<Longrightarrow> bindE m f = bindE m' f'"
  by (auto simp: bindE_def split: sum.split)

lemma mapE_cong [fundef_cong]: "xs = ys \<Longrightarrow> (\<And>x. x \<in> set ys \<Longrightarrow> f x = g x) \<Longrightarrow> mapE f xs = mapE g ys"
  by (induction ys arbitrary: xs) (auto simp: bindE_def)

lemma mapE_opt_cong [fundef_cong]: "x = y \<Longrightarrow> (\<And>a. a \<in> set_option y \<Longrightarrow> f a = g a) \<Longrightarrow> mapE_opt f x = mapE_opt g y"
  by (cases y) (auto simp: mapE_opt_def)

lemma resolveInSubqueries_cong:
  "(\<And>q. q \<in> in_subs e \<Longrightarrow> ex q = ex' q) \<Longrightarrow> resolveInSubqueries ex e = resolveInSubqueries ex' e"
  by (induction ex e rule: resolveInSubqueries.induct) (auto intro!: bindE_cong)

lemma build_scope_cong:
  "(\<And>tr q. tr \<in> set trs \<Longrightarrow> q \<in> set_option (tr_Sub tr) \<Longrightarrow> ex q = ex' q) \<Longrightarrow>
   build_scope ex acc st seen base trs = build_scope ex' acc st seen base trs"
proof (induction trs arbitrary: seen base)
  case (Cons tr trs)
  have q: "ex q = ex' q" if "tr_Sub tr = Some q" for q using Cons.prems [of tr q] that by simp
  have IH: "build_scope ex acc st seen base trs = build_scope ex' acc st seen base trs" for seen base
    by (rule Cons.IH) (rule Cons.prems, auto)
  show ?case by (auto simp: q IH intro!: bindE_cong split: option.split)
qed simp

lemma select_body_cong [fundef_cong]:
  assumes "s = s'" "\<And>q. q \<in> subqueries s' \<Longrightarrow> ex q = ex' q"
  shows "select_body w acc st ex s = select_body w acc st ex' s'"
proof -
  have "build_scope ex acc st [] 0 (Tables s') = build_scope ex' acc st [] 0 (Tables s')"
    by (intro build_scope_cong assms(2)) (auto simp: subqueries_def)
  moreover have "resolve_subqueries ex s' = resolve_subqueries ex' s'"
    unfolding resolve_subqueries_def
    by (intro bindE_cong mapE_cong mapE_opt_cong resolveInSubqueries_cong refl assms(2)) (auto simp: subqueries_def)
  ultimately show ?thesis using assms(1) by (simp add: select_body_def)
qed

function execSelect :: "world \<Rightarrow> 's accessor \<Rightarrow> 's \<Rightarrow> select \<Rightarrow> (exec_error, exec_result) res" where
  "execSelect w acc st s = select_body w acc st (execSelect w acc st) s"
  by pat_completeness auto
termination
  by (relation "measure (\<lambda>(_, _, _, s). size s)") (auto intro: subqueries_size)

declare execSelect.simps [simp del]

end
