(* ===== verification/Exec.thy ===== *)
theory Exec
  imports Select
begin

text \<open>
  The statements of \<open>internal/executor/executor.go\<close> that write: foreign keys (\<open>validateFK\<close>, \<open>checkFK\<close>, \<open>fkReferenced\<close>), INSERT,
  UPDATE, DELETE, CREATE and DROP TABLE, and the dispatch \<open>Exec\<close>. A statement returns its result or error together with the
  state it leaves, since an error in the middle keeps the rows written before it.
\<close>

section \<open>Foreign keys\<close>

definition find_col :: "tabledef \<Rightarrow> string \<Rightarrow> nat option" where
  "find_col def cn = find (\<lambda>i. col_name (td_cols def ! i) = cn) [0..<length (td_cols def)]"

definition validateFK :: "tabledef list \<Rightarrow> string \<Rightarrow> column \<Rightarrow> string \<Rightarrow> string \<Rightarrow> (exec_error, column) res" where
  "validateFK cat thisTable col refTable refCol =
     (if refTable = thisTable then Err (FKSelfReference refTable)
      else case find (\<lambda>d. td_name d = refTable) cat of
        None \<Rightarrow> Err (FKUnknownTable refTable)
      | Some pdef \<Rightarrow>
          bindE (if refCol \<noteq> [] then Ok refCol
                 else case find col_primary (td_cols pdef) of
                   Some pc \<Rightarrow> if col_name pc = [] then Err (FKNoPrimaryKey refTable) else Ok (col_name pc)
                 | None \<Rightarrow> Err (FKNoPrimaryKey refTable)) (\<lambda>target.
          case find (\<lambda>pc. col_name pc = target) (td_cols pdef) of
            None \<Rightarrow> Err (FKNoColumn target refTable)
          | Some pt \<Rightarrow>
              if \<not> col_primary pt then Err (FKNotPrimary refTable target)
              else if col_type pt \<noteq> col_type col then Err (FKTypeMismatch (col_name col) (col_type col) (col_name pt) (col_type pt))
              else Ok (col\<lparr>col_fktable := refTable, col_fkcol := target\<rparr>)))"

fun check_fk_cols :: "'s accessor \<Rightarrow> string \<Rightarrow> row \<Rightarrow> 's \<Rightarrow> (nat \<times> column) list \<Rightarrow> (exec_error, unit) res" where
  "check_fk_cols acc tn row st [] = Ok ()"
| "check_fk_cols acc tn row st ((ci, c) # cs) =
     (if col_fktable c = [] then check_fk_cols acc tn row st cs
      else bindE (cell row (int ci)) (\<lambda>v.
        case v of
          VNull \<Rightarrow> check_fk_cols acc tn row st cs
        | VInt i \<Rightarrow>
            if ac_Get acc (col_fktable c) i st = None then Err (FKNoParent tn i (col_fktable c))
            else check_fk_cols acc tn row st cs
        | _ \<Rightarrow> Err (FKNotInteger (col_name c) tn)))"

definition checkFK :: "'s accessor \<Rightarrow> tabledef \<Rightarrow> row \<Rightarrow> 's \<Rightarrow> (exec_error, unit) res" where
  "checkFK acc def row st = check_fk_cols acc (td_name def) row st (zip [0..<length (td_cols def)] (td_cols def))"

text \<open>Whether a row other than the skipped one holds the value in the column.\<close>

definition row_refers :: "int64 \<Rightarrow> nat \<Rightarrow> row \<Rightarrow> bool" where
  "row_refers pk ci r \<longleftrightarrow> ci < length r \<and> r ! ci = VInt pk"

definition col_refers :: "'s accessor \<Rightarrow> 's \<Rightarrow> string \<Rightarrow> int64 \<Rightarrow> string \<Rightarrow> int64 \<Rightarrow> tabledef \<Rightarrow> nat \<times> column \<Rightarrow> bool" where
  "col_refers acc st parent pk skipTable skipRowID d = (\<lambda>(ci, c).
     col_fktable c = parent \<and>
     (case ac_AllRows acc (td_name d) st of
        Inl _ \<Rightarrow> False
      | Inr (ids, rows) \<Rightarrow>
          list_ex (\<lambda>(i, r). \<not> (td_name d = skipTable \<and> i = skipRowID) \<and> row_refers pk ci r) (zip ids rows)))"

definition fkReferenced :: "'s accessor \<Rightarrow> string \<Rightarrow> int64 \<Rightarrow> string \<Rightarrow> int64 \<Rightarrow> 's \<Rightarrow> (exec_error, unit) res" where
  "fkReferenced acc parent pk skipTable skipRowID st =
     (case find (\<lambda>d. list_ex (col_refers acc st parent pk skipTable skipRowID d)
              (zip [0..<length (td_cols d)] (td_cols d))) (ac_Catalog acc st) of
        Some d \<Rightarrow> Err (FKReferenced parent (td_name d))
      | None \<Rightarrow> Ok ())"

section \<open>INSERT\<close>

definition evalInsertValue :: "gotime \<Rightarrow> expr \<Rightarrow> (exec_error, val) res" where
  "evalInsertValue now e = (case e of
     Lit v \<Rightarrow> Ok v
   | Func n star arg \<Rightarrow> if n = ''now'' then Ok (VTime now) else Err (FuncUnsupported n)
   | _ \<Rightarrow> Err OnlyLiterals)"

fun target_cols :: "tabledef \<Rightarrow> string \<Rightarrow> nat list \<Rightarrow> string list \<Rightarrow> (exec_error, nat list) res" where
  "target_cols def tbl seen [] = Ok []"
| "target_cols def tbl seen (cn # cns) =
     (case find_col def cn of
        None \<Rightarrow> Err (NoTargetColumn cn tbl)
      | Some i \<Rightarrow>
          if i \<in> set seen then Err (DuplicateTarget cn)
          else bindE (target_cols def tbl (i # seen) cns) (\<lambda>idx. Ok (i # idx)))"

definition insert_index :: "tabledef \<Rightarrow> string \<Rightarrow> string list \<Rightarrow> (exec_error, nat list) res" where
  "insert_index def tbl cols =
     (if cols = [] then Ok [0..<length (td_cols def)] else target_cols def tbl [] cols)"

definition coerce_to :: "tabledef \<Rightarrow> nat \<Rightarrow> val \<Rightarrow> (exec_error, val) res" where
  "coerce_to def i v = (case coerce (td_cols def ! i) v of
     Inl ce \<Rightarrow> Err (BadValue (col_name (td_cols def ! i)) ce) | Inr cv \<Rightarrow> Ok cv)"

fun insert_cells :: "gotime \<Rightarrow> tabledef \<Rightarrow> (nat \<times> expr) list \<Rightarrow> row \<Rightarrow> (exec_error, row) res" where
  "insert_cells now def [] row = Ok row"
| "insert_cells now def ((i, e) # xs) row =
     bindE (evalInsertValue now e) (\<lambda>v. bindE (coerce_to def i v) (\<lambda>cv. insert_cells now def xs (row[i := cv])))"

text \<open>The row id: \<open>None\<close> asks the storage layer for the next one.\<close>

definition insert_pk :: "tabledef \<Rightarrow> string \<Rightarrow> row \<Rightarrow> (exec_error, int64 option) res" where
  "insert_pk def tbl row =
     (case pkIndex def of
        None \<Rightarrow> Ok (Some 0)
      | Some pk \<Rightarrow>
          (case row ! pk of
             VNull \<Rightarrow> if col_autoinc (td_cols def ! pk) then Ok None else Err (NullViolation (col_name (td_cols def ! pk)) tbl)
           | VInt i \<Rightarrow> Ok (Some i)
           | _ \<Rightarrow> Err (PKNotInteger (col_name (td_cols def ! pk)))))"

definition check_not_null :: "tabledef \<Rightarrow> string \<Rightarrow> row \<Rightarrow> (exec_error, unit) res" where
  "check_not_null def tbl row =
     (case find (\<lambda>(c, v). \<not> col_primary c \<and> col_notnull c \<and> IsNull v) (zip (td_cols def) row) of
        Some (c, v) \<Rightarrow> Err (NullViolation (col_name c) tbl)
      | None \<Rightarrow> Ok ())"

definition insert_check :: "gotime \<Rightarrow> 's accessor \<Rightarrow> tabledef \<Rightarrow> string \<Rightarrow> nat list \<Rightarrow> nat \<Rightarrow> expr list \<Rightarrow> 's \<Rightarrow> (exec_error, row \<times> int64 option) res" where
  "insert_check now acc def tbl idx ri es st =
     (if length es \<noteq> length idx then Err (InsertArity (length es) (length idx) ri)
      else bindE (insert_cells now def (zip idx es) (replicate (length (td_cols def)) VNull)) (\<lambda>row.
        bindE (insert_pk def tbl row) (\<lambda>rid.
        bindE (check_not_null def tbl row) (\<lambda>_.
        bindE (checkFK acc def row st) (\<lambda>_. Ok (row, rid))))))"

definition write_error :: "string \<Rightarrow> int64 \<Rightarrow> storage_error \<Rightarrow> exec_error" where
  "write_error tbl rid e = (case e of
     ErrExists \<Rightarrow> DuplicateKey tbl (Some rid)
   | ErrUnique \<Rightarrow> DuplicateKey tbl None
   | _ \<Rightarrow> StorageErr e)"

definition insert_row :: "gotime \<Rightarrow> 's accessor \<Rightarrow> tabledef \<Rightarrow> string \<Rightarrow> nat list \<Rightarrow> nat \<Rightarrow> expr list \<Rightarrow> 's \<Rightarrow> (exec_error, unit) res \<times> 's" where
  "insert_row now acc def tbl idx ri es st =
     (case insert_check now acc def tbl idx ri es st of
        Inl e \<Rightarrow> (Err e, st)
      | Inr (row, None) \<Rightarrow>
          (case ac_PutAuto acc tbl (int (the (pkIndex def))) row st of
             (Inl e, st) \<Rightarrow> (Err (write_error tbl 0 e), st) | (Inr _, st) \<Rightarrow> (Ok (), st))
      | Inr (row, Some rid) \<Rightarrow>
          (case ac_Put acc tbl rid row st of
             (Inl e, st) \<Rightarrow> (Err (write_error tbl rid e), st) | (Inr _, st) \<Rightarrow> (Ok (), st)))"

fun insert_rows :: "gotime \<Rightarrow> 's accessor \<Rightarrow> tabledef \<Rightarrow> string \<Rightarrow> nat list \<Rightarrow> nat \<Rightarrow> expr list list \<Rightarrow> 's \<Rightarrow> (exec_error, unit) res \<times> 's" where
  "insert_rows now acc def tbl idx ri [] st = (Ok (), st)"
| "insert_rows now acc def tbl idx ri (es # rows) st =
     (case insert_row now acc def tbl idx ri es st of
        (Inl e, st) \<Rightarrow> (Err e, st) | (Inr _, st) \<Rightarrow> insert_rows now acc def tbl idx (Suc ri) rows st)"

definition affected :: "nat \<Rightarrow> exec_result" where
  "affected n = \<lparr>r_Columns = [], r_Rows = [], r_Affected = n\<rparr>"

definition execInsert :: "world \<Rightarrow> 's accessor \<Rightarrow> string \<Rightarrow> string list \<Rightarrow> expr list list \<Rightarrow> 's \<Rightarrow> (exec_error, exec_result) res \<times> 's" where
  "execInsert w acc tbl cols rows st =
     (case bindE (Exec_tableDef acc tbl st) (\<lambda>def. bindE (insert_index def tbl cols) (\<lambda>idx. Ok (def, idx))) of
        Inl e \<Rightarrow> (Err e, st)
      | Inr (def, idx) \<Rightarrow>
          (case insert_rows (w_now w) acc def tbl idx 1 rows st of
             (Inl e, st) \<Rightarrow> (Err e, st) | (Inr _, st) \<Rightarrow> (Ok (affected (length rows)), st)))"

section \<open>UPDATE and DELETE\<close>

definition collectCandidates ::
  "gotime \<Rightarrow> 's accessor \<Rightarrow> string \<Rightarrow> tabledef \<Rightarrow> joinScope \<Rightarrow> expr option \<Rightarrow> 's \<Rightarrow> (exec_error, (int64 \<times> row) list) res" where
  "collectCandidates now acc name def sc wh st =
     (case uniqueEquality wh name def of
        Some (ci, lit) \<Rightarrow>
          (case ac_UniqueGet acc name ci lit st of
             None \<Rightarrow> Ok []
           | Some i \<Rightarrow> (case ac_Get acc name i st of
               None \<Rightarrow> Ok []
             | Some row \<Rightarrow> filterE (\<lambda>(_, row). holds_opt now sc wh row) [(i, row)]))
      | None \<Rightarrow>
          (case ac_AllRows acc name st of
             Inl _ \<Rightarrow> Err (NoRelation name)
           | Inr (ids, rows) \<Rightarrow> filterE (\<lambda>(_, row). holds_opt now sc wh row) (zip ids rows)))"

text \<open>The WHERE clause of an UPDATE or DELETE: subqueries run first, then the columns are checked.\<close>

definition prepare_where :: "world \<Rightarrow> 's accessor \<Rightarrow> 's \<Rightarrow> joinScope \<Rightarrow> expr option \<Rightarrow> (exec_error, expr option) res" where
  "prepare_where w acc st sc wh = mapE_opt (\<lambda>e.
     bindE (resolveInSubqueries (execSelect w acc st) e) (\<lambda>e. bindE (validateExpr sc e) (\<lambda>_. Ok e))) wh"

definition set_target :: "tabledef \<Rightarrow> string \<times> expr \<Rightarrow> (exec_error, nat \<times> expr) res" where
  "set_target def = (\<lambda>(cn, e). case find_col def cn of None \<Rightarrow> Err (NoColumn cn) | Some i \<Rightarrow> Ok (i, e))"

fun set_cells :: "gotime \<Rightarrow> joinScope \<Rightarrow> tabledef \<Rightarrow> row \<Rightarrow> (nat \<times> expr) list \<Rightarrow> row \<Rightarrow> (exec_error, row) res" where
  "set_cells now sc def old [] row = Ok row"
| "set_cells now sc def old ((i, e) # xs) row =
     bindE (evalValue now sc e old) (\<lambda>v. bindE (coerce_to def i v) (\<lambda>cv.
       if i < length row then set_cells now sc def old xs (row[i := cv]) else Err Panic))"

text \<open>The new primary key when it differs from the old one.\<close>

definition pk_move :: "tabledef \<Rightarrow> row \<Rightarrow> row \<Rightarrow> (exec_error, int64 option) res" where
  "pk_move def old new =
     (case pkIndex def of
        None \<Rightarrow> Ok None
      | Some pk \<Rightarrow> bindE (cell new (int pk)) (\<lambda>v. bindE (cell old (int pk)) (\<lambda>u.
          case (v, u) of (VInt i, VInt j) \<Rightarrow> Ok (if i \<noteq> j then Some i else None) | _ \<Rightarrow> Ok None)))"

definition update_check ::
  "gotime \<Rightarrow> 's accessor \<Rightarrow> tabledef \<Rightarrow> string \<Rightarrow> joinScope \<Rightarrow> (nat \<times> expr) list \<Rightarrow> int64 \<times> row \<Rightarrow> 's \<Rightarrow> (exec_error, row \<times> int64 option) res" where
  "update_check now acc def tbl sc sets c st =
     bindE (set_cells now sc def (snd c) sets (snd c)) (\<lambda>row.
     bindE (checkFK acc def row st) (\<lambda>_.
     bindE (pk_move def (snd c) row) (\<lambda>mv. Ok (row, mv))))"

definition update_row ::
  "gotime \<Rightarrow> 's accessor \<Rightarrow> tabledef \<Rightarrow> string \<Rightarrow> joinScope \<Rightarrow> (nat \<times> expr) list \<Rightarrow> int64 \<times> row \<Rightarrow> 's \<Rightarrow> (exec_error, unit) res \<times> 's" where
  "update_row now acc def tbl sc sets c st =
     (case update_check now acc def tbl sc sets c st of
        Inl e \<Rightarrow> (Err e, st)
      | Inr (row, Some i) \<Rightarrow>
          (case fkReferenced acc tbl (fst c) tbl (fst c) st of
             Inl e \<Rightarrow> (Err e, st)
           | Inr _ \<Rightarrow>
               (case ac_Delete acc tbl (fst c) st of
                  (Inl e, st) \<Rightarrow> (Err (StorageErr e), st)
                | (Inr _, st) \<Rightarrow>
                    (case ac_Put acc tbl i row st of
                       (Inl e, st) \<Rightarrow> (Err (write_error tbl i e), st) | (Inr _, st) \<Rightarrow> (Ok (), st))))
      | Inr (row, None) \<Rightarrow>
          (case ac_Update acc tbl (fst c) row st of
             (Inl e, st) \<Rightarrow> (Err (if e = ErrUnique then DuplicateKey tbl None else StorageErr e), st)
           | (Inr _, st) \<Rightarrow> (Ok (), st)))"

definition delete_row :: "'s accessor \<Rightarrow> string \<Rightarrow> int64 \<times> row \<Rightarrow> 's \<Rightarrow> (exec_error, unit) res \<times> 's" where
  "delete_row acc tbl c st =
     (case fkReferenced acc tbl (fst c) tbl (fst c) st of
        Inl e \<Rightarrow> (Err e, st)
      | Inr _ \<Rightarrow>
          (case ac_Delete acc tbl (fst c) st of
             (Inl e, st) \<Rightarrow> (Err (StorageErr e), st) | (Inr _, st) \<Rightarrow> (Ok (), st)))"

text \<open>The loop over the candidates; the first error ends it and keeps what was done.\<close>

fun each_row :: "('c \<Rightarrow> 's \<Rightarrow> (exec_error, unit) res \<times> 's) \<Rightarrow> 'c list \<Rightarrow> 's \<Rightarrow> (exec_error, unit) res \<times> 's" where
  "each_row f [] st = (Ok (), st)"
| "each_row f (c # cs) st = (case f c st of (Inl e, st) \<Rightarrow> (Err e, st) | (Inr _, st) \<Rightarrow> each_row f cs st)"

definition plan_update ::
  "world \<Rightarrow> 's accessor \<Rightarrow> string \<Rightarrow> (string \<times> expr) list \<Rightarrow> expr option \<Rightarrow> 's \<Rightarrow>
   (exec_error, tabledef \<times> (nat \<times> expr) list \<times> (int64 \<times> row) list) res" where
  "plan_update w acc tbl sets wh st =
     bindE (Exec_tableDef acc tbl st) (\<lambda>def. let sc = singleTableScope def in
     bindE (mapE (set_target def) sets) (\<lambda>tgts.
     bindE (mapE (\<lambda>(_, e). validateExpr sc e) sets) (\<lambda>_.
     bindE (prepare_where w acc st sc wh) (\<lambda>wh.
     bindE (collectCandidates (w_now w) acc tbl def sc wh st) (\<lambda>cands. Ok (def, tgts, cands))))))"

definition execUpdate :: "world \<Rightarrow> 's accessor \<Rightarrow> string \<Rightarrow> (string \<times> expr) list \<Rightarrow> expr option \<Rightarrow> 's \<Rightarrow> (exec_error, exec_result) res \<times> 's" where
  "execUpdate w acc tbl sets wh st =
     (case plan_update w acc tbl sets wh st of
        Inl e \<Rightarrow> (Err e, st)
      | Inr (def, tgts, cands) \<Rightarrow>
          (case each_row (update_row (w_now w) acc def tbl (singleTableScope def) tgts) cands st of
             (Inl e, st) \<Rightarrow> (Err e, st) | (Inr _, st) \<Rightarrow> (Ok (affected (length cands)), st)))"

definition plan_delete :: "world \<Rightarrow> 's accessor \<Rightarrow> string \<Rightarrow> expr option \<Rightarrow> 's \<Rightarrow> (exec_error, (int64 \<times> row) list) res" where
  "plan_delete w acc tbl wh st =
     bindE (Exec_tableDef acc tbl st) (\<lambda>def. let sc = singleTableScope def in
     bindE (prepare_where w acc st sc wh) (\<lambda>wh. collectCandidates (w_now w) acc tbl def sc wh st))"

definition execDelete :: "world \<Rightarrow> 's accessor \<Rightarrow> string \<Rightarrow> expr option \<Rightarrow> 's \<Rightarrow> (exec_error, exec_result) res \<times> 's" where
  "execDelete w acc tbl wh st =
     (case plan_delete w acc tbl wh st of
        Inl e \<Rightarrow> (Err e, st)
      | Inr cands \<Rightarrow>
          (case each_row (delete_row acc tbl) cands st of
             (Inl e, st) \<Rightarrow> (Err e, st) | (Inr _, st) \<Rightarrow> (Ok (affected (length cands)), st)))"

section \<open>DDL and dispatch\<close>

definition create_column :: "tabledef list \<Rightarrow> string \<Rightarrow> columndef \<Rightarrow> (exec_error, column) res" where
  "create_column cat tbl c =
     (let col = \<lparr>col_name = cd_Name c, col_type = cd_Type c, col_notnull = cd_NotNull c, col_primary = cd_Primary c,
        col_autoinc = cd_AutoInc c, col_unique = cd_Unique c, col_fktable = [], col_fkcol = []\<rparr> in
      if cd_RefTable c \<noteq> [] then validateFK cat tbl col (cd_RefTable c) (cd_RefCol c) else Ok col)"

definition execCreate :: "gob \<Rightarrow> string \<Rightarrow> columndef list \<Rightarrow> engine \<Rightarrow> (exec_error, exec_result) res \<times> engine" where
  "execCreate g tbl cds eng =
     (case mapE (create_column (Engine_Catalog eng) tbl) cds of
        Inl e \<Rightarrow> (Err e, eng)
      | Inr cols \<Rightarrow>
          (case Engine_CreateTable g tbl cols eng of
             (Inl e, eng) \<Rightarrow> (Err (if e = ErrExists then RelationExists tbl else CreateFailed e), eng)
           | (Inr _, eng) \<Rightarrow> (Ok (affected 0), eng)))"

definition execDrop :: "gob \<Rightarrow> string \<Rightarrow> bool \<Rightarrow> engine \<Rightarrow> (exec_error, exec_result) res \<times> engine" where
  "execDrop g tbl ifExists eng =
     (case Engine_DropTable g tbl eng of
        (Inl e, eng) \<Rightarrow>
          (if e = ErrNoTable then (if ifExists then Ok (affected 0) else Err (NoRelation tbl)) else Err (StorageErr e), eng)
      | (Inr _, eng) \<Rightarrow> (Ok (affected 0), eng))"

text \<open>
  \<open>ddl\<close> runs an operation on the engine behind the accessor's state: DDL always goes to the engine, DML to the accessor.
\<close>

definition Exec ::
  "gob \<Rightarrow> world \<Rightarrow> 's accessor \<Rightarrow> ((engine \<Rightarrow> (exec_error, exec_result) res \<times> engine) \<Rightarrow> 's \<Rightarrow> (exec_error, exec_result) res \<times> 's) \<Rightarrow>
   stmt \<Rightarrow> 's \<Rightarrow> (exec_error, exec_result) res \<times> 's" where
  "Exec g w acc ddl stmt st = (case stmt of
     CreateTable tbl cds \<Rightarrow> ddl (execCreate g tbl cds) st
   | DropTable tbl ifx \<Rightarrow> ddl (execDrop g tbl ifx) st
   | Insert tbl cols rows \<Rightarrow> execInsert w acc tbl cols rows st
   | SelectStmt s \<Rightarrow> (execSelect w acc st s, st)
   | Update tbl sets wh \<Rightarrow> execUpdate w acc tbl sets wh st
   | Delete tbl wh \<Rightarrow> execDelete w acc tbl wh st
   | _ \<Rightarrow> (Err UnsupportedStmt, st))"

definition Exec_engine :: "gob \<Rightarrow> world \<Rightarrow> stmt \<Rightarrow> engine \<Rightarrow> (exec_error, exec_result) res \<times> engine" where
  "Exec_engine g w = Exec g w (engine_accessor g) (\<lambda>f. f)"

definition Exec_txn :: "gob \<Rightarrow> world \<Rightarrow> stmt \<Rightarrow> txn \<times> engine \<Rightarrow> (exec_error, exec_result) res \<times> txn \<times> engine" where
  "Exec_txn g w = Exec g w txn_accessor (\<lambda>f (x, e). case f e of (r, e) \<Rightarrow> (r, x, e))"

end
