(* ===== verification/Script.thy ===== *)
theory Script
  imports Exec Parser
begin

text \<open>
  Concrete databases and the evaluation of SQL text on them, for witnesses and counterexamples.
\<close>

definition sample_world :: world where
  "sample_world = \<lparr>w_now = 0, w_isPrint = (\<lambda>_. False), w_osError = ''i/o error''\<rparr>"

text \<open>The engine that holds the given tables, as if loaded from a snapshot.\<close>

definition demo_table :: "nat \<Rightarrow> string \<times> column list \<times> (int64 \<times> row) list \<Rightarrow> table" where
  "demo_table k = (\<lambda>(n, cs, rs). buildUniqLocked \<lparr>t_id = of_nat k, t_name = n, t_cols = cs, t_rows = fmap_of_list rs,
     t_nextID = 1 + int (length rs), t_uniq = fmempty\<rparr>)"

definition demo :: "(string \<times> column list \<times> (int64 \<times> row) list) list \<Rightarrow> engine" where
  "demo ts = (let ks = [0..<length ts] in (fresh_engine (empty_wal []) empty_dir)
     \<lparr>heap := map2 demo_table ks ts, tables := fmap_of_list (zip (map fst ts) ks),
      byID := fmap_of_list (zip (map of_nat ks) ks), nextTableID := of_nat (length ts)\<rparr>)"

definition sql :: "string \<Rightarrow> stmt" where
  "sql q = (case Parse q of Some (Inr st) \<Rightarrow> st | _ \<Rightarrow> Rollback)"

fun run_txn :: "string list \<Rightarrow> txn \<times> engine \<Rightarrow> (exec_error, exec_result) res list \<times> txn \<times> engine" where
  "run_txn [] s = ([], s)"
| "run_txn (q # qs) s =
     (case Exec_txn sample_gob sample_world (sql q) s of (r, s) \<Rightarrow> (case run_txn qs s of (rs, s) \<Rightarrow> (r # rs, s)))"

abbreviation int_col :: "string \<Rightarrow> column" where
  "int_col n \<equiv> plain_column n TypeInt"

abbreviation pk_col :: "string \<Rightarrow> column" where
  "pk_col n \<equiv> (int_col n)\<lparr>col_primary := True\<rparr>"

lemma map_of_zip_upt:
  "distinct ks \<Longrightarrow> map_of (zip ks [0..<length ks]) k = Some p \<longleftrightarrow> p < length ks \<and> ks ! p = k"
  by (subst map_of_eq_Some_iff) (auto simp: in_set_conv_nth)

lemma demo_tab:
  assumes "distinct (map fst ts)" "k < length ts" "ts ! k = (n, cs, rs)"
  shows "fmlookup (tables (demo ts)) n = Some k" "heap (demo ts) ! k = demo_table k (n, cs, rs)"
  using assms map_of_zip_upt [OF assms(1), of n k] by (simp_all add: demo_def Let_def fmlookup_of_list)

lemma demo_wf:
  assumes "distinct (map fst ts)" "length ts < 2 ^ 32"
    and "\<And>n cs rs. (n, cs, rs) \<in> set ts \<Longrightarrow> rows_cover cs (fmap_of_list rs) \<and> unique_rows cs (fmap_of_list rs)"
  shows "eng_wf (demo ts)"
proof (rule eng_wfI)
  have small: "unat (of_nat k :: uint32) = k" if "k < length ts" for k
    using that assms(2) by (simp add: unat_of_nat take_bit_nat_eq_self)
  have byID: "fmlookup (byID (demo ts)) i = Some p \<longleftrightarrow> p < length ts \<and> of_nat p = i" for i p
  proof -
    have "distinct (map (of_nat :: nat \<Rightarrow> uint32) [0..<length ts])"
      using small by (auto simp: distinct_map intro!: inj_onI) metis
    then show ?thesis using map_of_zip_upt [of "map (of_nat :: nat \<Rightarrow> uint32) [0..<length ts]" i p]
      by (auto simp: demo_def Let_def fmlookup_of_list)
  qed
  have tabs: "fmlookup (tables (demo ts)) n = Some p \<longleftrightarrow> p < length ts \<and> fst (ts ! p) = n" for n p
    using map_of_zip_upt [OF assms(1), of n p] by (auto simp: demo_def Let_def fmlookup_of_list)
  have tab: "heap (demo ts) ! p = demo_table p (ts ! p)" "length (heap (demo ts)) = length ts" if "p < length ts" for p
    using that by (simp_all add: demo_def Let_def)
  have wf: "tab_wf (demo_table p (ts ! p))" if "p < length ts" for p
  proof -
    obtain n cs rs where p: "ts ! p = (n, cs, rs)" by (metis prod_cases3)
    with assms(3) [of n cs rs] nth_mem [OF that] show ?thesis
      by (auto simp: demo_table_def rows_cover_def intro!: tab_wf_buildUniq)
  qed
  have flds: "t_name (demo_table p (ts ! p)) = fst (ts ! p)" "t_id (demo_table p (ts ! p)) = of_nat p" for p
    by (simp_all add: demo_table_def split: prod.split)
  have less: "(of_nat p :: uint32) < of_nat (length ts)" if "p < length ts" for p
    using that assms(2) by (simp add: word_less_nat_alt small unat_of_nat take_bit_nat_eq_self)
  have "nextTableID (demo ts) = of_nat (length ts)" by (simp add: demo_def Let_def)
  note facts = this byID tabs tab wf flds less
  show "p < length (heap (demo ts)) \<and> t_name (heap (demo ts) ! p) = n
      \<and> fmlookup (byID (demo ts)) (t_id (heap (demo ts) ! p)) = Some p \<and> tab_wf (heap (demo ts) ! p)
      \<and> t_id (heap (demo ts) ! p) < nextTableID (demo ts)" if "fmlookup (tables (demo ts)) n = Some p" for n p
    using that by (auto simp: facts)
  show "p < length (heap (demo ts)) \<and> t_id (heap (demo ts) ! p) = i
      \<and> fmlookup (tables (demo ts)) (t_name (heap (demo ts) ! p)) = Some p" if "fmlookup (byID (demo ts)) i = Some p" for i p
    using that by (auto simp: facts)
qed

lemma demo_db:
  assumes "distinct (map fst ts)" "k < length ts" "ts ! k = (n, cs, rs)"
  shows "db_of (demo ts) n = Some (of_nat k, cs, fmap_of_list rs)"
  using demo_tab [OF assms] by (simp add: db_of_def tab_at_def abs_t_def demo_table_def)

lemma demo_db_None: "n \<notin> fst ` set ts \<Longrightarrow> db_of (demo ts) n = None"
  by (auto simp: db_of_def tab_at_def demo_def Let_def fmlookup_of_list map_of_eq_None_iff dest!: set_zip_leftD split: option.split)

lemma demo_clean: "io_clean (e_wal (demo ts))"
  by (simp add: demo_def Let_def fresh_engine_def io_clean_def empty_wal_def)

lemma no_unique: "list_all (\<lambda>c. \<not> col_unique c) cs \<Longrightarrow> rows_cover cs m \<and> unique_rows cs m"
proof -
  assume "list_all (\<lambda>c. \<not> col_unique c) cs"
  then have "uniqCols_of cs = []" by (auto simp: uniqCols_of_def list_all_length filter_empty_conv)
  then show ?thesis by (simp add: rows_cover_def covers_def unique_rows_def)
qed

lemma txSeq_frame [simp]: "eng_wf (e\<lparr>txSeq := k\<rparr>) = eng_wf e" "db_of (e\<lparr>txSeq := k\<rparr>) = db_of e"
  by (simp_all add: eng_wf_def db_of_def tab_at_def fun_eq_iff)

text \<open>A parent with one row, and its children.\<close>

definition child_cols :: "column list" where
  "child_cols = [pk_col ''id'', (int_col ''p'')\<lparr>col_fktable := ''p'', col_fkcol := ''id''\<rparr>]"

definition family :: "(int64 \<times> row) list \<Rightarrow> engine" where
  "family rs = demo [(''p'', [pk_col ''id''], [(1, [VInt 1])]), (''c'', child_cols, rs)]"

lemma family_wf: "eng_wf (family rs)"
  unfolding family_def by (rule demo_wf) (auto simp: child_cols_def plain_column_def intro!: no_unique)

lemma family_db:
  "db_of (family rs) ''p'' = Some (0, [pk_col ''id''], fmap_of_list [(1, [VInt 1])])"
  "db_of (family rs) ''c'' = Some (1, child_cols, fmap_of_list rs)"
  using demo_db [of "[(''p'', [pk_col ''id''], [(1, [VInt 1])]), (''c'', child_cols, rs)]" 0]
    demo_db [of "[(''p'', [pk_col ''id''], [(1, [VInt 1])]), (''c'', child_cols, rs)]" 1]
  by (simp_all add: family_def)

end
