(* ===== verification/Writes.thy ===== *)
theory Writes
  imports Exec
begin

text \<open>
  What a statement changes besides rows. A query or modification reaches the state only through the four writing operations of
  its accessor, so a relation that each of them keeps is kept by every such statement: inside a transaction the shared database and
  the log stay as they are, in autocommit the engine stays well-formed.
\<close>

definition is_dml :: "stmt \<Rightarrow> bool" where
  "is_dml st = (case st of Insert _ _ _ \<Rightarrow> True | Update _ _ _ \<Rightarrow> True | Delete _ _ \<Rightarrow> True | SelectStmt _ \<Rightarrow> True | _ \<Rightarrow> False)"

locale accessor_frame =
  fixes a :: "'s accessor" and R :: "'s \<Rightarrow> 's \<Rightarrow> bool"
  assumes refl: "R s s"
    and trans: "R s t \<Longrightarrow> R t u \<Longrightarrow> R s u"
    and put: "ac_Put a n i r s = (res, s') \<Longrightarrow> R s s'"
    and put_auto: "ac_PutAuto a n pk r s = (res, s') \<Longrightarrow> R s s'"
    and update: "ac_Update a n i r s = (res2, s') \<Longrightarrow> R s s'"
    and delete: "ac_Delete a n i s = (res2, s') \<Longrightarrow> R s s'"
begin

lemma insert_row_frame: "insert_row now a def n idx ri es s = (res, s') \<Longrightarrow> R s s'"
  by (auto simp: insert_row_def split: sum.splits prod.splits option.splits intro: refl put put_auto)

lemma insert_rows_frame: "insert_rows now a def n idx ri rows s = (res, s') \<Longrightarrow> R s s'"
proof (induction rows arbitrary: ri s)
  case (Cons es rows)
  obtain r1 s1 where r1: "insert_row now a def n idx ri es s = (r1, s1)" by fastforce
  show ?case
  proof (cases r1)
    case (Inl e)
    then show ?thesis using Cons.prems r1 insert_row_frame by auto
  next
    case (Inr u)
    with Cons.prems r1 have "insert_rows now a def n idx (Suc ri) rows s1 = (res, s')" by simp
    then show ?thesis using Cons.IH insert_row_frame [OF r1] trans by blast
  qed
qed (simp add: refl)

lemma delete_row_frame: "delete_row a n c s = (res, s') \<Longrightarrow> R s s'"
  by (auto simp: delete_row_def split: sum.splits prod.splits intro: refl delete)

lemma update_row_frame: "update_row now a def n sc sets c s = (res, s') \<Longrightarrow> R s s'"
  by (auto simp: update_row_def split: sum.splits prod.splits option.splits intro: refl delete update trans [OF delete put])

lemma each_row_frame:
  assumes "\<And>c s r s'. f c s = (r, s') \<Longrightarrow> R s s'"
  shows "each_row f cs s = (res, s') \<Longrightarrow> R s s'"
proof (induction cs arbitrary: s)
  case (Cons c cs)
  obtain r1 s1 where r1: "f c s = (r1, s1)" by fastforce
  show ?case
  proof (cases r1)
    case (Inl e)
    then show ?thesis using Cons.prems r1 assms by auto
  next
    case (Inr u)
    with Cons.prems r1 have "each_row f cs s1 = (res, s')" by simp
    then show ?thesis using Cons.IH assms [OF r1] trans by blast
  qed
qed (simp add: refl)

lemma execUpdate_frame: "execUpdate w a n sets wh s = (res, s') \<Longrightarrow> R s s'"
  by (auto simp: execUpdate_def split: sum.splits prod.splits intro: refl each_row_frame [OF update_row_frame])

lemma execDelete_frame: "execDelete w a n wh s = (res, s') \<Longrightarrow> R s s'"
  by (auto simp: execDelete_def split: sum.splits prod.splits intro: refl each_row_frame [OF delete_row_frame])

lemma execInsert_frame: "execInsert w a n cols rows s = (res, s') \<Longrightarrow> R s s'"
  by (auto simp: execInsert_def split: sum.splits prod.splits intro: refl insert_rows_frame)

lemma dml_frame: "is_dml st \<Longrightarrow> Exec g w a ddl st s = (res, s') \<Longrightarrow> R s s'"
  by (cases st) (auto simp: is_dml_def Exec_def refl intro: execInsert_frame execUpdate_frame execDelete_frame)

end

interpretation ef: accessor_frame "engine_accessor g" "\<lambda>e e'. eng_wf e \<longrightarrow> eng_wf e'"
  by unfold_locales (auto dest: ea.put ea.put_auto ea.update ea.delete)

text \<open>What buffering a write keeps.\<close>

definition txn_frame :: "txn \<times> engine \<Rightarrow> txn \<times> engine \<Rightarrow> bool" where
  "txn_frame s s' \<longleftrightarrow> x_done (fst s') = x_done (fst s) \<and> e_wal (snd s') = e_wal (snd s) \<and> nextTableID (snd s') = nextTableID (snd s)
     \<and> (eng_wf (snd s) \<longrightarrow> eng_wf (snd s') \<and> db_of (snd s') = db_of (snd s))"

lemma txn_frame_reserve:
  "Engine_ReserveID n e = (res, e') \<Longrightarrow> x_done x' = x_done x \<Longrightarrow> txn_frame (x, e) (x', e')"
  using Engine_ReserveID_wf [of e n res e']
  by (auto simp: txn_frame_def Engine_ReserveID_def Let_def set_tab_def split: option.splits)

lemma txn_frame_same: "x_done x' = x_done x \<Longrightarrow> txn_frame (x, e) (x', e)"
  by (simp add: txn_frame_def)

interpretation tf: accessor_frame txn_accessor txn_frame
proof (unfold_locales, goal_cases)
  case (3 n i r s res s')
  then show ?case
    by (cases s; cases s') (auto simp: txn_accessor_def Txn_Put_def txn_frame_same split: sum.splits if_splits prod.splits
        intro: txn_frame_reserve)
next
  case (4 n pk r s res s')
  then show ?case
    by (cases s; cases s') (auto simp: txn_accessor_def Txn_PutAuto_def txn_frame_same Let_def split: sum.splits if_splits prod.splits
        intro: txn_frame_reserve)
next
  case (5 n i r s res s')
  then show ?case
    by (cases s; cases s') (auto simp: txn_accessor_def Txn_Update_def txn_frame_same split: sum.splits if_splits prod.splits)
next
  case (6 n i s res s')
  then show ?case
    by (cases s; cases s') (auto simp: txn_accessor_def Txn_Delete_def txn_frame_same split: sum.splits if_splits prod.splits)
qed (auto simp: txn_frame_def)

lemma Exec_txn_frame: "is_dml st \<Longrightarrow> Exec_txn g w st s = (res, s') \<Longrightarrow> txn_frame s s'"
  unfolding Exec_txn_def by (rule tf.dml_frame)

end
