(* ===== verification/Integrity.thy ===== *)
theory Integrity
  imports Script Writes
begin

text \<open>
  Integrity of the data: every value conforms to its column's type, and every non-null foreign key is the id of a row of the
  parent table. The lemmas about single writes hold for every accessor that keeps the laws of \<open>accessor_laws\<close>, so they hold for
  autocommit and inside a transaction.
\<close>

lemma in_set_enum: "(i, x) \<in> set (zip [0..<length xs] xs) \<longleftrightarrow> i < length xs \<and> x = xs ! i"
  by (force simp: in_set_conv_nth)

section \<open>The invariant\<close>

definition refers :: "view \<Rightarrow> column \<Rightarrow> val \<Rightarrow> bool" where
  "refers v c x \<longleftrightarrow> x = VNull \<or> (\<exists>k p m. x = VInt k \<and> v (col_fktable c) = Some (p, m) \<and> fmlookup m k \<noteq> None)"

definition cell_good :: "view \<Rightarrow> column \<Rightarrow> val \<Rightarrow> bool" where
  "cell_good v c x \<longleftrightarrow> conforms (col_type c) x \<and> (col_fktable c \<noteq> [] \<longrightarrow> refers v c x)"

definition row_good :: "view \<Rightarrow> column list \<Rightarrow> row \<Rightarrow> bool" where
  "row_good v cs r = list_all2 (cell_good v) cs r"

definition col_good :: "view \<Rightarrow> string \<Rightarrow> column \<Rightarrow> bool" where
  "col_good v n c \<longleftrightarrow> (col_fktable c \<noteq> [] \<longrightarrow> col_fktable c \<noteq> n \<and> v (col_fktable c) \<noteq> None \<and> \<not> (col_primary c \<and> col_autoinc c))
     \<and> (col_primary c \<longrightarrow> col_type c = TypeInt \<or> col_type c = TypeBigint)"

definition integrity :: "view \<Rightarrow> bool" where
  "integrity v \<longleftrightarrow> (\<forall>n cs m. v n = Some (cs, m) \<longrightarrow>
     (\<forall>c \<in> set cs. col_good v n c) \<and> (\<forall>i r. fmlookup m i = Some r \<longrightarrow> row_good v cs r))"

definition unreferenced :: "view \<Rightarrow> string \<Rightarrow> int64 \<Rightarrow> bool" where
  "unreferenced v n i \<longleftrightarrow> (\<forall>n' cs m j r ci. n' \<noteq> n \<longrightarrow> v n' = Some (cs, m) \<longrightarrow> fmlookup m j = Some r \<longrightarrow> ci < length cs \<longrightarrow>
     col_fktable (cs ! ci) = n \<longrightarrow> ci < length r \<longrightarrow> r ! ci \<noteq> VInt i)"

text \<open>Writing a table keeps the tables and columns; the rows of other tables stay good while their parents stay.\<close>

lemma col_good_upd: "v n = Some (cs, m) \<Longrightarrow> col_good (v(n \<mapsto> (cs, m'))) n' c = col_good v n' c"
  by (auto simp: col_good_def)

lemma cell_good_mono:
  assumes "v n = Some (cs, m)" "cell_good v c x" "\<And>k. col_fktable c = n \<Longrightarrow> x = VInt k \<Longrightarrow> fmlookup m k \<noteq> None \<Longrightarrow> fmlookup m' k \<noteq> None"
  shows "cell_good (v(n \<mapsto> (cs, m'))) c x"
  using assms by (auto simp: cell_good_def refers_def)

lemma row_good_put: "v n = Some (cs, m) \<Longrightarrow> row_good v ds r \<Longrightarrow> row_good (v(n \<mapsto> (cs, fmupd i q m))) ds r"
  unfolding row_good_def by (erule list_all2_mono) (rule cell_good_mono, auto)

lemma row_good_other:
  assumes "integrity v" "v n = Some (cs, m)" "row_good v cs r"
  shows "row_good (v(n \<mapsto> (cs, m'))) cs r"
  unfolding row_good_def list_all2_conv_all_nth
proof (intro conjI allI impI)
  fix ci assume ci: "ci < length cs"
  then have "col_good v n (cs ! ci)" using assms(1,2) by (auto simp: integrity_def)
  then show "cell_good (v(n \<mapsto> (cs, m'))) (cs ! ci) (r ! ci)"
    using assms(3) ci by (auto simp: row_good_def list_all2_conv_all_nth col_good_def cell_good_def refers_def)
qed (use assms(3) in \<open>simp add: row_good_def list_all2_lengthD\<close>)

lemma integrity_put:
  assumes "integrity v" "v n = Some (cs, m)" "row_good v cs r"
  shows "integrity (v(n \<mapsto> (cs, fmupd i r m)))"
  using assms row_good_put [where v = v and n = n and cs = cs and m = m, OF assms(2)] unfolding integrity_def
  by (auto simp: col_good_upd [where v = v and n = n and cs = cs and m = m, OF assms(2)] split: if_splits)

lemma integrity_drop:
  assumes "integrity v" "v n = Some (cs, m)" "unreferenced v n i"
  shows "integrity (v(n \<mapsto> (cs, fmdrop i m)))"
  unfolding integrity_def
proof (intro allI impI conjI ballI)
  fix n' ds m' c assume "(v(n \<mapsto> (cs, fmdrop i m))) n' = Some (ds, m')" "c \<in> set ds"
  then show "col_good (v(n \<mapsto> (cs, fmdrop i m))) n' c"
    using assms(1,2) by (auto simp: col_good_upd [where v = v and n = n and cs = cs and m = m, OF assms(2)] integrity_def split: if_splits)
next
  fix n' ds m' j r assume n': "(v(n \<mapsto> (cs, fmdrop i m))) n' = Some (ds, m')" "fmlookup m' j = Some r"
  show "row_good (v(n \<mapsto> (cs, fmdrop i m))) ds r"
  proof (cases "n' = n")
    case True
    with n' have "ds = cs" "fmlookup m j = Some r" by (auto split: if_splits)
    then show ?thesis using row_good_other [where v = v and n = n and cs = cs and m = m, OF assms(1,2)] assms(1,2) by (auto simp: integrity_def)
  next
    case False
    with n' have v': "v n' = Some (ds, m')" by simp
    with assms(1) n'(2) have good: "row_good v ds r" by (auto simp: integrity_def)
    show ?thesis unfolding row_good_def list_all2_conv_all_nth
    proof (intro conjI allI impI)
      fix ci assume ci: "ci < length ds"
      show "cell_good (v(n \<mapsto> (cs, fmdrop i m))) (ds ! ci) (r ! ci)"
      proof (rule cell_good_mono [where v = v and n = n and cs = cs and m = m, OF assms(2)])
        show "cell_good v (ds ! ci) (r ! ci)" using good ci by (simp add: row_good_def list_all2_conv_all_nth)
        fix k assume "col_fktable (ds ! ci) = n" "r ! ci = VInt k" "fmlookup m k \<noteq> None"
        moreover have "ci < length r" using good ci by (simp add: row_good_def list_all2_conv_all_nth)
        ultimately show "fmlookup (fmdrop i m) k \<noteq> None"
          using assms(3) False v' n'(2) ci unfolding unreferenced_def by auto
      qed
    qed (use good in \<open>simp add: row_good_def list_all2_lengthD\<close>)
  qed
qed

section \<open>Rows the statements build\<close>

lemma coerce_to_conforms: "coerce_to def i v = Ok cv \<Longrightarrow> conforms (col_type (td_cols def ! i)) cv"
  by (auto simp: coerce_to_def coerce_def Let_def dest: Check_conforms split: sum.splits)

definition types_ok :: "column list \<Rightarrow> row \<Rightarrow> bool" where
  "types_ok cs r = list_all2 (\<lambda>c x. conforms (col_type c) x) cs r"

lemma list_all2_upd: "list_all2 P xs ys \<Longrightarrow> P (xs ! i) y \<Longrightarrow> list_all2 P xs (ys[i := y])"
  using list_all2_update_cong [of P xs ys "xs ! i" y i] by simp

lemma types_ok_upd: "types_ok cs r \<Longrightarrow> conforms (col_type (cs ! i)) x \<Longrightarrow> types_ok cs (r[i := x])"
  by (simp add: types_ok_def list_all2_upd)

lemma insert_cells_types:
  "insert_cells now def xs row = Ok row' \<Longrightarrow> types_ok (td_cols def) row \<Longrightarrow> types_ok (td_cols def) row'"
  by (induction xs arbitrary: row) (auto simp: bindE_Ok dest!: coerce_to_conforms, blast intro: types_ok_upd)

lemma set_cells_types:
  "set_cells now sc def old xs row = Ok row' \<Longrightarrow> types_ok (td_cols def) row \<Longrightarrow> types_ok (td_cols def) row'"
  by (induction xs arbitrary: row) (auto simp: bindE_Ok dest!: coerce_to_conforms split: if_splits, blast intro: types_ok_upd)

lemma types_ok_null: "types_ok cs (replicate (length cs) VNull)"
  by (simp add: types_ok_def list_all2_conv_all_nth)

lemma row_good_types: "row_good v cs r \<Longrightarrow> types_ok cs r"
  unfolding row_good_def types_ok_def by (erule list_all2_mono) (simp add: cell_good_def)

text \<open>What every statement keeps: the invariant of the storage layer, integrity, and the columns of every table.\<close>

definition keeps :: "('s \<Rightarrow> bool) \<Rightarrow> ('s \<Rightarrow> view) \<Rightarrow> 's \<Rightarrow> 's \<Rightarrow> bool" where
  "keeps P v s s' \<longleftrightarrow> P s' \<and> integrity (v s') \<and> (\<forall>n. map_option fst (v s' n) = map_option fst (v s n))"

context accessor_laws
begin

lemma def_view: "inv s \<Longrightarrow> Exec_tableDef a n s = Ok def \<Longrightarrow> \<exists>m. view s n = Some (td_cols def, m) \<and> td_name def = n"
  using catalog [of s n] by (auto simp: Exec_tableDef_def split: option.splits)

lemma check_fk_cols_refers:
  assumes "inv s" "\<And>ci c. (ci, c) \<in> set cs \<Longrightarrow> ci < length row \<and> (col_fktable c \<noteq> [] \<longrightarrow> view s (col_fktable c) \<noteq> None)"
    and "check_fk_cols a tn row s cs = Ok ()" "(ci, c) \<in> set cs" "col_fktable c \<noteq> []"
  shows "refers (view s) c (row ! ci)"
  using assms(2-5)
proof (induction cs)
  case (Cons p cs)
  obtain cj d where p: "p = (cj, d)" by fastforce
  have row: "cell row (int cj) = Ok (row ! cj)" using Cons.prems(1) [of cj d] p by (simp add: cell_def)
  have rest: "check_fk_cols a tn row s cs = Ok ()" and head: "col_fktable d \<noteq> [] \<longrightarrow> row ! cj = VNull \<or>
      (\<exists>i. row ! cj = VInt i \<and> ac_Get a (col_fktable d) i s \<noteq> None)"
    using Cons.prems(2) p row by (auto split: if_splits val.splits)
  show ?case
  proof (cases "(ci, c) = p")
    case True
    then obtain q m where "view s (col_fktable c) = Some (q, m)" using Cons.prems(1,4) p by fastforce
    then show ?thesis using head True p Cons.prems(4) get [OF assms(1), of "col_fktable c" q m] by (auto simp: refers_def)
  next
    case False
    show ?thesis
    proof (rule Cons.IH [OF _ rest])
      show "(ci, c) \<in> set cs" "col_fktable c \<noteq> []" using Cons.prems False by auto
    qed (rule Cons.prems(1), simp)
  qed
qed simp

lemma checkFK_row_good:
  assumes "inv s" "integrity (view s)" "view s n = Some (td_cols def, m)" "types_ok (td_cols def) row" "checkFK a def row s = Ok ()"
  shows "row_good (view s) (td_cols def) row"
  unfolding row_good_def list_all2_conv_all_nth
proof (intro conjI allI impI)
  show len: "length (td_cols def) = length row" using assms(4) by (simp add: types_ok_def list_all2_lengthD)
  fix ci assume ci: "ci < length (td_cols def)"
  let ?cs = "zip [0..<length (td_cols def)] (td_cols def)"
  have good: "col_good (view s) n c" if "c \<in> set (td_cols def)" for c using assms(2,3) that by (auto simp: integrity_def)
  have "(ci, td_cols def ! ci) \<in> set ?cs" using ci by (simp add: in_set_enum)
  moreover have "j < length row \<and> (col_fktable c \<noteq> [] \<longrightarrow> view s (col_fktable c) \<noteq> None)" if "(j, c) \<in> set ?cs" for j c
    using that [unfolded in_set_enum] good [of c] len by (auto simp: col_good_def)
  moreover have "check_fk_cols a (td_name def) row s ?cs = Ok ()" using assms(5) by (simp add: checkFK_def)
  ultimately have "col_fktable (td_cols def ! ci) \<noteq> [] \<longrightarrow> refers (view s) (td_cols def ! ci) (row ! ci)"
    using check_fk_cols_refers [OF assms(1), of ?cs row] by blast
  then show "cell_good (view s) (td_cols def ! ci) (row ! ci)"
    using assms(4) ci by (simp add: cell_good_def types_ok_def list_all2_conv_all_nth)
qed

lemma fkReferenced_unreferenced:
  assumes "inv s" "fkReferenced a n i n i s = Ok ()"
  shows "unreferenced (view s) n i"
  unfolding unreferenced_def
proof (intro allI impI notI)
  fix n' cs m j r ci
  assume n': "n' \<noteq> n" "view s n' = Some (cs, m)" and r: "fmlookup m j = Some r"
    and ci: "ci < length cs" "col_fktable (cs ! ci) = n" "ci < length r" "r ! ci = VInt i"
  let ?d = "\<lparr>td_name = n', td_cols = cs\<rparr>"
  have "find (\<lambda>d. td_name d = n') (ac_Catalog a s) = Some ?d" using catalog [OF assms(1), of n'] n'(2) by simp
  then have d: "?d \<in> set (ac_Catalog a s)" by (auto simp: find_Some_iff)
  have "(j, r) \<in> set (zip (fmkeys m) (map (\<lambda>i. the (fmlookup m i)) (fmkeys m)))"
    using r by (auto simp: zip_map_right intro!: image_eqI [of _ _ j] fmdom'I)
  then have "col_refers a s n i n i ?d (ci, cs ! ci)"
    using n' ci all_rows [OF assms(1), of n'] by (auto simp: col_refers_def rows_list_def Let_def row_refers_def list_ex_iff)
  then have "list_ex (col_refers a s n i n i ?d) (zip [0..<length cs] cs)"
    using ci(1) by (auto simp: list_ex_iff in_set_enum)
  then show False using assms(2) d by (auto simp: fkReferenced_def find_None_iff split: option.splits)
qed

lemma keeps_refl: "inv s \<Longrightarrow> integrity (view s) \<Longrightarrow> keeps inv view s s"
  by (simp add: keeps_def)

lemma keeps_trans: "keeps inv view s s' \<Longrightarrow> keeps inv view s' s'' \<Longrightarrow> keeps inv view s s''"
  by (simp add: keeps_def)

lemma keeps_cols: "keeps inv view s s' \<Longrightarrow> view s n = Some (cs, m) \<Longrightarrow> \<exists>m'. view s' n = Some (cs, m')"
  unfolding keeps_def by (metis (no_types, lifting) fst_conv map_option_eq_Some option.simps(9) prod.collapse)

lemma keeps_write:
  assumes "inv s'" "view s n = Some (cs, m)" "view s' = (view s)(n \<mapsto> (cs, m'))" "integrity ((view s)(n \<mapsto> (cs, m')))"
  shows "keeps inv view s s'"
  using assms by (simp add: keeps_def)

lemma keeps_same: "inv s' \<Longrightarrow> view s' = view s \<Longrightarrow> integrity (view s) \<Longrightarrow> keeps inv view s s'"
  by (simp add: keeps_def)

lemma put_keeps:
  assumes "inv s" "integrity (view s)" "view s n = Some (cs, m)" "row_good (view s) cs r" "ac_Put a n i r s = (res, s')"
  shows "keeps inv view s s'"
  using put [OF assms(1,5)] assms(2-4) integrity_put [OF assms(2,3,4)]
  by (cases res) (auto intro: keeps_same keeps_write)

lemma update_keeps:
  assumes "inv s" "integrity (view s)" "view s n = Some (cs, m)" "row_good (view s) cs r" "ac_Update a n i r s = (res, s')"
  shows "keeps inv view s s'"
  using update [OF assms(1,5)] assms(2-4) integrity_put [OF assms(2,3,4)]
  by (cases res) (auto intro: keeps_same keeps_write)

lemma put_auto_keeps:
  assumes "inv s" "integrity (view s)" "view s n = Some (cs, m)" "\<And>j. row_good (view s) cs (stamp pk j r)"
    and "ac_PutAuto a n pk r s = (res, s')"
  shows "keeps inv view s s'"
  using put_auto [OF assms(1,5)] assms(2-4) integrity_put [OF assms(2,3,4)]
  by (cases res) (auto intro: keeps_same keeps_write)

lemma delete_keeps:
  assumes "inv s" "integrity (view s)" "unreferenced (view s) n i" "ac_Delete a n i s = (res, s')"
  shows "keeps inv view s s'"
  using delete [OF assms(1,4)] assms(2,3) integrity_drop [OF assms(2) _ assms(3)]
  by (cases res) (auto intro: keeps_same keeps_write)

lemma insert_row_keeps:
  assumes s: "inv s" "integrity (view s)" "view s n = Some (td_cols def, m)" and ins: "insert_row now a def n idx ri es s = (res, s')"
  shows "keeps inv view s s'"
proof (cases "insert_check now a def n idx ri es s")
  case (Inl e)
  with ins s show ?thesis by (auto simp: insert_row_def keeps_refl)
next
  case (Inr p)
  obtain row rid where p: "p = (row, rid)" by fastforce
  with Inr have row: "insert_cells now def (zip idx es) (replicate (length (td_cols def)) VNull) = Ok row"
      "insert_pk def n row = Ok rid" "checkFK a def row s = Ok ()"
    by (auto simp: insert_check_def bindE_Ok split: if_splits)
  have good: "row_good (view s) (td_cols def) row"
    using checkFK_row_good [OF s insert_cells_types [OF row(1) types_ok_null] row(3)] .
  show ?thesis
  proof (cases rid)
    case None
    then obtain pk where pk: "pkIndex def = Some pk" "col_autoinc (td_cols def ! pk)"
      using row(2) by (auto simp: insert_pk_def split: option.splits val.splits if_splits)
    then have pk': "pk < length (td_cols def)" "col_primary (td_cols def ! pk)"
      by (auto simp: pkIndex_def find_Some_iff)
    then have "col_good (view s) n (td_cols def ! pk)" using s(2,3) by (auto simp: integrity_def)
    then have "cell_good (view s) (td_cols def ! pk) (VInt j)" for j
      using pk pk' by (auto simp: cell_good_def col_good_def)
    then have "row_good (view s) (td_cols def) (stamp (int pk) j row)" for j
      using good by (simp add: row_good_def stamp_def list_all2_upd)
    then show ?thesis using ins Inr p None pk put_auto_keeps [OF s, of "int pk" row]
      by (auto simp: insert_row_def split: prod.splits sum.splits)
  next
    case (Some i)
    then show ?thesis using ins Inr p put_keeps [OF s good, of i]
      by (auto simp: insert_row_def split: prod.splits sum.splits)
  qed
qed

lemma insert_rows_keeps:
  assumes "inv s" "integrity (view s)" "view s n = Some (td_cols def, m)" "insert_rows now a def n idx ri rows s = (res, s')"
  shows "keeps inv view s s'"
  using assms
proof (induction rows arbitrary: ri s m)
  case (Cons es rows)
  obtain r1 s1 where r1: "insert_row now a def n idx ri es s = (r1, s1)" by fastforce
  have k: "keeps inv view s s1" by (rule insert_row_keeps [OF Cons.prems(1-3) r1])
  then obtain m1 where m1: "view s1 n = Some (td_cols def, m1)" using keeps_cols Cons.prems(3) by blast
  show ?case
  proof (cases r1)
    case (Inl e)
    with Cons.prems(4) r1 k show ?thesis by simp
  next
    case (Inr u)
    with Cons.prems(4) r1 have "insert_rows now a def n idx (Suc ri) rows s1 = (res, s')" by simp
    with Cons.IH [OF _ _ m1] k show ?thesis using keeps_trans by (auto simp: keeps_def)
  qed
qed (simp add: keeps_refl)

lemma each_row_keeps:
  assumes "\<And>c s r s'. c \<in> set cs \<Longrightarrow> keeps inv view s0 s \<Longrightarrow> f c s = (r, s') \<Longrightarrow> keeps inv view s s'"
    and "keeps inv view s0 s" "each_row f cs s = (res, s')"
  shows "keeps inv view s0 s'"
  using assms
proof (induction cs arbitrary: s)
  case (Cons c cs)
  obtain r1 s1 where r1: "f c s = (r1, s1)" by fastforce
  then have k: "keeps inv view s0 s1" using Cons.prems(1) [of c s r1 s1] Cons.prems(2) keeps_trans by auto
  show ?case
  proof (cases r1)
    case (Inl e)
    with Cons.prems(3) r1 k show ?thesis by simp
  next
    case (Inr u)
    with Cons.prems(3) r1 have e: "each_row f cs s1 = (res, s')" by simp
    show ?thesis by (rule Cons.IH [OF Cons.prems(1) k e]) auto
  qed
qed simp

lemma delete_row_keeps:
  assumes "inv s" "integrity (view s)" "delete_row a n c s = (res, s')"
  shows "keeps inv view s s'"
  using assms fkReferenced_unreferenced [OF assms(1), of n "fst c"] delete_keeps [OF assms(1,2), of n "fst c"]
  by (auto simp: delete_row_def keeps_refl split: sum.splits prod.splits)

lemma update_row_keeps:
  assumes s: "inv s" "integrity (view s)" "view s n = Some (td_cols def, m)" and old: "types_ok (td_cols def) (snd c)"
    and upd: "update_row now a def n sc sets c s = (res, s')"
  shows "keeps inv view s s'"
proof (cases "update_check now a def n sc sets c s")
  case (Inl e)
  with upd s show ?thesis by (auto simp: update_row_def keeps_refl)
next
  case (Inr p)
  obtain row mv where p: "p = (row, mv)" by fastforce
  with Inr have row: "set_cells now sc def (snd c) sets (snd c) = Ok row" "checkFK a def row s = Ok ()"
    by (auto simp: update_check_def bindE_Ok)
  have good: "row_good (view s) (td_cols def) row"
    using checkFK_row_good [OF s set_cells_types [OF row(1) old] row(2)] .
  show ?thesis
  proof (cases mv)
    case None
    then show ?thesis using upd Inr p update_keeps [OF s good, of "fst c"]
      by (auto simp: update_row_def split: prod.splits sum.splits)
  next
    case (Some i)
    show ?thesis
    proof (cases "fkReferenced a n (fst c) n (fst c) s")
      case (Inl e)
      then show ?thesis using upd Inr p Some s by (auto simp: update_row_def keeps_refl)
    next
      case free: (Inr u)
      obtain r1 s1 where d: "ac_Delete a n (fst c) s = (r1, s1)" by fastforce
      have k: "keeps inv view s s1"
        using delete_keeps [OF s(1,2) fkReferenced_unreferenced [OF s(1)] d] free by simp
      then obtain m1 where m1: "view s1 n = Some (td_cols def, m1)" using keeps_cols s(3) by blast
      show ?thesis
      proof (cases r1)
        case (Inl e)
        then show ?thesis using upd Inr p Some free d k by (auto simp: update_row_def)
      next
        case (Inr u1)
        then have "view s1 = (view s)(n \<mapsto> (td_cols def, m1))" using delete [OF s(1) d] m1 by auto
        then have "row_good (view s1) (td_cols def) row" using row_good_other [OF s(2,3) good] by simp
        moreover obtain r2 s2 where p2: "ac_Put a n i row s1 = (r2, s2)" by fastforce
        ultimately have "keeps inv view s1 s2" using put_keeps [OF _ _ m1] k by (simp add: keeps_def)
        moreover have "s' = s2" using upd \<open>update_check now a def n sc sets c s = Inr p\<close> p Some free d Inr p2
          by (auto simp: update_row_def split: sum.splits)
        ultimately show ?thesis using k keeps_trans by blast
      qed
    qed
  qed
qed

lemma collectCandidates_rows:
  assumes "inv s" "view s n = Some (cs, m)" "collectCandidates now a n def sc wh s = Ok cands" "(i, row) \<in> set cands"
  shows "fmlookup m i = Some row"
proof (cases "uniqueEquality wh n def")
  case None
  then have "filterE (\<lambda>(_, row). holds_opt now sc wh row) (zip (fmkeys m) (map (\<lambda>i. the (fmlookup m i)) (fmkeys m))) = Ok cands"
    using assms(3) all_rows [OF assms(1), of n] assms(2) by (simp add: collectCandidates_def rows_list_def Let_def)
  from filterE_subset [OF this] assms(4) show ?thesis by (auto simp: zip_map_right fmlookup_dom'_iff)
next
  case (Some p)
  obtain ci lit where p: "p = (ci, lit)" by fastforce
  obtain j where j: "ac_UniqueGet a n ci lit s = Some j"
    using assms(3,4) Some p by (cases "ac_UniqueGet a n ci lit s") (auto simp: collectCandidates_def)
  obtain r where r: "ac_Get a n j s = Some r"
    using assms(3,4) Some p j by (cases "ac_Get a n j s") (auto simp: collectCandidates_def)
  have "filterE (\<lambda>(_, row). holds_opt now sc wh row) [(j, r)] = Ok cands"
    using assms(3) Some p j r by (simp add: collectCandidates_def)
  from filterE_subset [OF this] assms(4) have "(i, row) = (j, r)" by auto
  then show ?thesis using get [OF assms(1,2), of j] r by simp
qed

lemma execInsert_keeps:
  assumes "inv s" "integrity (view s)" "execInsert w a n cols rows s = (res, s')"
  shows "keeps inv view s s'"
proof (cases "Exec_tableDef a n s")
  case (Inl e)
  with assms show ?thesis by (simp add: execInsert_def keeps_refl)
next
  case (Inr def)
  then obtain m where m: "view s n = Some (td_cols def, m)" using def_view assms(1) by blast
  show ?thesis
  proof (cases "insert_index def n cols")
    case (Inl e)
    with Inr assms show ?thesis by (simp add: execInsert_def keeps_refl)
  next
    case idx: (Inr idx)
    obtain r1 s1 where r1: "insert_rows (w_now w) a def n idx 1 rows s = (r1, s1)" by fastforce
    with Inr idx assms(3) have "s' = s1" by (auto simp: execInsert_def split: sum.splits)
    with insert_rows_keeps [OF assms(1,2) m r1] show ?thesis by simp
  qed
qed

lemma plan_update_Ok:
  assumes "inv s" "plan_update w a n sets wh s = Ok (def, tgts, cands)"
  shows "\<exists>m. view s n = Some (td_cols def, m) \<and> (\<forall>(i, row) \<in> set cands. fmlookup m i = Some row)"
proof -
  from assms(2) obtain wh' where def: "Exec_tableDef a n s = Ok def"
    and c: "collectCandidates (w_now w) a n def (singleTableScope def) wh' s = Ok cands"
    by (auto simp: plan_update_def bindE_Ok Let_def)
  then obtain m where "view s n = Some (td_cols def, m)" using def_view assms(1) by blast
  with collectCandidates_rows [OF assms(1) this c] show ?thesis by blast
qed

lemma execUpdate_keeps:
  assumes "inv s" "integrity (view s)" "execUpdate w a n sets wh s = (res, s')"
  shows "keeps inv view s s'"
proof (cases "plan_update w a n sets wh s")
  case (Inl e)
  with assms show ?thesis by (simp add: execUpdate_def keeps_refl)
next
  case (Inr p)
  obtain def tgts cands where p: "p = (def, tgts, cands)" by (metis prod_cases3)
  with plan_update_Ok [OF assms(1)] Inr obtain m where m: "view s n = Some (td_cols def, m)"
    and rows: "\<And>c. c \<in> set cands \<Longrightarrow> fmlookup m (fst c) = Some (snd c)" by fastforce
  have types: "types_ok (td_cols def) (snd c)" if "c \<in> set cands" for c
    using rows [OF that] assms(2) m row_good_types unfolding integrity_def by blast
  let ?f = "update_row (w_now w) a def n (singleTableScope def) tgts"
  have step: "keeps inv view t t'" if c: "c \<in> set cands" and k: "keeps inv view s t" and f: "?f c t = (r, t')" for c t r t'
  proof -
    obtain mt where "view t n = Some (td_cols def, mt)" using keeps_cols [OF k m] by blast
    with update_row_keeps [OF _ _ this types [OF c] f] k show ?thesis by (simp add: keeps_def)
  qed
  obtain r1 s1 where r1: "each_row ?f cands s = (r1, s1)" by fastforce
  with Inr p assms(3) have "s' = s1" by (auto simp: execUpdate_def split: sum.splits)
  with each_row_keeps [OF step keeps_refl [OF assms(1,2)] r1] show ?thesis by simp
qed

lemma execDelete_keeps:
  assumes "inv s" "integrity (view s)" "execDelete w a n wh s = (res, s')"
  shows "keeps inv view s s'"
proof (cases "plan_delete w a n wh s")
  case (Inl e)
  with assms show ?thesis by (simp add: execDelete_def keeps_refl)
next
  case (Inr cands)
  obtain r1 s1 where r1: "each_row (delete_row a n) cands s = (r1, s1)" by fastforce
  with Inr assms(3) have "s' = s1" by (auto simp: execDelete_def split: sum.splits)
  moreover have "keeps inv view s s1"
  proof (rule each_row_keeps [OF _ keeps_refl [OF assms(1,2)] r1])
    fix c t r t' assume "keeps inv view s t" "delete_row a n c t = (r, t')"
    then show "keeps inv view t t'" using delete_row_keeps [of t n c r t'] by (simp add: keeps_def)
  qed
  ultimately show ?thesis by simp
qed

lemma dml_keeps:
  assumes "inv s" "integrity (view s)" "is_dml st" "Exec g w a ddl st s = (res, s')"
  shows "keeps inv view s s'"
  using assms execInsert_keeps [OF assms(1,2)] execUpdate_keeps [OF assms(1,2)] execDelete_keeps [OF assms(1,2)]
  by (cases st) (auto simp: Exec_def is_dml_def keeps_refl)

end

section \<open>DDL\<close>

text \<open>A table that is created has no rows yet; its references were checked. The excluded columns get their value after the check.\<close>

definition create_safe :: "stmt \<Rightarrow> bool" where
  "create_safe st = (case st of
     CreateTable n cds \<Rightarrow> list_all (\<lambda>c. cd_RefTable c \<noteq> [] \<longrightarrow> \<not> (cd_Primary c \<and> cd_AutoInc c)) cds
   | DropTable n ifx \<Rightarrow> False
   | _ \<Rightarrow> True)"

lemma validateFK_Ok:
  "validateFK cat n col rt rc = Ok c \<Longrightarrow> rt \<noteq> n \<and> find (\<lambda>d. td_name d = rt) cat \<noteq> None
     \<and> (\<exists>t. c = col\<lparr>col_fktable := rt, col_fkcol := t\<rparr>)"
  by (auto simp: validateFK_def bindE_Ok split: if_splits option.splits)

lemma create_column_good:
  assumes "eng_wf e" "create_column (Engine_Catalog e) n cd = Ok c" "cd_RefTable cd \<noteq> [] \<longrightarrow> \<not> (cd_Primary cd \<and> cd_AutoInc cd)"
  shows "col_good ((engine_view e)(n := x)) n (norm_col c)"
proof (cases "cd_RefTable cd = []")
  case True
  then show ?thesis using assms(2) by (auto simp: create_column_def col_good_def norm_col_def normalizePKType_def Let_def)
next
  case False
  then obtain t where fk: "cd_RefTable cd \<noteq> n" "find (\<lambda>d. td_name d = cd_RefTable cd) (Engine_Catalog e) \<noteq> None"
      "col_fktable c = cd_RefTable cd" "col_primary c = cd_Primary cd" "col_autoinc c = cd_AutoInc cd"
    using assms(2) by (auto simp: create_column_def Let_def dest!: validateFK_Ok)
  then have "engine_view e (cd_RefTable cd) \<noteq> None"
    using find_catalog [OF assms(1), of "cd_RefTable cd"] by (auto simp: engine_view_def)
  then show ?thesis using fk assms(3) False by (auto simp: col_good_def norm_col_def normalizePKType_def)
qed

lemma integrity_create:
  assumes "integrity v" "v n = None" "\<And>c. c \<in> set cs \<Longrightarrow> col_good (v(n \<mapsto> (cs, fmempty))) n c"
  shows "integrity (v(n \<mapsto> (cs, fmempty)))"
proof -
  have mono: "cell_good (v(n \<mapsto> (cs, fmempty))) c x" if "cell_good v c x" for c x
    using that assms(2) by (auto simp: cell_good_def refers_def)
  have "row_good (v(n \<mapsto> (cs, fmempty))) ds r" if "row_good v ds r" for ds r
    using that unfolding row_good_def by (rule list_all2_mono) (rule mono)
  moreover have "col_good (v(n \<mapsto> (cs, fmempty))) n' c" if "col_good v n' c" for n' c
    using that by (auto simp: col_good_def)
  ultimately show ?thesis using assms unfolding integrity_def by (auto split: if_splits)
qed

lemma create_keeps:
  assumes "eng_wf e" "integrity (engine_view e)" "nextTableID e + 1 \<noteq> 0" "create_safe (CreateTable n cds)"
    and "execCreate g n cds e = (res, e')"
  shows "eng_wf e' \<and> integrity (engine_view e')"
proof (cases "mapE (create_column (Engine_Catalog e) n) cds")
  case (Inl x)
  with assms show ?thesis by (simp add: execCreate_def)
next
  case (Inr cols)
  obtain r1 e1 where r1: "Engine_CreateTable g n cols e = (r1, e1)" by fastforce
  then have e': "e' = e1" using Inr assms(5) by (auto simp: execCreate_def split: sum.splits)
  note cr = Engine_CreateTable_wf [OF assms(1,3) r1]
  show ?thesis
  proof (cases r1)
    case (Inl x)
    with cr e' have "eng_wf e'" "db_of e' = db_of e" by simp_all
    with engine_view_same [of e' e] assms(2) show ?thesis by simp
  next
    case ok: (Inr u)
    then have db: "eng_wf e'" "db_of e n = None" "db_of e' = (db_of e)(n \<mapsto> (nextTableID e, map norm_col cols, fmempty))"
      using cr e' unfolding Validate_Ok_iff by auto
    then have v: "engine_view e' = (engine_view e)(n \<mapsto> (map norm_col cols, fmempty))" "engine_view e n = None"
      by (auto simp: engine_view_def fun_eq_iff)
    have good: "col_good ((engine_view e)(n := x)) n (norm_col c)" if c: "c \<in> set cols" for c x
    proof -
      obtain i where "i < length cols" "c = cols ! i" using c by (auto simp: in_set_conv_nth)
      then have "i < length cds" "create_column (Engine_Catalog e) n (cds ! i) = Ok c"
        using Inr by (auto simp: mapE_Ok list_all2_conv_all_nth)
      then show ?thesis using create_column_good [OF assms(1)] assms(4) by (simp add: create_safe_def list_all_length)
    qed
    have "integrity ((engine_view e)(n \<mapsto> (map norm_col cols, fmempty)))"
    proof (rule integrity_create [OF assms(2) v(2)])
      fix c assume "c \<in> set (map norm_col cols)"
      then obtain d where "c = norm_col d" "d \<in> set cols" by auto
      then show "col_good ((engine_view e)(n \<mapsto> (map norm_col cols, fmempty))) n c" using good by simp
    qed
    with v(1) db(1) show ?thesis by simp
  qed
qed

section \<open>Statements keep integrity\<close>


lemma family_view:
  "engine_view (family rs) = [''p'' \<mapsto> ([pk_col ''id''], fmap_of_list [(1, [VInt 1])]), ''c'' \<mapsto> (child_cols, fmap_of_list rs)]"
proof
  fix n
  show "engine_view (family rs) n = [''p'' \<mapsto> ([pk_col ''id''], fmap_of_list [(1, [VInt 1])]), ''c'' \<mapsto> (child_cols, fmap_of_list rs)] n"
    using family_db [of rs] demo_db_None [of n "[(''p'', [pk_col ''id''], [(1, [VInt 1])]), (''c'', child_cols, rs)]"]
    by (cases "n = ''p''"; cases "n = ''c''") (simp_all add: engine_view_def family_def)
qed

lemma family_integrity: "integrity (engine_view (family [(1, [VInt 1, VInt 1])]))"
  unfolding integrity_def family_view
proof (intro allI impI conjI ballI)
  let ?v = "[''p'' \<mapsto> ([pk_col ''id''], fmap_of_list [(1, [VInt 1])]), ''c'' \<mapsto> (child_cols, fmap_of_list [(1, [VInt 1, VInt 1])])]"
  fix n cs m assume v: "?v n = Some (cs, m)"
  then consider "n = ''p''" "cs = [pk_col ''id'']" "m = fmap_of_list [(1, [VInt 1])]"
    | "n = ''c''" "cs = child_cols" "m = fmap_of_list [(1, [VInt 1, VInt 1])]"
    by (auto split: if_splits)
  note cs = this
  show "col_good ?v n c" if "c \<in> set cs" for c
    using cs that by cases (auto simp: col_good_def child_cols_def plain_column_def)
  show "row_good ?v cs r" if "fmlookup m i = Some r" for i r
    using cs that by cases (auto simp: row_good_def cell_good_def refers_def child_cols_def plain_column_def fmlookup_of_list split: if_splits)
qed

lemma begin_view: "Engine_Begin e = (x, e') \<Longrightarrow> txn_view x e' = engine_view e"
  by (auto simp: Engine_Begin_def Let_def txn_view_def engine_view_def fun_eq_iff)


end
