(* ===== verification/Gaps.thy ===== *)
theory Gaps
  imports Integrity
begin

text \<open>
  Statements that do not do what they should: what they leave behind, and constraints nobody checks.
\<close>

section \<open>Writes without I/O faults\<close>

lemma Engine_Delete_Ok:
  assumes "eng_wf e" "db_of e n = Some (tid, cols, m)" "is_int64 i" "io_clean (e_wal e)" "fmlookup m i \<noteq> None"
  shows "\<exists>e'. Engine_Delete g n i e = (Ok (), e') \<and> eng_wf e' \<and> io_clean (e_wal e') \<and> db_of e' = db_upd n (fmdrop i) (db_of e)"
proof -
  obtain p where p: "fmlookup (tables e) n = Some p" "t_id (heap e ! p) = tid" "t_rows (heap e ! p) = m"
    using assms(1,2) by (rule db_tab)
  obtain res e' where d: "Engine_Delete g n i e = (res, e')" by fastforce
  have "Engine_txn g (delete_rec tid i) e = (Ok (), e\<lparr>txSeq := txSeq e + 1,
    e_wal := wal_logged g (txn_recs (txSeq e + 1) (delete_rec tid i (txSeq e + 1))) (e_wal e)\<rparr>)"
    using Engine_txn_clean [of e g "delete_rec tid i"] assms(3,4) by (simp add: encodable_delete)
  then have "res = Ok ()" "io_clean (e_wal e')"
    using p assms(4,5) d by (auto simp: Engine_Delete_def Let_def set_tab_def noteWrite_def split: if_splits)
  with d Engine_Delete_wf [OF assms(1) d] show ?thesis by (auto simp: delete_effect_def)
qed

definition op_loggable :: "gob \<Rightarrow> txop \<Rightarrow> bool" where
  "op_loggable g o1 = (case o1 of OpPut n i r \<Rightarrow> is_int64 i \<and> loggable g r | OpDelete n i \<Rightarrow> is_int64 i)"

lemma op_recs_encodable:
  "op_recs tx ops e = Ok rs \<Longrightarrow> list_all (op_loggable g) ops \<Longrightarrow>
     list_all (encodable g) rs \<and> list_all (\<lambda>r. rec_type r \<noteq> RecCommit) rs"
  by (induction ops arbitrary: rs)
    (auto simp: op_loggable_def encodable_put_loggable encodable_delete split: option.splits sum.splits txop.splits)

lemma Txn_Commit_Ok:
  assumes "eng_wf e" "\<not> x_done x" "io_clean (e_wal e)" "commit_validate x e = Ok ()" "list_all (op_loggable g) (x_ops x)"
  shows "\<exists>x' e'. Txn_Commit g x e = (Ok (), x', e') \<and> db_of e' = db_overlay (x_ops x) (db_of e)"
proof -
  obtain res x' e' where c: "Txn_Commit g x e = (res, x', e')" by (metis prod.collapse)
  note tabs = validate_tables [OF assms(4,1)]
  obtain rs where rs: "op_recs (x_id x) (x_ops x) e = Ok rs" using op_recs_Ok tabs by blast
  let ?rs = "rs @ [empty_rec RecCommit (x_id x)]"
  have w: "append_recs g ?rs (e_wal e) = (Ok (), wal_logged g ?rs (e_wal e))"
    using append_recs_clean [OF assms(3)] op_recs_encodable [OF rs assms(5)] by simp
  obtain h where "apply_ops (x_ops x) (e\<lparr>e_wal := wal_logged g ?rs (e_wal e)\<rparr>)
      = (Ok (), e\<lparr>e_wal := wal_logged g ?rs (e_wal e), heap := h\<rparr>)"
    using apply_ops_overlay [of "e\<lparr>e_wal := wal_logged g ?rs (e_wal e)\<rparr>" "x_ops x"] assms(1) tabs
      validate_puts [OF assms(4,1)] by auto
  then have "res = Ok ()" using c assms(2,4) rs w by (auto simp: Txn_Commit_def commitTxn_def Let_def split: if_splits)
  with c Txn_Commit_refines [OF assms(1,2) c] show ?thesis by auto
qed

section \<open>Lost rows\<close>

text \<open>
  C15: an UPDATE that moves a primary key deletes the old row before it inserts the new one. In autocommit, when the new key is
  taken, the statement reports the duplicate and the old row is gone.
\<close>

theorem update_loses_row:
  assumes "eng_wf e" "db_of e tbl = Some (tid, td_cols def, m)" "io_clean (e_wal e)"
    and "fmlookup m i = Some old" "fmlookup m k \<noteq> None" "k \<noteq> i" "0 < k" "is_int64 i" "length row = length (td_cols def)"
    and "update_check now (engine_accessor g) def tbl sc sets (i, old) e = Ok (row, Some k)"
    and "fkReferenced (engine_accessor g) tbl i tbl i e = Ok ()"
  shows "\<exists>e'. update_row now (engine_accessor g) def tbl sc sets (i, old) e = (Err (DuplicateKey tbl (Some k)), e')
    \<and> db_of e' = db_upd tbl (fmdrop i) (db_of e)"
proof -
  obtain e1 where e1: "Engine_Delete g tbl i e = (Ok (), e1)" "eng_wf e1" "db_of e1 = db_upd tbl (fmdrop i) (db_of e)"
    using Engine_Delete_Ok [OF assms(1,2,8,3), of g] assms(4) by auto
  then have "db_of e1 tbl = Some (tid, td_cols def, fmdrop i m)" using assms(2) by (simp add: db_upd_def)
  with e1(2) obtain p where p: "fmlookup (tables e1) tbl = Some p" "t_cols (heap e1 ! p) = td_cols def" "t_rows (heap e1 ! p) = fmdrop i m"
    by (rule db_tab)
  then have "Engine_Put g tbl k row e1 = (Err ErrExists, e1)"
    using assms(5-7,9) reserve_row_Err [of k False "heap e1 ! p"]
    by (auto simp: Engine_Put_def Engine_put_def Let_def reserve_row_def)
  with e1 assms(10,11) show ?thesis by (auto simp: update_row_def engine_accessor_def write_error_def)
qed

definition two_rows :: engine where
  "two_rows = demo [(''t'', [pk_col ''id'', int_col ''v''], [(1, [VInt 1, VInt 10]), (2, [VInt 2, VInt 20])])]"

theorem update_loses_row_witness:
  "\<exists>e'. execUpdate sample_world (engine_accessor sample_gob) ''t'' [(''id'', Lit (VInt 2))]
        (Some (Cmp ''='' (ColRef [] ''v'') (Lit (VInt 10)))) two_rows = (Err (DuplicateKey ''t'' (Some 2)), e')
    \<and> Engine_Get ''t'' 1 e' = None \<and> Engine_Get ''t'' 1 two_rows = Some [VInt 1, VInt 10]"
proof -
  let ?def = "\<lparr>td_name = ''t'', td_cols = [pk_col ''id'', int_col ''v'']\<rparr>"
  let ?acc = "engine_accessor sample_gob" and ?sc = "singleTableScope ?def" and ?c = "(1, [VInt 1, VInt 10])"
  let ?m = "fmap_of_list [(1, [VInt 1, VInt 10]), (2, [VInt 2, VInt 20])] :: rows"
  have wf: "eng_wf two_rows" unfolding two_rows_def
    by (rule demo_wf) (auto simp: plain_column_def intro!: no_unique)
  have db: "db_of two_rows ''t'' = Some (0, td_cols ?def, ?m)"
    using demo_db [of "[(''t'', [pk_col ''id'', int_col ''v''], [(1, [VInt 1, VInt 10]), (2, [VInt 2, VInt 20])])]" 0]
    by (simp add: two_rows_def)
  have plan: "plan_update sample_world ?acc ''t'' [(''id'', Lit (VInt 2))] (Some (Cmp ''='' (ColRef [] ''v'') (Lit (VInt 10)))) two_rows
      = Ok (?def, [(0, Lit (VInt 2))], [?c])" by code_simp
  have chk: "update_check (w_now sample_world) ?acc ?def ''t'' ?sc [(0, Lit (VInt 2))] ?c two_rows = Ok ([VInt 2, VInt 10], Some 2)"
    by code_simp
  have fk: "fkReferenced ?acc ''t'' 1 ''t'' 1 two_rows = Ok ()" by code_simp
  have clean: "io_clean (e_wal two_rows)" by (simp add: two_rows_def demo_clean)
  obtain e' where e': "update_row (w_now sample_world) ?acc ?def ''t'' ?sc [(0, Lit (VInt 2))] ?c two_rows
        = (Err (DuplicateKey ''t'' (Some 2)), e')" "db_of e' = db_upd ''t'' (fmdrop 1) (db_of two_rows)"
    using update_loses_row [OF wf db clean _ _ _ _ _ _ chk fk] by (auto simp: fmlookup_of_list)
  then have "execUpdate sample_world ?acc ''t'' [(''id'', Lit (VInt 2))] (Some (Cmp ''='' (ColRef [] ''v'') (Lit (VInt 10)))) two_rows
      = (Err (DuplicateKey ''t'' (Some 2)), e')" using plan by (simp add: execUpdate_def)
  then show ?thesis using e'(2) db by (auto simp: Engine_Get_db db_upd_def fmlookup_of_list)
qed

section \<open>Unchecked constraints\<close>



section \<open>Dangling references\<close>

lemma drop_parent:
  "\<exists>e'. Exec_engine sample_gob sample_world (DropTable ''p'' False) (family [(1, [VInt 1, VInt 1])]) = (Ok (affected 0), e')
     \<and> Engine_Get ''c'' 1 e' = Some [VInt 1, VInt 1] \<and> Engine_Get ''p'' 1 e' = None"
proof -
  let ?e = "family [(1, [VInt 1, VInt 1])]"
  have wf: "eng_wf ?e" by (rule family_wf)
  obtain p where "fmlookup (tables ?e) ''p'' = Some p" using wf family_db(1) by (rule db_tab)
  moreover have "encodable sample_gob (drop_rec ''p'' (txSeq ?e + 1))"
    by (simp add: encodable_def canonical_def drop_rec_def empty_rec_def encode_payload_def maxPayload_def sample_gob_def
        enc_sc_def enc_char_def)
  moreover have "io_clean (e_wal ?e)" by (simp add: family_def demo_clean)
  ultimately obtain e' where e': "Engine_DropTable sample_gob ''p'' ?e = (Ok (), e')"
    using Engine_DropTable_clean by blast
  with Engine_DropTable_wf [OF wf e'] show ?thesis
    by (simp add: Exec_engine_def Exec_def execDrop_def Engine_Get_db family_db fmlookup_of_list)
qed

lemma commit_child:
  "case run_txn [''insert into c values (1, 1)''] (Engine_Begin (family [])) of (rs, x, e) \<Rightarrow>
     rs = [Ok (affected 1)]
     \<and> (\<exists>e1 x' e2. Exec_engine sample_gob sample_world (sql ''delete from p'') e = (Ok (affected 1), e1)
        \<and> Txn_Commit sample_gob x e1 = (Ok (), x', e2)
        \<and> Engine_Get ''c'' 1 e2 = Some [VInt 1, VInt 1] \<and> Engine_Get ''p'' 1 e2 = None)"
proof -
  let ?s = "Engine_Begin (family [])" and ?acc = "engine_accessor sample_gob"
  obtain rs x e where s: "run_txn [''insert into c values (1, 1)''] ?s = (rs, x, e)" by (metis prod.collapse)
  then have "fst (run_txn [''insert into c values (1, 1)''] ?s) = rs" "fst (snd (run_txn [''insert into c values (1, 1)''] ?s)) = x"
    and e: "e = snd (snd (run_txn [''insert into c values (1, 1)''] ?s))" by simp_all
  moreover have "fst (run_txn [''insert into c values (1, 1)''] ?s) = [Ok (affected 1)]" by code_simp
  moreover have "fst (snd (run_txn [''insert into c values (1, 1)''] ?s)) =
    \<lparr>x_id = 1, x_done = False, x_ops = [OpPut ''c'' 1 [VInt 1, VInt 1]], x_inserts = [(''c'', 1)]\<rparr>" by code_simp
  ultimately have rs: "rs = [Ok (affected 1)]"
    and x: "x = \<lparr>x_id = 1, x_done = False, x_ops = [OpPut ''c'' 1 [VInt 1, VInt 1]], x_inserts = [(''c'', 1)]\<rparr>" by simp_all
  have "sql ''insert into c values (1, 1)'' = Insert ''c'' [] [[Lit (VInt 1), Lit (VInt 1)]]" by code_simp
  with s have "txn_frame ?s (x, e)"
    by (intro Exec_txn_frame [of "sql ''insert into c values (1, 1)''" sample_gob sample_world _ "hd rs"])
      (auto simp: is_dml_def split: prod.splits)
  then have e': "eng_wf e" "db_of e = db_of (family [])" "io_clean (e_wal e)"
    using family_wf demo_clean [of "[(''p'', [pk_col ''id''], [(1, [VInt 1])]), (''c'', child_cols, [])]"]
    by (simp_all add: txn_frame_def Engine_Begin_def Let_def family_def)
  have p: "db_of e ''p'' = Some (0, [pk_col ''id''], fmap_of_list [(1, [VInt 1])])" using e'(2) family_db(1) by simp
  have del: "sql ''delete from p'' = Delete ''p'' None" by code_simp
  have plan: "plan_delete sample_world ?acc ''p'' None e = Ok [(1, [VInt 1])]" unfolding e by code_simp
  have fk: "fkReferenced ?acc ''p'' 1 ''p'' 1 e = Ok ()" unfolding e by code_simp
  obtain e1 where e1: "Engine_Delete sample_gob ''p'' 1 e = (Ok (), e1)" "eng_wf e1" "io_clean (e_wal e1)"
      "db_of e1 = db_upd ''p'' (fmdrop 1) (db_of (family []))"
    using Engine_Delete_Ok [OF e'(1) p _ e'(3), of 1 sample_gob] e'(2) by auto
  have gone: "Exec_engine sample_gob sample_world (sql ''delete from p'') e = (Ok (affected 1), e1)"
    using plan fk e1(1) by (simp add: del Exec_engine_def Exec_def execDelete_def delete_row_def engine_accessor_def)
  have c: "db_of e1 ''c'' = Some (1, child_cols, fmempty)" using e1(4) family_db(2) [of "[]"] by (simp add: db_upd_def)
  have "checkUnique \<lparr>td_name = ''c'', td_cols = child_cols\<rparr> 1 [VInt 1, VInt 1] m = Ok ()" for m
    by (simp add: checkUnique_def uniqCols_of_def child_cols_def plain_column_def upt_rec)
  then have val: "commit_validate x e1 = Ok ()"
    using c e1(2) by (simp add: commit_validate_def x tableDef_db effMap_view txn_view_def Engine_Get_db)
  have log: "list_all (op_loggable sample_gob) (x_ops x)"
    by (simp add: x op_loggable_def loggable_def sample_gob_def maxPayload_def enc_int_def enc_char_def dec_digits.simps [of 1])
  have "\<not> x_done x" by (simp add: x)
  then obtain x' e2 where "Txn_Commit sample_gob x e1 = (Ok (), x', e2)" "db_of e2 = db_overlay (x_ops x) (db_of e1)"
    using Txn_Commit_Ok [OF e1(2) _ e1(3) val log] by blast
  with gone show ?thesis
    using s rs c e1(4) family_db(1) [of "[]"] by (auto simp: Engine_Get_db db_overlay_def x db_upd_def)
qed

text \<open>
  C14: foreign keys can end up without their parent in three ways, each with every statement reporting success: DROP TABLE does not
  look for references; COMMIT does not check the foreign keys again, so a parent deleted by another connection meanwhile is
  missed; and an auto-increment key that is itself a foreign key gets its value after the check.
\<close>

theorem dangling_references:
  "(\<exists>e'. Exec_engine sample_gob sample_world (DropTable ''p'' False) (family [(1, [VInt 1, VInt 1])]) = (Ok (affected 0), e')
      \<and> Engine_Get ''c'' 1 e' = Some [VInt 1, VInt 1] \<and> Engine_Get ''p'' 1 e' = None)
   \<and> (case run_txn [''insert into c values (1, 1)''] (Engine_Begin (family [])) of (rs, x, e) \<Rightarrow>
        rs = [Ok (affected 1)]
        \<and> (\<exists>e1 x' e2. Exec_engine sample_gob sample_world (sql ''delete from p'') e = (Ok (affected 1), e1)
           \<and> Txn_Commit sample_gob x e1 = (Ok (), x', e2)
           \<and> Engine_Get ''c'' 1 e2 = Some [VInt 1, VInt 1] \<and> Engine_Get ''p'' 1 e2 = None))
   \<and> (case run_txn [''insert into c values (null)'']
          (Engine_Begin (demo [(''p'', [pk_col ''id''], []),
             (''c'', [(pk_col ''id'')\<lparr>col_autoinc := True, col_fktable := ''p'', col_fkcol := ''id''\<rparr>], [])])) of
        (rs, x, e) \<Rightarrow> rs = [Ok (affected 1)] \<and> Txn_Get ''c'' 1 x e = Some [VInt 1] \<and> Txn_Get ''p'' 1 x e = None)"
proof (intro conjI)
  show "case run_txn [''insert into c values (null)'']
          (Engine_Begin (demo [(''p'', [pk_col ''id''], []),
             (''c'', [(pk_col ''id'')\<lparr>col_autoinc := True, col_fktable := ''p'', col_fkcol := ''id''\<rparr>], [])])) of
        (rs, x, e) \<Rightarrow> rs = [Ok (affected 1)] \<and> Txn_Get ''c'' 1 x e = Some [VInt 1] \<and> Txn_Get ''p'' 1 x e = None"
    by code_simp
qed (rule drop_parent, rule commit_child)

end
