(* ===== verification/Protocol.thy ===== *)
theory Protocol
  imports Wal Gostrings
begin

text \<open>
  \<open>internal/protocol/protocol.go\<close>: messages and the length-prefixed frames that carry them. \<open>encoding/json\<close> is a parameter;
  \<open>json_ok\<close> is its documented behaviour on the message struct: what it encodes it decodes again, except that a number in a
  column of type \<open>any\<close> comes back as a \<open>float64\<close>; \<open>json_rejects\<close> says that NaN and the infinities cannot be encoded.
  The reader of a connection is the bytes that still arrive before it closes; the writer is the bytes sent so far and the
  faults of the writes to come.
\<close>

section \<open>Messages\<close>

datatype jany = JNull | JInt int64 | JFloat float64 | JText string | JBool bool

record message =
  m_Type :: string
  m_SQL :: string
  m_Name :: string
  m_Columns :: "string list"
  m_Rows :: "jany list list"
  m_Affected :: int64
  m_Code :: string
  m_Message :: string
  m_Txn :: string
  m_Tables :: "string list"

definition msg :: "string \<Rightarrow> message" where
  "msg t = \<lparr>m_Type = t, m_SQL = [], m_Name = [], m_Columns = [], m_Rows = [], m_Affected = 0, m_Code = [], m_Message = [],
     m_Txn = [], m_Tables = []\<rparr>"

record json =
  Marshal :: "message \<Rightarrow> byte list option"
  Unmarshal :: "byte list \<Rightarrow> message option"

function valid_utf8 :: "string \<Rightarrow> bool" where
  "valid_utf8 s =
     (if s = [] then True
      else if of_char (hd s) < (0x80 :: nat) then valid_utf8 (drop 1 s)
      else case decode_rune s of None \<Rightarrow> False | Some (r, n) \<Rightarrow> valid_utf8 (drop (max 1 n) s))"
  by pat_completeness auto
termination
  by (relation "measure length") auto

declare valid_utf8.simps [simp del]

fun json_cell :: "jany \<Rightarrow> jany" where
  "json_cell (JInt i) = JFloat (f64_of_int i)"
| "json_cell v = v"

definition json_view :: "message \<Rightarrow> message" where
  "json_view m = m\<lparr>m_Rows := map (map json_cell) (m_Rows m)\<rparr>"

fun cell_ok :: "jany \<Rightarrow> bool" where
  "cell_ok (JFloat f) = (case f of FFin _ _ _ \<Rightarrow> True | _ \<Rightarrow> False)"
| "cell_ok (JText s) = valid_utf8 s"
| "cell_ok _ = True"

definition msg_ok :: "message \<Rightarrow> bool" where
  "msg_ok m \<longleftrightarrow> list_all (list_all cell_ok) (m_Rows m)
     \<and> list_all valid_utf8 ([m_Type m, m_SQL m, m_Name m, m_Code m, m_Message m, m_Txn m] @ m_Columns m @ m_Tables m)"

fun not_finite :: "jany \<Rightarrow> bool" where
  "not_finite (JFloat f) = (case f of FFin _ _ _ \<Rightarrow> False | _ \<Rightarrow> True)"
| "not_finite _ = False"

definition json_ok :: "json \<Rightarrow> bool" where
  "json_ok j \<longleftrightarrow> (\<forall>m. msg_ok m \<longrightarrow> (\<exists>b. Marshal j m = Some b \<and> Unmarshal j b = Some (json_view m)))"

definition json_rejects :: "json \<Rightarrow> bool" where
  "json_rejects j \<longleftrightarrow> (\<forall>m. list_ex (list_ex not_finite) (m_Rows m) \<longrightarrow> Marshal j m = None)"

section \<open>Frames\<close>

definition MaxFrame :: nat where
  "MaxFrame = 16 * 2 ^ 20"

datatype proto_error = MarshalError | FrameTooLarge nat | ConnError

record writer =
  o_bytes :: "byte list"
  o_faults :: "io list"

definition conn_Write :: "byte list \<Rightarrow> writer \<Rightarrow> (proto_error, unit) res \<times> writer" where
  "conn_Write bs w = (case o_faults w of
     [] \<Rightarrow> (Ok (), w\<lparr>o_bytes := o_bytes w @ bs\<rparr>)
   | IoOk # fs \<Rightarrow> (Ok (), w\<lparr>o_bytes := o_bytes w @ bs, o_faults := fs\<rparr>)
   | IoFail n # fs \<Rightarrow> (Err ConnError, w\<lparr>o_bytes := o_bytes w @ take n bs, o_faults := fs\<rparr>))"

definition WriteFrame :: "json \<Rightarrow> message \<Rightarrow> writer \<Rightarrow> (proto_error, unit) res \<times> writer" where
  "WriteFrame j m w = (case Marshal j m of
     None \<Rightarrow> (Err MarshalError, w)
   | Some b \<Rightarrow>
       if length b > MaxFrame then (Err (FrameTooLarge (length b)), w)
       else (case conn_Write (be32 (word_of_nat (length b))) w of
         (Inl e, w) \<Rightarrow> (Err e, w) | (Inr _, w) \<Rightarrow> conn_Write b w))"

definition ReadFrame :: "json \<Rightarrow> byte list \<Rightarrow> (proto_error, message) res \<times> byte list" where
  "ReadFrame j inp =
     (if length inp < 4 then (Err ConnError, [])
      else
        let n = unat (un_be32 (take 4 inp)); rest = drop 4 inp in
        if n > MaxFrame then (Err (FrameTooLarge n), rest)
        else if length rest < n then (Err ConnError, [])
        else (case Unmarshal j (take n rest) of
          None \<Rightarrow> (Err MarshalError, drop n rest) | Some m \<Rightarrow> (Ok m, drop n rest)))"

lemma ReadFrame_shorter: "ReadFrame j inp = (Ok m, rest) \<Longrightarrow> length rest < length inp"
  by (auto simp: ReadFrame_def Let_def split: if_splits option.splits)

end
