(* ===== verification/Frames.thy ===== *)
theory Frames
  imports Protocol
begin

text \<open>
  What the two ends of a connection can rely on: frames arrive whole and in order, whatever prefix of the stream arrives.
  \<open>sample_json\<close> is a concrete codec with the behaviour assumed of \<open>encoding/json\<close>.
\<close>

section \<open>A concrete codec\<close>

fun enc_jany :: "jany \<Rightarrow> byte list" where
  "enc_jany JNull = [0]"
| "enc_jany (JInt i) = 1 # enc_int i"
| "enc_jany (JFloat f) = 2 # enc_float f"
| "enc_jany (JText s) = 3 # enc_list enc_char s"
| "enc_jany (JBool b) = 4 # enc_bool b"

fun dec_jany :: "jany decoder" where
  "dec_jany [] = None"
| "dec_jany (b # bs) =
     (if b = 0 then Some (JNull, bs)
      else if b = 1 then map_option (\<lambda>(i, bs). (JInt i, bs)) (dec_int bs)
      else if b = 2 then map_option (\<lambda>(f, bs). (JFloat f, bs)) (dec_float bs)
      else if b = 3 then map_option (\<lambda>(s, bs). (JText s, bs)) (dec_all dec_char bs)
      else map_option (\<lambda>(x, bs). (JBool x, bs)) (dec_bool bs))"

definition enc_msg :: "message \<Rightarrow> byte list" where
  "enc_msg m = enc_list (enc_list enc_char) [m_Type m, m_SQL m, m_Name m, m_Code m, m_Message m, m_Txn m]
     @ enc_list (enc_list enc_char) (m_Columns m) @ enc_list (enc_list enc_char) (m_Tables m)
     @ enc_list (enc_list enc_jany) (m_Rows m) @ enc_int (m_Affected m)"

definition dec_msg :: "message decoder" where
  "dec_msg bs = Option.bind (dec_all (dec_all dec_char) bs) (\<lambda>(ss, bs).
     Option.bind (dec_all (dec_all dec_char) bs) (\<lambda>(cs, bs).
     Option.bind (dec_all (dec_all dec_char) bs) (\<lambda>(ts, bs).
     Option.bind (dec_all (dec_all dec_jany) bs) (\<lambda>(rs, bs).
     Option.bind (dec_int bs) (\<lambda>(n, bs).
       Some (\<lparr>m_Type = ss ! 0, m_SQL = ss ! 1, m_Name = ss ! 2, m_Columns = cs, m_Rows = rs, m_Affected = n, m_Code = ss ! 3,
              m_Message = ss ! 4, m_Txn = ss ! 5, m_Tables = ts\<rparr>, bs))))))"

definition sample_json :: json where
  "sample_json = \<lparr>Marshal = (\<lambda>m. if list_ex (list_ex not_finite) (m_Rows m) then None else Some (enc_msg m)),
     Unmarshal = (\<lambda>bs. map_option (\<lambda>(m, _). json_view m) (dec_msg bs))\<rparr>"

lemma inverts_jany: "inverts dec_jany enc_jany"
  unfolding inverts_def
proof (intro allI)
  fix v rest
  show "dec_jany (enc_jany v @ rest) = Some (v, rest)"
    using invertsD [OF inverts_bool] invertsD [OF inverts_int] invertsD [OF inverts_string] invertsD [OF inverts_float]
    by (cases v) (auto simp del: enc_bool.simps)
qed

lemma inverts_msg: "inverts dec_msg enc_msg"
  unfolding inverts_def enc_msg_def dec_msg_def
  using invertsD [OF inverts_list [OF inverts_string]] invertsD [OF inverts_list [OF inverts_list [OF inverts_jany]]]
    invertsD [OF inverts_int]
  by (auto simp del: enc_list.simps)

lemma cell_ok_finite: "cell_ok v \<Longrightarrow> \<not> not_finite v"
  by (cases v) (auto split: float64.splits)

lemma json_ok_sample: "json_ok sample_json"
  using invertsD [OF inverts_msg, of _ "[]"] cell_ok_finite
  by (auto simp: json_ok_def sample_json_def msg_ok_def list_ex_iff list_all_iff)

lemma json_rejects_sample: "json_rejects sample_json"
  by (auto simp: json_rejects_def sample_json_def)

section \<open>Streams of frames\<close>

definition fits :: "json \<Rightarrow> message \<Rightarrow> bool" where
  "fits j m \<longleftrightarrow> (case Marshal j m of None \<Rightarrow> False | Some b \<Rightarrow> length b \<le> MaxFrame)"

definition frame_of :: "json \<Rightarrow> message \<Rightarrow> byte list" where
  "frame_of j m = (case Marshal j m of None \<Rightarrow> [] | Some b \<Rightarrow> be32 (word_of_nat (length b)) @ b)"

definition frames_of :: "json \<Rightarrow> message list \<Rightarrow> byte list" where
  "frames_of j ms = concat (map (frame_of j) ms)"

fun write_all :: "json \<Rightarrow> message list \<Rightarrow> writer \<Rightarrow> (proto_error, unit) res \<times> writer" where
  "write_all j [] w = (Ok (), w)"
| "write_all j (m # ms) w = (case WriteFrame j m w of (Inl e, w) \<Rightarrow> (Err e, w) | (Inr _, w) \<Rightarrow> write_all j ms w)"

function read_all :: "json \<Rightarrow> byte list \<Rightarrow> message list \<times> proto_error" where
  "read_all j inp = (case ReadFrame j inp of
     (Inl e, _) \<Rightarrow> ([], e) | (Inr m, rest) \<Rightarrow> (case read_all j rest of (ms, e) \<Rightarrow> (m # ms, e)))"
  by pat_completeness auto
termination
  by (relation "measure (\<lambda>(_, inp). length inp)") (auto dest: ReadFrame_shorter [OF sym])

declare read_all.simps [simp del]

lemma WriteFrame_fits:
  "fits j m \<Longrightarrow> o_faults w = [] \<Longrightarrow> WriteFrame j m w = (Ok (), w\<lparr>o_bytes := o_bytes w @ frame_of j m\<rparr>)"
  by (auto simp: fits_def WriteFrame_def conn_Write_def frame_of_def split: option.splits)

lemma write_all_fits:
  "list_all (fits j) ms \<Longrightarrow> o_faults w = [] \<Longrightarrow> write_all j ms w = (Ok (), w\<lparr>o_bytes := o_bytes w @ frames_of j ms\<rparr>)"
  by (induction ms arbitrary: w) (auto simp: WriteFrame_fits frames_of_def)

lemma frame_length_exact: "n \<le> MaxFrame \<Longrightarrow> unat (word_of_nat n :: uint32) = n"
  by (simp add: MaxFrame_def unat_of_nat take_bit_nat_eq_self)

lemma ReadFrame_frame:
  assumes "json_ok j" "msg_ok m" "fits j m"
  shows "ReadFrame j (frame_of j m @ rest) = (Ok (json_view m), rest)"
proof -
  obtain b where b: "Marshal j m = Some b" "Unmarshal j b = Some (json_view m)"
    using assms by (auto simp: json_ok_def)
  with assms(3) have "length b \<le> MaxFrame" by (simp add: fits_def)
  then show ?thesis using b by (simp add: ReadFrame_def frame_of_def frame_length_exact)
qed

lemma ReadFrame_short:
  assumes "fits j m" "n < length (frame_of j m)"
  shows "ReadFrame j (take n (frame_of j m)) = (Err ConnError, [])"
proof -
  obtain b where b: "Marshal j m = Some b" "length b \<le> MaxFrame"
    using assms by (auto simp: fits_def split: option.splits)
  then show ?thesis using assms(2) by (auto simp: ReadFrame_def frame_of_def frame_length_exact Let_def)
qed

lemma read_all_torn:
  assumes "json_ok j" "list_all (\<lambda>m. msg_ok m \<and> fits j m) ms"
  shows "\<exists>k \<le> length ms. read_all j (take n (frames_of j ms)) = (map json_view (take k ms), ConnError)
    \<and> length (frames_of j (take k ms)) \<le> n \<and> (k < length ms \<longrightarrow> n < length (frames_of j (take (Suc k) ms)))"
  using assms(2)
proof (induction ms arbitrary: n)
  case Nil
  then show ?case by (simp add: frames_of_def read_all.simps ReadFrame_def)
next
  case (Cons m ms)
  have all: "frames_of j (m # xs) = frame_of j m @ frames_of j xs" for xs by (simp add: frames_of_def)
  show ?case
  proof (cases "n < length (frame_of j m)")
    case True
    then have "take n (frames_of j (m # ms)) = take n (frame_of j m)" by (simp add: all)
    then show ?thesis using Cons.prems True
      by (intro exI [of _ 0]) (simp add: read_all.simps ReadFrame_short all frames_of_def)
  next
    case False
    define n' where "n' = n - length (frame_of j m)"
    obtain k where k: "k \<le> length ms" "read_all j (take n' (frames_of j ms)) = (map json_view (take k ms), ConnError)"
      "length (frames_of j (take k ms)) \<le> n'" "k < length ms \<longrightarrow> n' < length (frames_of j (take (Suc k) ms))"
      using Cons.IH [of n'] Cons.prems by auto
    have "take n (frames_of j (m # ms)) = frame_of j m @ take n' (frames_of j ms)" using False by (simp add: all n'_def)
    then have "read_all j (take n (frames_of j (m # ms))) = (map json_view (take (Suc k) (m # ms)), ConnError)"
      using Cons.prems k(2) by (subst read_all.simps) (simp add: ReadFrame_frame [OF assms(1)])
    then show ?thesis using k False by (intro exI [of _ "Suc k"]) (auto simp: all n'_def)
  qed
qed

text \<open>
  C10: Messages that can be encoded in a frame arrive in order and unchanged, numbers of results as \<open>float64\<close>; when the connection
  breaks after any number of bytes, exactly the messages whose last byte arrived are delivered, and then an error.
\<close>

theorem frames_roundtrip:
  assumes "json_ok j" "list_all (\<lambda>m. msg_ok m \<and> fits j m) ms" "o_faults w = []" "o_bytes w = []"
  shows "\<exists>out. write_all j ms w = (Ok (), w\<lparr>o_bytes := out\<rparr>)
    \<and> read_all j out = (map json_view ms, ConnError)
    \<and> (\<forall>n. \<exists>k \<le> length ms. read_all j (take n out) = (map json_view (take k ms), ConnError)
         \<and> length (frames_of j (take k ms)) \<le> n \<and> (k < length ms \<longrightarrow> n < length (frames_of j (take (Suc k) ms))))"
proof -
  have "list_all (fits j) ms" using assms(2) by (auto simp: list_all_iff)
  then have w: "write_all j ms w = (Ok (), w\<lparr>o_bytes := frames_of j ms\<rparr>)" using assms(3,4) by (simp add: write_all_fits)
  obtain k where k: "k \<le> length ms" "read_all j (frames_of j ms) = (map json_view (take k ms), ConnError)"
    "k < length ms \<longrightarrow> length (frames_of j ms) < length (frames_of j (take (Suc k) ms))"
    using read_all_torn [OF assms(1,2), of "length (frames_of j ms)"] by auto
  have "length (frames_of j (take i ms)) \<le> length (frames_of j ms)" for i
    by (metis append_take_drop_id concat_append frames_of_def length_append map_append le_add1)
  with k have "k = length ms" by (metis leD le_neq_implies_less)
  with k w show ?thesis using read_all_torn [OF assms(1,2)] by (intro exI [of _ "frames_of j ms"]) simp
qed

theorem frames_roundtrip_witness:
  "read_all sample_json (frames_of sample_json [(msg ''ok'')\<lparr>m_Affected := 2\<rparr>, msg ''ready''])
     = ([(msg ''ok'')\<lparr>m_Affected := 2\<rparr>, msg ''ready''], ConnError)"
proof -
  let ?ms = "[(msg ''ok'')\<lparr>m_Affected := 2\<rparr>, msg ''ready'']"
  let ?w = "\<lparr>o_bytes = [], o_faults = []\<rparr>"
  have "list_all (\<lambda>m. msg_ok m) ?ms" by code_simp
  moreover have "list_all (fits sample_json) ?ms"
    by (simp add: fits_def sample_json_def msg_def enc_msg_def enc_char_def enc_int_def dec_digits.simps [of 0] dec_digits.simps [of 2] MaxFrame_def)
  ultimately have ok: "list_all (\<lambda>m. msg_ok m \<and> fits sample_json m) ?ms" by simp
  obtain out where out: "write_all sample_json ?ms ?w = (Ok (), ?w\<lparr>o_bytes := out\<rparr>)"
    "read_all sample_json out = (map json_view ?ms, ConnError)"
    using frames_roundtrip [OF json_ok_sample ok, of ?w] by auto
  have "write_all sample_json ?ms ?w = (Ok (), ?w\<lparr>o_bytes := frames_of sample_json ?ms\<rparr>)"
    using write_all_fits [OF \<open>list_all (fits sample_json) ?ms\<close>, of ?w] by (simp del: write_all.simps)
  with out(1) have "out = frames_of sample_json ?ms" by (metis Pair_inject writer.select_convs(1) writer.update_convs(1))
  with out(2) show ?thesis by (simp add: json_view_def msg_def)
qed

end
