(* ===== verification/Messages.thy ===== *)
theory Messages
  imports Exec Lexer
begin

text \<open>
  The texts of the errors, as the server sends them: syntax errors (\<open>parser.go\<close>), schema and storage errors, and the errors
  of the executor. \<open>p\<close> is the table of printable runes that \<open>%q\<close> consults and \<open>os\<close> the text of an error the operating system or
  the gob library reported.
\<close>

definition str_nat :: "nat \<Rightarrow> string" where
  "str_nat n = format_int (int n)"

definition dq :: "string \<Rightarrow> string" where
  "dq s = CHR 0x22 # s @ [CHR 0x22]"

definition describe :: "(nat \<Rightarrow> bool) \<Rightarrow> token \<Rightarrow> string" where
  "describe p t = (if tok_kind t = tokEOF then ''end of input'' else Quote p (tok_text t))"

fun syn_text :: "(nat \<Rightarrow> bool) \<Rightarrow> syn_msg \<Rightarrow> string" where
  "syn_text p UnterminatedString = ''unterminated string literal''"
| "syn_text p (UnexpectedChar c) = ''unexpected character '' @ QuoteRune p c"
| "syn_text p (Expected x t) = ''expected '' @ Quote p x @ '', got '' @ describe p t"
| "syn_text p (ExpectedName x t) = ''expected '' @ x @ '', got '' @ describe p t"
| "syn_text p (UnknownColumnType tn) = ''unknown column type '' @ Quote p tn"
| "syn_text p EmptyStatement = ''empty statement''"
| "syn_text p (UnsupportedStatement t) = ''unsupported statement (got '' @ describe p t @ '')''"
| "syn_text p ExpectedSelect = ''expected SELECT in derived table''"
| "syn_text p AliasRequired = ''derived table requires an alias''"
| "syn_text p LimitNeedsInt = ''LIMIT requires a non-negative integer literal''"
| "syn_text p (BadNumber x) = ''bad number '' @ Quote p x"
| "syn_text p (Unexpected t) = ''unexpected '' @ describe p t"
| "syn_text p UnexpectedEnd = ''unexpected end of input''"
| "syn_text p (TrailingInput t) = ''unexpected input '' @ describe p t @ '' after statement''"

fun parse_text :: "(nat \<Rightarrow> bool) \<Rightarrow> parse_error \<Rightarrow> string" where
  "parse_text p (SyntaxError pos m) = ''syntax error at position '' @ str_nat pos @ '': '' @ syn_text p m"

fun schema_text :: "(nat \<Rightarrow> bool) \<Rightarrow> schema_error \<Rightarrow> string" where
  "schema_text p (InvalidTableName n) = ''invalid table name '' @ Quote p n"
| "schema_text p (NoColumns n) = ''table '' @ n @ '' needs at least one column''"
| "schema_text p (InvalidColumnName c n) = ''invalid column name '' @ Quote p c @ '' in table '' @ n"
| "schema_text p (DuplicateColumn c n) = ''duplicate column '' @ Quote p c @ '' in table '' @ n"
| "schema_text p (UnknownType c ct) = ''column '' @ c @ '': unknown type '' @ Quote p ct"
| "schema_text p (TooManyPrimaryKeys n) = ''table '' @ n @ '': v1 supports at most one primary key column''"

fun wal_text :: "string \<Rightarrow> wal_error \<Rightarrow> string" where
  "wal_text os ErrMalformed = ''tsql: malformed wal record''"
| "wal_text os ErrNoDDL = ''tsql: ddl record missing payload''"
| "wal_text os (ErrUnknownType b) = ''tsql: unknown record type '' @ str_nat (unat b)"
| "wal_text os ErrGob = os"
| "wal_text os ErrIO = os"

fun storage_text :: "(nat \<Rightarrow> bool) \<Rightarrow> string \<Rightarrow> storage_error \<Rightarrow> string" where
  "storage_text p os ErrNoTable = ''no such table''"
| "storage_text p os ErrExists = ''object already exists''"
| "storage_text p os ErrNoRow = ''no such row''"
| "storage_text p os ErrUnique = ''unique constraint violated''"
| "storage_text p os ErrTxnDone = ''tsql: transaction no longer active''"
| "storage_text p os ErrNegativeRowID = ''tsql: row id must be >= 0 (0 = auto)''"
| "storage_text p os ErrUpdateNeedsRowID = ''tsql: update requires an explicit row id''"
| "storage_text p os (ErrArity n t m) = ''tsql: row has '' @ str_nat n @ '' values, table '' @ t @ '' has '' @ str_nat m @ '' columns''"
| "storage_text p os (ErrVanished t) = ''tsql: table '' @ Quote p t @ '' vanished before commit''"
| "storage_text p os (ErrSchema e) = schema_text p e"
| "storage_text p os (ErrWal e) = wal_text os e"
| "storage_text p os ErrDir = os"
| "storage_text p os ErrCorruptCreate = ''tsql: corrupt create record''"
| "storage_text p os ErrCorruptDrop = ''tsql: corrupt drop record''"
| "storage_text p os (ErrUnknownTableID i) = ''tsql: wal put references unknown table id '' @ str_nat (unat i)"
| "storage_text p os ErrPanic = os"

fun check_text :: "check_error \<Rightarrow> string" where
  "check_text (CannotStore k ct) = ''cannot store '' @ kind_string k @ '' value in '' @ ct @ '' column''"

definition not_grouped_text :: "(nat \<Rightarrow> bool) \<Rightarrow> string \<Rightarrow> string" where
  "not_grouped_text p n = ''column '' @ Quote p n @ '' must appear in the GROUP BY clause or be used in an aggregate function''"

fun exec_text :: "(nat \<Rightarrow> bool) \<Rightarrow> string \<Rightarrow> exec_error \<Rightarrow> string" where
  "exec_text p os UnsupportedStmt = ''unsupported statement''"
| "exec_text p os (NoRelation n) = ''relation '' @ dq n @ '' does not exist''"
| "exec_text p os (NoColumnOf n t) = ''column '' @ dq n @ '' of table '' @ dq t @ '' does not exist''"
| "exec_text p os (NoFromEntry t) = ''missing FROM-clause entry for table '' @ dq t"
| "exec_text p os (NoColumn n) = ''column '' @ dq n @ '' does not exist''"
| "exec_text p os (AmbiguousColumn n) = ''column name '' @ dq n @ '' is ambiguous''"
| "exec_text p os (AggNotAllowed n) = ''aggregate function '' @ n @ ''() is not allowed in WHERE or SET clauses''"
| "exec_text p os (AggNoContext n) = ''aggregate function '' @ n @ ''() is not allowed in this context''"
| "exec_text p os (FuncUnsupported n) = ''function '' @ n @ ''() is not supported in v1''"
| "exec_text p os (FuncUnsupported2 n) = ''function '' @ n @ ''() is not supported in v2''"
| "exec_text p os (FuncNotInHaving n) = ''function '' @ n @ ''() is not supported in HAVING''"
| "exec_text p os InListNotLiteral = ''IN list must contain literals in v2''"
| "exec_text p os (RelationExists n) = ''relation '' @ dq n @ '' already exists''"
| "exec_text p os (CreateFailed e) = storage_text p os e"
| "exec_text p os (FKSelfReference t) = ''foreign key references unknown table '' @ Quote p t @ '' (self references need the table to exist first in v1)''"
| "exec_text p os (FKUnknownTable t) = ''foreign key references unknown table '' @ Quote p t"
| "exec_text p os (FKNoPrimaryKey t) = ''table '' @ Quote p t @ '' has no primary key to reference''"
| "exec_text p os (FKNoColumn c t) = ''column '' @ Quote p c @ '' does not exist in table '' @ Quote p t"
| "exec_text p os (FKNotPrimary t c) = ''foreign key to non-primary-key column '' @ Quote p t @ ''.'' @ Quote p c @ '' is not supported in v1''"
| "exec_text p os (FKTypeMismatch c ct pc pt) = ''foreign key column '' @ Quote p c @ '' type '' @ ct
     @ '' does not match referenced column '' @ Quote p pc @ '' type '' @ pt"
| "exec_text p os (FKNotInteger c t) = ''foreign key value in column '' @ Quote p c @ '' of table '' @ Quote p t @ '' is not an integer''"
| "exec_text p os (FKNoParent t i f) = ''insert or update on table '' @ Quote p t @ '' violates foreign key constraint (no row ''
     @ format_int i @ '' in '' @ Quote p f @ '')''"
| "exec_text p os (FKReferenced t c) = ''update or delete on table '' @ Quote p t @ '' violates foreign key constraint (row referenced by '' @ Quote p c @ '')''"
| "exec_text p os (NoTargetColumn c t) = ''column '' @ dq c @ '' of relation '' @ dq t @ '' does not exist''"
| "exec_text p os (DuplicateTarget c) = ''column '' @ dq c @ '' specified more than once''"
| "exec_text p os (InsertArity n m r) = ''INSERT has '' @ str_nat n @ '' expressions but '' @ str_nat m @ '' columns were specified (row '' @ str_nat r @ '')''"
| "exec_text p os (BadValue c e) = ''column '' @ dq c @ '': '' @ check_text e"
| "exec_text p os (NullViolation c t) = ''null value in column '' @ dq c @ '' of relation '' @ dq t @ '' violates not-null constraint''"
| "exec_text p os (PKNotInteger c) = ''column '' @ dq c @ '': primary key value must be integer''"
| "exec_text p os (DuplicateKey t i) = ''duplicate key value violates unique constraint on '' @ dq t
     @ (case i of None \<Rightarrow> [] | Some i \<Rightarrow> '' (id '' @ format_int i @ '')'')"
| "exec_text p os OnlyLiterals = ''only literals are allowed in VALUES (v1)''"
| "exec_text p os StarWithGroup = ''SELECT * is not allowed with GROUP BY or aggregate functions''"
| "exec_text p os (NotInGroup n) = not_grouped_text p n"
| "exec_text p os AggNeedsGroup = ''aggregate functions require GROUP BY in v1''"
| "exec_text p os NonAggregateExpr = ''non-aggregate expressions must appear in the GROUP BY clause''"
| "exec_text p os (StarNotSupported n) = n @ ''(*) is not supported''"
| "exec_text p os (AggNeedsArgument n) = n @ ''() requires an argument''"
| "exec_text p os AggArgNotColumn = ''aggregate argument must be a column reference in v1''"
| "exec_text p os AggArgNotColumn2 = ''aggregate argument must be a column reference in v2''"
| "exec_text p os (DuplicateAlias a) = ''table alias '' @ Quote p a @ '' specified more than once''"
| "exec_text p os GroupNotColumn = ''GROUP BY accepts column references in v1''"
| "exec_text p os OrderNotGroup = ''ORDER BY must reference a GROUP BY column or an aggregate in v1''"
| "exec_text p os UnsupportedExpr = ''unsupported expression''"
| "exec_text p os (OpNotDefined op k l) = ''operator '' @ Quote p op @ '' is not defined for '' @ kind_string k @ '' and '' @ kind_string l"
| "exec_text p os DivisionByZero = ''division by zero''"
| "exec_text p os (UnknownOperator op) = ''unknown operator '' @ op"
| "exec_text p os (UnknownComparison op) = ''unknown comparison operator '' @ op"
| "exec_text p os NotBoolean = ''expression is not boolean''"
| "exec_text p os UnsupportedBool = ''unsupported expression in boolean context''"
| "exec_text p os InSubColumns = ''IN subquery must select exactly one column in v2''"
| "exec_text p os (AggNeedsNumeric n) = n @ ''() requires a numeric column''"
| "exec_text p os (UnknownAggregate n) = ''unknown aggregate function '' @ n @ ''()''"
| "exec_text p os (StorageErr e) = storage_text p os e"
| "exec_text p os Panic = os"

end
