(* ===== verification/Server.thy ===== *)
theory Server
  imports Messages Parser Protocol
begin

text \<open>
  \<open>internal/server/server.go\<close>: one connection as a state machine. \<open>dispatch\<close> is the reaction to one message; it writes to the
  connection, may open, end or abort its transaction, and runs statements on the engine. \<open>None\<close> is a run-time panic, which ends
  the process. \<open>handle\<close> is the loop over the bytes of one connection, \<open>server_step\<close> the interleaving of many.
  Errors of \<open>WriteFrame\<close> are ignored, as in the source. Deadlines and logging are left out.
\<close>

section \<open>A connection\<close>

record conn =
  c_out :: writer
  c_txn :: "txn option"

definition send :: "json \<Rightarrow> message \<Rightarrow> conn \<Rightarrow> conn" where
  "send j m c = c\<lparr>c_out := snd (WriteFrame j m (c_out c))\<rparr>"

definition ready_msg :: "conn \<Rightarrow> message" where
  "ready_msg c = (msg ''ready'')\<lparr>m_Txn := if c_txn c \<noteq> None then ''in-txn'' else ''idle''\<rparr>"

definition srv_ready :: "json \<Rightarrow> conn \<Rightarrow> conn" where
  "srv_ready j c = send j (ready_msg c) c"

definition reply :: "json \<Rightarrow> message \<Rightarrow> conn \<Rightarrow> conn" where
  "reply j m c = srv_ready j (send j m c)"

definition error_msg :: "string \<Rightarrow> string \<Rightarrow> message" where
  "error_msg code text = (msg ''error'')\<lparr>m_Code := code, m_Message := text\<rparr>"

definition ok_msg :: "nat \<Rightarrow> message" where
  "ok_msg n = (msg ''ok'')\<lparr>m_Affected := int n\<rparr>"

text \<open>The aborted transaction is rolled back and dropped.\<close>

definition fail :: "json \<Rightarrow> string \<Rightarrow> string \<Rightarrow> conn \<Rightarrow> conn" where
  "fail j code text c = reply j (error_msg code text) (c\<lparr>c_txn := None\<rparr>)"

fun toJSON :: "val \<Rightarrow> jany" where
  "toJSON VNull = JNull"
| "toJSON (VInt i) = JInt i"
| "toJSON (VFloat f) = JFloat f"
| "toJSON (VText s) = JText s"
| "toJSON (VBool b) = JBool b"
| "toJSON (VTime t) = JText (format_datetime t)"

section \<open>Requests\<close>

definition column_key :: "column \<Rightarrow> string" where
  "column_key c = (if col_primary c then ''PK'' else if col_unique c then ''UNI'' else [])"

definition column_extra :: "column \<Rightarrow> string" where
  "column_extra c =
     (let extra = (if col_autoinc c then ''auto_increment'' else []) in
      if col_fktable c \<noteq> [] then
        extra @ (if extra \<noteq> [] then '' '' else []) @ ''references '' @ col_fktable c @ ''('' @ col_fkcol c @ '')''
      else extra)"

definition describe_row :: "column \<Rightarrow> jany list" where
  "describe_row c = map JText [col_name c, col_type c, column_key c,
     if col_notnull c \<or> col_primary c then ''no'' else ''yes'', column_extra c]"

definition runDescribe :: "json \<Rightarrow> world \<Rightarrow> string \<Rightarrow> engine \<Rightarrow> conn \<Rightarrow> conn" where
  "runDescribe j w name e c = (case find (\<lambda>d. td_name d = name) (Engine_Catalog e) of
     None \<Rightarrow> reply j (error_msg ''42P01'' (''relation '' @ Quote (w_isPrint w) name @ '' does not exist'')) c
   | Some def \<Rightarrow> reply j ((msg ''describe'')\<lparr>m_Name := td_name def,
       m_Columns := [''column'', ''type'', ''key'', ''null'', ''extra''], m_Rows := map describe_row (td_cols def)\<rparr>) c)"

definition is_panic :: "exec_error \<Rightarrow> bool" where
  "is_panic e \<longleftrightarrow> e = Panic \<or> e = StorageErr ErrPanic"

definition exec_error_msg :: "world \<Rightarrow> exec_error \<Rightarrow> string \<times> string" where
  "exec_error_msg w e = (case err_code e of Some code \<Rightarrow> code | None \<Rightarrow> ''58030'', exec_text (w_isPrint w) (w_osError w) e)"

definition result_msg :: "exec_result \<Rightarrow> message" where
  "result_msg res =
     (if r_Columns res \<noteq> [] then (msg ''result'')\<lparr>m_Columns := r_Columns res, m_Rows := map (map toJSON) (r_Rows res)\<rparr>
      else ok_msg (r_Affected res))"

text \<open>The answer to a statement the executor ran.\<close>

definition answer :: "json \<Rightarrow> world \<Rightarrow> (exec_error, exec_result) res \<Rightarrow> engine \<Rightarrow> conn \<Rightarrow> (conn \<times> engine) option" where
  "answer j w r e c = (case r of
     Inl err \<Rightarrow> if is_panic err then None else (case exec_error_msg w err of (code, text) \<Rightarrow> Some (fail j code text c, e))
   | Inr res \<Rightarrow> Some (reply j (result_msg res) c, e))"

definition run_stmt :: "json \<Rightarrow> gob \<Rightarrow> world \<Rightarrow> stmt \<Rightarrow> conn \<Rightarrow> engine \<Rightarrow> (conn \<times> engine) option" where
  "run_stmt j g w stmt c e = (case c_txn c of
     None \<Rightarrow> (case Exec_engine g w stmt e of (r, e) \<Rightarrow> answer j w r e c)
   | Some x \<Rightarrow> (case Exec_txn g w stmt (x, e) of (r, x, e) \<Rightarrow> answer j w r e (c\<lparr>c_txn := Some x\<rparr>)))"

definition is_ddl :: "stmt \<Rightarrow> bool" where
  "is_ddl st = (case st of CreateTable _ _ \<Rightarrow> True | DropTable _ _ \<Rightarrow> True | _ \<Rightarrow> False)"

definition run_begin :: "json \<Rightarrow> conn \<Rightarrow> engine \<Rightarrow> conn \<times> engine" where
  "run_begin j c e =
     (if c_txn c \<noteq> None then (reply j (ok_msg 0) c, e)
      else case Engine_Begin e of (x, e) \<Rightarrow> (reply j (ok_msg 0) (c\<lparr>c_txn := Some x\<rparr>), e))"

definition run_commit :: "json \<Rightarrow> gob \<Rightarrow> world \<Rightarrow> conn \<Rightarrow> engine \<Rightarrow> conn \<times> engine" where
  "run_commit j g w c e = (case c_txn c of
     None \<Rightarrow> (fail j ''25006'' ''there is no transaction in progress'' c, e)
   | Some x \<Rightarrow> (case Txn_Commit g x e of
       (Inl err, _, e) \<Rightarrow>
         (if err = ErrUnique then fail j ''23505'' ''duplicate key value violates unique constraint'' c
          else fail j ''58030'' (storage_text (w_isPrint w) (w_osError w) err) c, e)
     | (Inr _, _, e) \<Rightarrow> (reply j (ok_msg 0) (c\<lparr>c_txn := None\<rparr>), e)))"

definition run_rollback :: "json \<Rightarrow> conn \<Rightarrow> conn" where
  "run_rollback j c =
     (if c_txn c = None then fail j ''25006'' ''there is no transaction in progress'' c
      else reply j (ok_msg 0) (c\<lparr>c_txn := None\<rparr>))"

definition runQuery :: "json \<Rightarrow> gob \<Rightarrow> world \<Rightarrow> string \<Rightarrow> conn \<Rightarrow> engine \<Rightarrow> (conn \<times> engine) option" where
  "runQuery j g w sql c e = (case Parse sql of
     None \<Rightarrow> None
   | Some (Inl err) \<Rightarrow> Some (fail j ''42601'' (parse_text (w_isPrint w) err) c, e)
   | Some (Inr stmt) \<Rightarrow>
       (case stmt of
          Begin \<Rightarrow> Some (run_begin j c e)
        | Commit \<Rightarrow> Some (run_commit j g w c e)
        | Rollback \<Rightarrow> Some (run_rollback j c, e)
        | _ \<Rightarrow>
            if c_txn c \<noteq> None \<and> is_ddl stmt then
              Some (fail j ''25000'' ''DDL is not supported inside an explicit transaction in v1'' c, e)
            else run_stmt j g w stmt c e))"

definition dispatch :: "json \<Rightarrow> gob \<Rightarrow> world \<Rightarrow> message \<Rightarrow> conn \<Rightarrow> engine \<Rightarrow> (conn \<times> engine) option" where
  "dispatch j g w m c e =
     (if m_Type m = ''query'' then runQuery j g w (m_SQL m) c e
      else if m_Type m = ''tables'' then Some (reply j ((msg ''tables'')\<lparr>m_Tables := map td_name (Engine_Catalog e)\<rparr>) c, e)
      else if m_Type m = ''databases'' then Some (reply j ((msg ''databases'')\<lparr>m_Tables := [''tsql'']\<rparr>) c, e)
      else if m_Type m = ''describe'' then Some (runDescribe j w (m_Name m) e c, e)
      else Some (reply j (error_msg ''0A000'' (''unknown message type '' @ m_Type m)) c, e))"

section \<open>The loop of a connection\<close>

text \<open>
  \<open>clock k\<close> is what message \<open>k\<close> sees of the outside, \<open>stop k\<close> whether the server is shutting down when it arrives.
  A transaction that is open at the end is rolled back.
\<close>

definition hang_up :: "conn \<Rightarrow> conn" where
  "hang_up c = c\<lparr>c_txn := None\<rparr>"

function handle ::
  "json \<Rightarrow> gob \<Rightarrow> (nat \<Rightarrow> world) \<Rightarrow> (nat \<Rightarrow> bool) \<Rightarrow> nat \<Rightarrow> byte list \<Rightarrow> conn \<Rightarrow> engine \<Rightarrow> (conn \<times> engine) option" where
  "handle j g clock stop k inp c e = (case ReadFrame j inp of
     (Inl _, _) \<Rightarrow> Some (hang_up c, e)
   | (Inr m, rest) \<Rightarrow>
       if stop k then Some (hang_up c, e)
       else (case dispatch j g (clock k) m c e of
         None \<Rightarrow> None | Some (c, e) \<Rightarrow> handle j g clock stop (Suc k) rest c e))"
  by pat_completeness auto
termination
  by (relation "measure (\<lambda>(_, _, _, _, _, inp, _, _). length inp)") (auto dest: ReadFrame_shorter [OF sym])

declare handle.simps [simp del]

definition new_conn :: "io list \<Rightarrow> conn" where
  "new_conn fs = \<lparr>c_out = \<lparr>o_bytes = [], o_faults = fs\<rparr>, c_txn = None\<rparr>"

section \<open>Many connections\<close>

text \<open>One goroutine per connection: messages of different connections are handled in any order, one at a time.\<close>

inductive server_step :: "json \<Rightarrow> gob \<Rightarrow> engine \<times> conn list \<Rightarrow> engine \<times> conn list \<Rightarrow> bool" for j g where
  connect: "server_step j g (e, cs) (e, cs @ [new_conn fs])"
| message: "i < length cs \<Longrightarrow> dispatch j g w m (cs ! i) e = Some (c, e') \<Longrightarrow> server_step j g (e, cs) (e', cs[i := c])"
| disconnect: "i < length cs \<Longrightarrow> server_step j g (e, cs) (e, cs[i := hang_up (cs ! i)])"

end
