(* ===== verification/Client.thy ===== *)
theory Client
  imports Protocol
begin

text \<open>
  \<open>cmd/tsql/main.go\<close>: the command-line client. Its connection is the bytes the server sends and a writer; its terminal is the
  text on standard output and standard error. Flags, dialling and the banner are left out.
\<close>

section \<open>Lines\<close>

function strip_semicolons :: "string \<Rightarrow> string" where
  "strip_semicolons s =
     (if s \<noteq> [] \<and> last s = CHR '';'' then strip_semicolons (TrimSpace (butlast s)) else s)"
  by pat_completeness auto
termination
proof (relation "measure length", goal_cases)
  case (2 s)
  then show ?case using TrimSpace_length [of "butlast s"] by (cases s) auto
qed simp

declare strip_semicolons.simps [simp del]

datatype line_kind = Quit | Noop | TablesCmd | DatabasesCmd | DescribeCmd string | Help | Unknown string | Sql string

definition trim_plus :: "string \<Rightarrow> string" where
  "trim_plus s = (if s \<noteq> [] \<and> last s = CHR ''+'' then butlast s else s)"

definition classify_command :: "string \<Rightarrow> line_kind" where
  "classify_command body =
     (let word = takeWhile (\<lambda>c. c \<noteq> CHR '' '') body; a = TrimSpace (drop (Suc (length word)) body); cmd = trim_plus (ToLower word) in
      if cmd = ''q'' then Quit
      else if cmd = ''dt'' \<or> cmd = ''dn'' then TablesCmd
      else if cmd = ''l'' then DatabasesCmd
      else if cmd = ''d'' then DescribeCmd a
      else if cmd = ''h'' \<or> cmd = ''help'' then Help
      else Unknown body)"

definition classifyLine :: "string \<Rightarrow> line_kind" where
  "classifyLine line =
     (if line \<noteq> [] \<and> (hd line = CHR 0x5C \<or> hd line = CHR ''/'') then classify_command (TrimSpace (tl line))
      else if ToLower (TrimSpace line) = ''quit'' \<or> ToLower (TrimSpace line) = ''exit'' then Quit
      else let sql = strip_semicolons (TrimSpace line) in if sql = [] then Noop else Sql sql)"

section \<open>Output\<close>

record terminal =
  t_stdout :: string
  t_stderr :: string

definition puts :: "string \<Rightarrow> terminal \<Rightarrow> terminal" where
  "puts s t = t\<lparr>t_stdout := t_stdout t @ s\<rparr>"

definition eputs :: "string \<Rightarrow> terminal \<Rightarrow> terminal" where
  "eputs s t = t\<lparr>t_stderr := t_stderr t @ s\<rparr>"

abbreviation nl :: string where
  "nl \<equiv> [CHR 0x0A]"

definition plural :: "int64 \<Rightarrow> string" where
  "plural n = (if n = 1 then [] else ''s'')"

text \<open>The verb \<open>%v\<close> on a decoded JSON value; a nil cell is empty.\<close>

fun cell_text :: "jany \<Rightarrow> string" where
  "cell_text JNull = []"
| "cell_text (JInt i) = format_int i"
| "cell_text (JFloat f) = format_float f"
| "cell_text (JText s) = s"
| "cell_text (JBool b) = (if b then ''true'' else ''false'')"

definition join_with :: "string \<Rightarrow> string list \<Rightarrow> string" where
  "join_with sep xs = (case xs of [] \<Rightarrow> [] | x # ys \<Rightarrow> x @ concat (map (\<lambda>y. sep @ y) ys))"

definition joinPadded :: "string list \<Rightarrow> nat list \<Rightarrow> string" where
  "joinPadded cells widths = join_with '' | ''
     (map (\<lambda>(i, s). if i < length widths then s @ replicate (widths ! i - length s) (CHR '' '') else s) (zip [0..<length cells] cells))"

definition table_cells :: "nat \<Rightarrow> jany list list \<Rightarrow> string list list" where
  "table_cells n rows = map (\<lambda>r. map (\<lambda>j. if j < length r then cell_text (r ! j) else []) [0..<n]) rows"

definition formatTable :: "string list \<Rightarrow> jany list list \<Rightarrow> string" where
  "formatTable cols rows =
     (let cells = table_cells (length cols) rows;
          widths = map (\<lambda>j. Max (insert (length (cols ! j)) (set (map (\<lambda>r. length (r ! j)) cells)))) [0..<length cols]
      in joinPadded cols widths @ nl
         @ join_with ''-'' (map (\<lambda>n. replicate n (CHR ''-'')) widths) @ nl
         @ concat (map (\<lambda>r. joinPadded r widths @ nl) cells))"

definition rows_line :: "nat \<Rightarrow> string" where
  "rows_line n = ''('' @ format_int (int n) @ '' row'' @ plural (int n) @ '')'' @ nl"

definition print_table :: "message \<Rightarrow> terminal \<Rightarrow> terminal" where
  "print_table m t =
     (if m_Rows m = [] then puts (''(0 rows)'' @ nl) t
      else puts (rows_line (length (m_Rows m))) (puts (formatTable (m_Columns m) (m_Rows m)) t))"

definition print_error :: "message \<Rightarrow> terminal \<Rightarrow> terminal" where
  "print_error m = eputs (''ERROR ['' @ m_Code m @ '']: '' @ m_Message m @ nl)"

fun printResults :: "message list \<Rightarrow> terminal \<Rightarrow> bool \<times> terminal" where
  "printResults [] t = (True, t)"
| "printResults (m # ms) t =
     (if m_Type m = ''result'' then printResults ms (print_table m t)
      else if m_Type m = ''ok'' then
        printResults ms (puts (''OK ('' @ format_int (m_Affected m) @ '' row'' @ plural (m_Affected m) @ '')'' @ nl) t)
      else if m_Type m = ''error'' then (False, snd (printResults ms (print_error m t)))
      else printResults ms t)"

section \<open>Requests\<close>

text \<open>Reading until the ready frame.\<close>

function read_until :: "json \<Rightarrow> byte list \<Rightarrow> (proto_error, message list) res \<times> byte list" where
  "read_until j inp = (case ReadFrame j inp of
     (Inl e, inp) \<Rightarrow> (Err e, inp)
   | (Inr m, inp) \<Rightarrow>
       if m_Type m = ''ready'' then (Ok [m], inp)
       else (case read_until j inp of (Inl e, inp) \<Rightarrow> (Err e, inp) | (Inr ms, inp) \<Rightarrow> (Ok (m # ms), inp)))"
  by pat_completeness auto
termination
  by (relation "measure (\<lambda>(_, inp). length inp)") (auto dest: ReadFrame_shorter [OF sym])

declare read_until.simps [simp del]

record link =
  l_in :: "byte list"
  l_out :: writer

definition request :: "json \<Rightarrow> message \<Rightarrow> link \<Rightarrow> (proto_error, unit) res \<times> link" where
  "request j m l = (case WriteFrame j m (l_out l) of (r, out) \<Rightarrow> (r, l\<lparr>l_out := out\<rparr>))"

definition sendQuery :: "json \<Rightarrow> string \<Rightarrow> link \<Rightarrow> (proto_error, message list) res \<times> link" where
  "sendQuery j sql l = (case request j ((msg ''query'')\<lparr>m_SQL := sql\<rparr>) l of
     (Inl e, l) \<Rightarrow> (Err e, l)
   | (Inr _, l) \<Rightarrow> (case read_until j (l_in l) of (r, inp) \<Rightarrow> (r, l\<lparr>l_in := inp\<rparr>)))"

text \<open>\<open>err\<close> is the text of a connection or codec error.\<close>

definition runOnce :: "json \<Rightarrow> (proto_error \<Rightarrow> string) \<Rightarrow> string \<Rightarrow> link \<Rightarrow> terminal \<Rightarrow> int \<times> link \<times> terminal" where
  "runOnce j err sql l t =
     (let sql = strip_semicolons (TrimSpace sql) in
      if sql = [] then (0, l, t)
      else (case sendQuery j sql l of
        (Inl e, l) \<Rightarrow> (1, l, eputs (''tsql: '' @ err e @ nl) t)
      | (Inr ms, l) \<Rightarrow> (case printResults ms t of (good, t) \<Rightarrow> (if good then 0 else 1, l, t))))"

text \<open>
  The loops of \<open>listTables\<close>, \<open>listDatabases\<close> and \<open>describeTable\<close>: skip frames until one ends the command. \<open>stop\<close> says
  which one, and what it prints.
\<close>

function await :: "json \<Rightarrow> (proto_error \<Rightarrow> string) \<Rightarrow> (message \<Rightarrow> (terminal \<Rightarrow> terminal) option) \<Rightarrow> byte list \<Rightarrow> terminal \<Rightarrow> byte list \<times> terminal" where
  "await j err stop inp t = (case ReadFrame j inp of
     (Inl e, inp) \<Rightarrow> (inp, eputs (''tsql: '' @ err e @ nl) t)
   | (Inr m, inp) \<Rightarrow>
       (case stop m of Some f \<Rightarrow> (inp, f t)
        | None \<Rightarrow> if m_Type m = ''ready'' then (inp, t) else await j err stop inp t))"
  by pat_completeness auto
termination
  by (relation "measure (\<lambda>(_, _, _, inp, _). length inp)") (auto dest: ReadFrame_shorter [OF sym])

declare await.simps [simp del]

definition ask ::
  "json \<Rightarrow> (proto_error \<Rightarrow> string) \<Rightarrow> message \<Rightarrow> (message \<Rightarrow> (terminal \<Rightarrow> terminal) option) \<Rightarrow> link \<Rightarrow> terminal \<Rightarrow> link \<times> terminal" where
  "ask j err m stop l t = (case request j m l of
     (Inl e, l) \<Rightarrow> (l, eputs (''tsql: '' @ err e @ nl) t)
   | (Inr _, l) \<Rightarrow> (case await j err stop (l_in l) t of (inp, t) \<Rightarrow> (l\<lparr>l_in := inp\<rparr>, t)))"

definition print_names :: "string \<Rightarrow> string list \<Rightarrow> terminal \<Rightarrow> terminal" where
  "print_names none names = (if names = [] then puts (none @ nl) else puts (concat (map (\<lambda>n. n @ nl) names)))"

definition listTables :: "json \<Rightarrow> (proto_error \<Rightarrow> string) \<Rightarrow> link \<Rightarrow> terminal \<Rightarrow> link \<times> terminal" where
  "listTables j err = ask j err (msg ''tables'')
     (\<lambda>m. if m_Type m = ''tables'' then Some (print_names ''(no tables)'' (m_Tables m)) else None)"

definition listDatabases :: "json \<Rightarrow> (proto_error \<Rightarrow> string) \<Rightarrow> link \<Rightarrow> terminal \<Rightarrow> link \<times> terminal" where
  "listDatabases j err = ask j err (msg ''databases'')
     (\<lambda>m. if m_Type m = ''databases'' then Some (print_names ''(no databases)'' (m_Tables m)) else None)"

definition describeTable :: "json \<Rightarrow> (proto_error \<Rightarrow> string) \<Rightarrow> string \<Rightarrow> link \<Rightarrow> terminal \<Rightarrow> link \<times> terminal" where
  "describeTable j err name = ask j err ((msg ''describe'')\<lparr>m_Name := name\<rparr>)
     (\<lambda>m. if m_Type m = ''describe'' then Some (\<lambda>t. print_table m (puts (m_Name m @ nl) t))
          else if m_Type m = ''error'' then Some (print_error m) else None)"

section \<open>The interactive loop\<close>

definition help_text :: string where
  "help_text =
     ''commands:'' @ nl
     @ ''  '' @ [CHR 0x5C] @ ''q           quit'' @ nl
     @ ''  '' @ [CHR 0x5C] @ ''dt          list tables'' @ nl
     @ ''  '' @ [CHR 0x5C] @ ''dn          list schemas (v1: single schema, lists tables)'' @ nl
     @ ''  '' @ [CHR 0x5C] @ ''l           list databases (v1: single database)'' @ nl
     @ ''  '' @ [CHR 0x5C] @ ''d [table]   describe a table (no arg: list tables)'' @ nl
     @ ''  '' @ [CHR 0x5C] @ ''h           this help'' @ nl
     @ ''SQL statements take one line each; a trailing semicolon is optional.'' @ nl"

fun repl :: "json \<Rightarrow> (nat \<Rightarrow> bool) \<Rightarrow> (proto_error \<Rightarrow> string) \<Rightarrow> string list \<Rightarrow> link \<Rightarrow> terminal \<Rightarrow> link \<times> terminal" where
  "repl j isPrint err [] l t = (l, puts nl (puts ''tsql> '' t))"
| "repl j isPrint err (raw # lines) l t =
     (let t = puts ''tsql> '' t; line = TrimSpace raw in
      if line = [] then repl j isPrint err lines l t
      else (case classifyLine line of
        Quit \<Rightarrow> (l, t)
      | Noop \<Rightarrow> repl j isPrint err lines l t
      | TablesCmd \<Rightarrow> (case listTables j err l t of (l, t) \<Rightarrow> repl j isPrint err lines l t)
      | DatabasesCmd \<Rightarrow> (case listDatabases j err l t of (l, t) \<Rightarrow> repl j isPrint err lines l t)
      | DescribeCmd a \<Rightarrow>
          (case (if a = [] then listTables j err l t else describeTable j err a l t) of (l, t) \<Rightarrow> repl j isPrint err lines l t)
      | Help \<Rightarrow> repl j isPrint err lines l (puts help_text t)
      | Unknown b \<Rightarrow> repl j isPrint err lines l
          (eputs (''tsql: unknown command '' @ Quote isPrint line @ '' (try '' @ [CHR 0x5C] @ ''h)'' @ nl) t)
      | Sql sql \<Rightarrow>
          (case sendQuery j sql l of
             (Inl e, l) \<Rightarrow> (l, eputs (''tsql: connection error: '' @ err e @ nl) t)
           | (Inr ms, l) \<Rightarrow> repl j isPrint err lines l (snd (printResults ms t)))))"

end
