(* ===== verification/Spec2Isabelle.thy ===== *)
theory Spec2Isabelle
  imports Durability Parser_Roundtrip Logic Gaps Frames Server Client
begin

text \<open>
  TSQL: a verification library for the SQL server under \<open>src/\<close>.
\<close>

end
